(* ===== verification/Prelude.thy ===== *)
theory Prelude
  imports Main "HOL-Library.Word" "HOL-Library.Finite_Map" "HOL-Library.List_Lexorder"
    "HOL-Library.Product_Lexorder" "HOL-Library.Monad_Syntax"
begin

text \<open>
  Shared vocabulary of the development: the machine integers of the Rust sources with their
  saturating operations, ordered maps and sets (\<open>BTreeMap\<close>, \<open>BTreeSet\<close>) as finite maps and sets
  with iteration in key order, the \<open>Reverse\<close> ordering wrapper, and the generic facts on lists,
  options and finite maps the component theories build on.
\<close>

unbundle bit_operations_syntax

named_theorems codec_simps \<open>laws of the byte codecs\<close>
named_theorems roundtrip_simps "reading back what was written"
named_theorems frame_simps \<open>state components an operation leaves alone\<close>
named_theorems lww_simps \<open>last-writer-wins merges\<close>


section \<open>Machine integers\<close>

type_synonym u8 = "8 word"
type_synonym u32 = "32 word"
type_synonym u64 = "64 word"
type_synonym bytes = "u8 list"

abbreviation (input) u64_max :: u64 where
  "u64_max \<equiv> - 1"

definition sat_add :: "u64 \<Rightarrow> u64 \<Rightarrow> u64" where
  "sat_add a b = (if a + b < a then u64_max else a + b)"

definition sat_sub :: "u64 \<Rightarrow> u64 \<Rightarrow> u64" where
  "sat_sub a b = (if a \<le> b then 0 else a - b)"

definition sat_mul :: "u64 \<Rightarrow> u64 \<Rightarrow> u64" where
  "sat_mul a b = (if unat a * unat b < 2 ^ 64 then a * b else u64_max)"

lemma unat_u64_bound: "unat (x :: u64) \<le> 18446744073709551615"
  using unsigned_less [of x, where 'a = nat] by simp

lemma unat_u64_max [simp]: "unat u64_max = 18446744073709551615"
  by (simp add: unsigned_minus_1_eq_mask mask_eq_exp_minus_1)

lemma unat_sat_add: "unat (sat_add a b) = min (unat a + unat b) (2 ^ 64 - 1)"
proof -
  have a: "unat a \<le> 18446744073709551615" and b: "unat b \<le> 18446744073709551615"
    by (rule unat_u64_bound)+
  show ?thesis
  proof (cases "unat a + unat b < 2 ^ 64")
    case True
    then have "unat (a + b) = unat a + unat b" by (simp add: unat_word_ariths)
    with True show ?thesis by (simp add: sat_add_def word_less_nat_alt)
  next
    case False
    then have "unat (a + b) = unat a + unat b - 2 ^ 64"
      using a b by (simp add: unat_word_ariths mod_if)
    moreover have "unat a + unat b - 2 ^ 64 < unat a" using False b by simp
    ultimately show ?thesis using False
      by (simp add: sat_add_def word_less_nat_alt)
  qed
qed

lemma unat_sat_sub: "unat (sat_sub a b) = unat a - unat b"
  by (auto simp: sat_sub_def word_le_nat_alt unat_sub word_less_nat_alt)

lemma unat_sat_mul: "unat (sat_mul a b) = min (unat a * unat b) (2 ^ 64 - 1)"
  by (auto simp: sat_mul_def unat_word_ariths)

lemma sat_add_ge1 [simp]: "a \<le> sat_add a b"
  using unat_u64_bound [of a] by (simp add: word_le_nat_alt unat_sat_add)

lemma sat_add_ge2 [simp]: "b \<le> sat_add a b"
  using unat_u64_bound [of b] by (simp add: word_le_nat_alt unat_sat_add)

lemma sat_add_mono: "a \<le> c \<Longrightarrow> b \<le> d \<Longrightarrow> sat_add a b \<le> sat_add c d"
  by (auto simp: word_le_nat_alt unat_sat_add)

lemma sat_add_0 [simp]: "sat_add a 0 = a" "sat_add 0 a = a"
  by (simp_all add: sat_add_def)

lemma sat_add_gt: "a < u64_max \<Longrightarrow> 0 < b \<Longrightarrow> a < sat_add a b"
  by (auto simp: word_less_nat_alt unat_sat_add)

lemma sat_add_1_less_iff: "a < sat_add a 1 \<longleftrightarrow> a \<noteq> u64_max"
proof
  assume "a < sat_add a 1"
  then show "a \<noteq> u64_max" by (auto simp: sat_add_def)
next
  assume "a \<noteq> u64_max"
  then have "a < u64_max" by (simp add: word_order.not_eq_extremum)
  then show "a < sat_add a 1" by (rule sat_add_gt) simp
qed

lemma sat_mul_pos: "0 < a \<Longrightarrow> 0 < b \<Longrightarrow> 0 < sat_mul a b"
  by (auto simp: word_less_nat_alt unat_sat_mul)

lemma sat_mul_ge: "0 < b \<Longrightarrow> a \<le> sat_mul a b"
  using unat_u64_bound [of a] by (auto simp: word_le_nat_alt word_less_nat_alt unat_sat_mul)

lemma word_le_u64_max [simp]: "(x :: u64) \<le> u64_max"
  by (rule word_order.extremum)


section \<open>The reversed order\<close>

text \<open>\<open>std::cmp::Reverse\<close>: the same values under the opposite order.\<close>

datatype 'a reverse = Reverse (unreverse: 'a)

instantiation reverse :: (linorder) linorder
begin

definition less_eq_reverse :: "'a reverse \<Rightarrow> 'a reverse \<Rightarrow> bool" where
  "a \<le> b \<longleftrightarrow> unreverse b \<le> unreverse a"

definition less_reverse :: "'a reverse \<Rightarrow> 'a reverse \<Rightarrow> bool" where
  "a < b \<longleftrightarrow> unreverse b < unreverse a"

instance
  by standard (auto simp: less_eq_reverse_def less_reverse_def intro: reverse.expand)

end


section \<open>Ordered maps and sets\<close>

text \<open>
  A \<open>BTreeMap\<close> is a finite map, a \<open>BTreeSet\<close> a finite set; what the code observes beyond that is
  that iteration runs in ascending key order.
\<close>

definition fset_list :: "'a::linorder fset \<Rightarrow> 'a list" where
  "fset_list S = sorted_list_of_set (fset S)"

definition keys_list :: "('k::linorder, 'v) fmap \<Rightarrow> 'k list" where
  "keys_list m = fset_list (fmdom m)"

definition fentries :: "('k::linorder, 'v) fmap \<Rightarrow> ('k \<times> 'v) list" where
  "fentries m = map (\<lambda>k. (k, the (fmlookup m k))) (keys_list m)"

lemma set_fset_list [simp]: "set (fset_list S) = fset S"
  by (simp add: fset_list_def)

lemma sorted_fset_list [simp]: "sorted (fset_list S)"
  by (simp add: fset_list_def)

lemma distinct_fset_list [simp]: "distinct (fset_list S)"
  by (simp add: fset_list_def)

lemma strict_sorted_fset_list: "sorted_wrt (<) (fset_list S)"
  by (simp add: strict_sorted_iff)

lemma fset_list_empty [simp]: "fset_list {||} = []"
  by (simp add: fset_list_def)

lemma fset_list_eq_Nil_iff [simp]: "fset_list S = [] \<longleftrightarrow> S = {||}"
  by (metis fset_list_empty set_empty set_fset_list bot_fset.rep_eq fset_inject)

lemma length_fset_list [simp]: "length (fset_list S) = fcard S"
  by (metis distinct_card distinct_fset_list set_fset_list fcard.rep_eq)

lemma set_keys_list [simp]: "set (keys_list m) = fset (fmdom m)"
  by (simp add: keys_list_def)

lemma distinct_keys_list [simp]: "distinct (keys_list m)"
  by (simp add: keys_list_def)

lemma sorted_keys_list [simp]: "sorted (keys_list m)"
  by (simp add: keys_list_def)

lemma in_fentries_iff: "(k, v) \<in> set (fentries m) \<longleftrightarrow> fmlookup m k = Some v"
  by (auto simp: fentries_def fmlookup_dom_iff fmdom_notI)

lemma map_fst_fentries [simp]: "map fst (fentries m) = keys_list m"
  by (simp add: fentries_def comp_def)

lemma distinct_fentries [simp]: "distinct (fentries m)"
  using distinct_keys_list [of m] map_fst_fentries [of m] by (metis distinct_map)

text \<open>The first and the last element of a \<open>BTreeSet\<close>.\<close>

definition fset_first :: "'a::linorder fset \<Rightarrow> 'a option" where
  "fset_first S = (case fset_list S of [] \<Rightarrow> None | x # _ \<Rightarrow> Some x)"

definition fset_last :: "'a::linorder fset \<Rightarrow> 'a option" where
  "fset_last S = (if S = {||} then None else Some (last (fset_list S)))"

lemma fset_first_None_iff [simp]: "fset_first S = None \<longleftrightarrow> S = {||}"
  by (auto simp: fset_first_def split: list.splits)

lemma fset_first_Some_iff:
  "fset_first S = Some x \<longleftrightarrow> x |\<in>| S \<and> (\<forall>y. y |\<in>| S \<longrightarrow> x \<le> y)"
proof
  assume "fset_first S = Some x"
  then obtain xs where xs: "fset_list S = x # xs"
    by (auto simp: fset_first_def split: list.splits)
  then have "sorted (x # xs)" and S: "fset S = set (x # xs)"
    by (metis sorted_fset_list, metis set_fset_list)
  then show "x |\<in>| S \<and> (\<forall>y. y |\<in>| S \<longrightarrow> x \<le> y)" by auto
next
  assume x: "x |\<in>| S \<and> (\<forall>y. y |\<in>| S \<longrightarrow> x \<le> y)"
  then obtain z zs where zs: "fset_list S = z # zs"
    by (metis set_fset_list list.exhaust list.set(1) empty_iff)
  then have "sorted (z # zs)" and S: "fset S = set (z # zs)"
    by (metis sorted_fset_list, metis set_fset_list)
  with x have "z = x" by (auto intro: antisym)
  with zs show "fset_first S = Some x" by (simp add: fset_first_def)
qed

lemma fset_last_None_iff [simp]: "fset_last S = None \<longleftrightarrow> S = {||}"
  by (simp add: fset_last_def)

lemma fset_last_Some_iff:
  "fset_last S = Some x \<longleftrightarrow> x |\<in>| S \<and> (\<forall>y. y |\<in>| S \<longrightarrow> y \<le> x)"
proof (cases "S = {||}")
  case True
  then show ?thesis by (simp add: fset_last_def)
next
  case False
  then have ne: "fset_list S \<noteq> []" by simp
  then have in_S: "last (fset_list S) |\<in>| S"
    using last_in_set set_fset_list by blast
  have top: "y \<le> last (fset_list S)" if "y |\<in>| S" for y
  proof -
    have sorted: "sorted (butlast (fset_list S) @ [last (fset_list S)])" using ne by simp
    have "y \<in> set (butlast (fset_list S) @ [last (fset_list S)])" using that ne by simp
    with sorted show ?thesis by (auto simp only: sorted_append set_append) auto
  qed
  from False have "fset_last S = Some x \<longleftrightarrow> last (fset_list S) = x"
    by (simp add: fset_last_def)
  also have "\<dots> \<longleftrightarrow> x |\<in>| S \<and> (\<forall>y. y |\<in>| S \<longrightarrow> y \<le> x)"
    using in_S top by (auto intro: antisym)
  finally show ?thesis .
qed


section \<open>Generic facts\<close>

text \<open>\<open>Iterator::max_by_key\<close>: the last of the elements with the greatest key.\<close>

fun max_by_key :: "('a \<Rightarrow> 'b::linorder) \<Rightarrow> 'a list \<Rightarrow> 'a option" where
  "max_by_key f [] = None"
| "max_by_key f (x # xs) =
     (case max_by_key f xs of None \<Rightarrow> Some x
      | Some y \<Rightarrow> if f y < f x then Some x else Some y)"

lemma max_by_key_None_iff [simp]: "max_by_key f xs = None \<longleftrightarrow> xs = []"
  by (cases xs) (auto split: option.splits)

lemma max_by_key_SomeD:
  "max_by_key f xs = Some x \<Longrightarrow> x \<in> set xs \<and> (\<forall>y \<in> set xs. f y \<le> f x)"
proof (induction xs arbitrary: x)
  case (Cons a xs)
  then show ?case
    by (cases "max_by_key f xs") (fastforce split: if_splits)+
qed simp

lemma max_by_key_Some_iff:
  assumes "inj_on f (set xs)"
  shows "max_by_key f xs = Some x \<longleftrightarrow> x \<in> set xs \<and> (\<forall>y \<in> set xs. f y \<le> f x)"
proof
  assume x: "x \<in> set xs \<and> (\<forall>y \<in> set xs. f y \<le> f x)"
  then obtain z where z: "max_by_key f xs = Some z"
    by (metis max_by_key_None_iff option.exhaust list.set(1) empty_iff)
  with x have "f x = f z" by (meson max_by_key_SomeD order.antisym)
  with x z assms have "x = z" by (meson inj_onD max_by_key_SomeD)
  with z show "max_by_key f xs = Some x" by simp
qed (rule max_by_key_SomeD)

lemma if_Some_eq_Some [simp]: "(if P then Some x else None) = Some y \<longleftrightarrow> P \<and> x = y"
  by simp

text \<open>An ASCII literal as the bytes of a Rust string.\<close>

definition ascii :: "string \<Rightarrow> bytes" where
  "ascii s = map of_char s"

end
