(* ===== verification/Ids.thy ===== *)
theory Ids
  imports Prelude
begin

text \<open>
  Identities and logical time (\<open>id.rs\<close>, \<open>time.rs\<close>): \<open>NodeId\<close> and \<open>GroupId\<close> wrap a Rust string,
  compared by its bytes, and \<open>Time\<close> is a 64-bit millisecond count with saturating addition.
\<close>

text \<open>A Rust \<open>str\<close> is its UTF-8 bytes; \<open>Ord\<close> on it is the lexicographic order of the bytes.\<close>

type_synonym str = bytes

datatype node_id = NodeId (as_str: str)

datatype group_id = GroupId (group_str: str)

instantiation node_id :: linorder
begin

definition less_eq_node_id :: "node_id \<Rightarrow> node_id \<Rightarrow> bool" where
  "a \<le> b \<longleftrightarrow> as_str a \<le> as_str b"

definition less_node_id :: "node_id \<Rightarrow> node_id \<Rightarrow> bool" where
  "a < b \<longleftrightarrow> as_str a < as_str b"

instance
  by standard (auto simp: less_eq_node_id_def less_node_id_def intro: node_id.expand)

end

instantiation group_id :: linorder
begin

definition less_eq_group_id :: "group_id \<Rightarrow> group_id \<Rightarrow> bool" where
  "a \<le> b \<longleftrightarrow> group_str a \<le> group_str b"

definition less_group_id :: "group_id \<Rightarrow> group_id \<Rightarrow> bool" where
  "a < b \<longleftrightarrow> group_str a < group_str b"

instance
  by standard (auto simp: less_eq_group_id_def less_group_id_def intro: group_id.expand)

end

type_synonym time = u64

abbreviation (input) time_zero :: time where
  "time_zero \<equiv> 0"

abbreviation (input) time_max :: time where
  "time_max \<equiv> u64_max"

definition time_saturating_add :: "time \<Rightarrow> u64 \<Rightarrow> time" where
  "time_saturating_add t ms = sat_add t ms"

declare time_saturating_add_def [simp]


section \<open>UTF-8\<close>

text \<open>
  The check of \<open>std::str::from_utf8\<close>: the well-formed byte sequences of the Unicode standard
  (no overlong forms, no surrogates, nothing above U+10FFFF).
\<close>

definition utf8_cont :: "u8 \<Rightarrow> bool" where
  "utf8_cont b \<longleftrightarrow> 0x80 \<le> b \<and> b \<le> 0xBF"

fun from_utf8_ok :: "bytes \<Rightarrow> bool" where
  "from_utf8_ok [] = True"
| "from_utf8_ok (b # bs) =
     (if b < 0x80 then from_utf8_ok bs
      else if 0xC2 \<le> b \<and> b \<le> 0xDF then
        (case bs of c # r \<Rightarrow> utf8_cont c \<and> from_utf8_ok r | _ \<Rightarrow> False)
      else if 0xE0 \<le> b \<and> b \<le> 0xEF then
        (case bs of c # d # r \<Rightarrow>
           (if b = 0xE0 then 0xA0 \<le> c \<and> c \<le> 0xBF
            else if b = 0xED then 0x80 \<le> c \<and> c \<le> 0x9F
            else utf8_cont c) \<and> utf8_cont d \<and> from_utf8_ok r
         | _ \<Rightarrow> False)
      else if 0xF0 \<le> b \<and> b \<le> 0xF4 then
        (case bs of c # d # e # r \<Rightarrow>
           (if b = 0xF0 then 0x90 \<le> c \<and> c \<le> 0xBF
            else if b = 0xF4 then 0x80 \<le> c \<and> c \<le> 0x8F
            else utf8_cont c) \<and> utf8_cont d \<and> utf8_cont e \<and> from_utf8_ok r
         | _ \<Rightarrow> False)
      else False)"

lemma from_utf8_ok_ascii: "\<forall>b \<in> set bs. b < 0x80 \<Longrightarrow> from_utf8_ok bs"
  by (induction bs) auto

end
