(* ===== verification/Wire.thy ===== *)
theory Wire
  imports Ids
begin

text \<open>
  The gossip wire protocol and its codec (\<open>crates/groupnet-core/src/wire.rs\<close>). A writer
  \<open>put_*\<close> of the source appends to a buffer; here it returns the bytes it appends. A reader
  \<open>get_*\<close> takes the unread bytes and returns the value with the bytes left over, or \<open>None\<close>.

  Every reader and writer pair satisfies one law, the assumption of the locale \<open>codec\<close>: the
  reader accepts exactly the bytes the writer produces for a well-formed value, and leaves the
  rest unread. The law of a whole frame is \<open>decode_iff\<close>.
\<close>


section \<open>Frames\<close>

datatype kind = Digest | DeltaRequest | Delta | Ping | Ack | PingReq | IndirectAck
  | LeadClaim | LeadGrant | LeadState | LeadResign

datatype lead_body =
    Claim u64 node_id
  | Grant u64 node_id node_id
  | State u64 "node_id option"
  | Resign u64 node_id

record entry_delta =
  ed_key :: str
  ed_version :: u64
  ed_ttl_ms :: u64
  ed_tombstone :: bool
  ed_value :: bytes

record member_delta =
  md_node :: node_id
  md_incarnation :: u64
  md_status :: u8
  md_max_version :: u64
  md_entries :: "entry_delta list"

record node_digest =
  nd_node :: node_id
  nd_incarnation :: u64
  nd_status :: u8
  nd_max_version :: u64
  nd_content_hash :: u64

record node_want =
  nw_node :: node_id
  nw_have_version :: u64

record meta_delta =
  mt_key :: str
  mt_version :: u64
  mt_writer :: node_id
  mt_value :: str

record frame =
  fr_kind :: kind
  fr_group :: group_id
  fr_target :: "node_id option"
  fr_digest :: "node_digest list"
  fr_wants :: "node_want list"
  fr_members :: "member_delta list"
  fr_metadata :: "meta_delta list"
  fr_lead :: "lead_body option"

definition FRAME_VERSION :: u8 where
  "FRAME_VERSION = 1"

fun kind_to_u8 :: "kind \<Rightarrow> u8" where
  "kind_to_u8 Digest = 1"
| "kind_to_u8 Ping = 2"
| "kind_to_u8 Ack = 3"
| "kind_to_u8 PingReq = 4"
| "kind_to_u8 IndirectAck = 5"
| "kind_to_u8 DeltaRequest = 6"
| "kind_to_u8 Delta = 7"
| "kind_to_u8 LeadClaim = 8"
| "kind_to_u8 LeadGrant = 9"
| "kind_to_u8 LeadState = 10"
| "kind_to_u8 LeadResign = 11"

fun lead_kind :: "lead_body \<Rightarrow> kind" where
  "lead_kind (Claim _ _) = LeadClaim"
| "lead_kind (Grant _ _ _) = LeadGrant"
| "lead_kind (State _ _) = LeadState"
| "lead_kind (Resign _ _) = LeadResign"

definition kind_from_u8 :: "u8 \<Rightarrow> kind option" where
  "kind_from_u8 b =
     (if b = 1 then Some Digest
      else if b = 2 then Some Ping
      else if b = 3 then Some Ack
      else if b = 4 then Some PingReq
      else if b = 5 then Some IndirectAck
      else if b = 6 then Some DeltaRequest
      else if b = 7 then Some Delta
      else if b = 8 then Some LeadClaim
      else if b = 9 then Some LeadGrant
      else if b = 10 then Some LeadState
      else if b = 11 then Some LeadResign
      else None)"


section \<open>Primitives\<close>

fun to_le_bytes :: "nat \<Rightarrow> 'a::len word \<Rightarrow> bytes" where
  "to_le_bytes 0 v = []"
| "to_le_bytes (Suc n) v = ucast v # to_le_bytes n (drop_bit 8 v)"

fun from_le_bytes :: "bytes \<Rightarrow> 'a::len word" where
  "from_le_bytes [] = 0"
| "from_le_bytes (b # bs) = ucast b OR push_bit 8 (from_le_bytes bs)"

definition put_u32 :: "u32 \<Rightarrow> bytes" where
  "put_u32 v = to_le_bytes 4 v"

definition put_u64 :: "u64 \<Rightarrow> bytes" where
  "put_u64 v = to_le_bytes 8 v"

definition put_bytes :: "bytes \<Rightarrow> bytes" where
  "put_bytes b = put_u32 (word_of_nat (length b)) @ b"

definition put_str :: "str \<Rightarrow> bytes" where
  "put_str s = put_bytes s"

definition take_u8 :: "bytes \<Rightarrow> (u8 \<times> bytes) option" where
  "take_u8 cur = (case cur of [] \<Rightarrow> None | b # rest \<Rightarrow> Some (b, rest))"

definition get_u32 :: "bytes \<Rightarrow> (u32 \<times> bytes) option" where
  "get_u32 cur =
     (if length cur < 4 then None else Some (from_le_bytes (take 4 cur), drop 4 cur))"

definition get_u64 :: "bytes \<Rightarrow> (u64 \<times> bytes) option" where
  "get_u64 cur =
     (if length cur < 8 then None else Some (from_le_bytes (take 8 cur), drop 8 cur))"

definition get_bytes :: "bytes \<Rightarrow> (bytes \<times> bytes) option" where
  "get_bytes cur0 = do {
     (len, cur) \<leftarrow> get_u32 cur0;
     if length cur < unat len then None
     else Some (take (unat len) cur, drop (unat len) cur)
   }"

definition get_str :: "bytes \<Rightarrow> (str \<times> bytes) option" where
  "get_str cur0 = do {
     (len, cur) \<leftarrow> get_u32 cur0;
     if length cur < unat len then None
     else if from_utf8_ok (take (unat len) cur)
     then Some (take (unat len) cur, drop (unat len) cur) else None
   }"


text \<open>
  Counted vectors: a \<open>u32\<close> element count, then the elements, the loop shape every vector of
  \<open>encode\<close> and \<open>decode\<close> has.
\<close>

fun get_n :: "(bytes \<Rightarrow> ('a \<times> bytes) option) \<Rightarrow> nat \<Rightarrow> bytes \<Rightarrow> ('a list \<times> bytes) option" where
  "get_n get 0 cur = Some ([], cur)"
| "get_n get (Suc n) cur0 = do {
     (x, cur) \<leftarrow> get cur0;
     (xs, cur) \<leftarrow> get_n get n cur;
     Some (x # xs, cur)
   }"

definition put_vec :: "('a \<Rightarrow> bytes) \<Rightarrow> 'a list \<Rightarrow> bytes" where
  "put_vec put xs = put_u32 (word_of_nat (length xs)) @ concat (map put xs)"

definition get_vec :: "(bytes \<Rightarrow> ('a \<times> bytes) option) \<Rightarrow> bytes \<Rightarrow> ('a list \<times> bytes) option" where
  "get_vec get cur0 = do { (n, cur) \<leftarrow> get_u32 cur0; get_n get (unat n) cur }"

definition vec_ok :: "('a \<Rightarrow> bool) \<Rightarrow> 'a list \<Rightarrow> bool" where
  "vec_ok ok xs \<longleftrightarrow> length xs < 2 ^ 32 \<and> (\<forall>x \<in> set xs. ok x)"



section \<open>Encoding\<close>

definition put_node :: "node_id \<Rightarrow> bytes" where
  "put_node n = put_str (as_str n)"

definition put_opt_node :: "node_id option \<Rightarrow> bytes" where
  "put_opt_node t = (case t of Some n \<Rightarrow> [1] @ put_node n | None \<Rightarrow> [0])"

definition put_digest :: "node_digest \<Rightarrow> bytes" where
  "put_digest d = put_node (nd_node d) @ put_u64 (nd_incarnation d) @ [nd_status d]
     @ put_u64 (nd_max_version d) @ put_u64 (nd_content_hash d)"

definition put_want :: "node_want \<Rightarrow> bytes" where
  "put_want w = put_node (nw_node w) @ put_u64 (nw_have_version w)"

definition put_bool :: "bool \<Rightarrow> bytes" where
  "put_bool b = [if b then 1 else 0]"

definition put_entry :: "entry_delta \<Rightarrow> bytes" where
  "put_entry e = put_str (ed_key e) @ put_u64 (ed_version e) @ put_u64 (ed_ttl_ms e)
     @ put_bool (ed_tombstone e) @ put_bytes (ed_value e)"

definition put_member :: "member_delta \<Rightarrow> bytes" where
  "put_member m = put_node (md_node m) @ put_u64 (md_incarnation m) @ [md_status m]
     @ put_u64 (md_max_version m) @ put_vec put_entry (md_entries m)"

definition put_meta :: "meta_delta \<Rightarrow> bytes" where
  "put_meta d = put_str (mt_key d) @ put_u64 (mt_version d) @ put_node (mt_writer d)
     @ put_str (mt_value d)"

definition put_metadata :: "meta_delta list \<Rightarrow> bytes" where
  "put_metadata ms = put_vec put_meta ms"

fun put_lead :: "lead_body \<Rightarrow> bytes" where
  "put_lead (Claim epoch claimant) = put_u64 epoch @ put_node claimant"
| "put_lead (Grant epoch claimant granter) = put_u64 epoch @ put_node claimant @ put_node granter"
| "put_lead (State epoch host) = put_u64 epoch @ put_opt_node host"
| "put_lead (Resign epoch host) = put_u64 epoch @ put_node host"

definition put_body :: "frame \<Rightarrow> bytes" where
  "put_body f =
     (case fr_kind f of
        Digest \<Rightarrow> put_vec put_digest (fr_digest f) @ put_metadata (fr_metadata f)
      | DeltaRequest \<Rightarrow> put_vec put_want (fr_wants f)
      | Delta \<Rightarrow> put_vec put_member (fr_members f)
      | LeadClaim \<Rightarrow> (case fr_lead f of Some body \<Rightarrow> put_lead body | None \<Rightarrow> [])
      | LeadGrant \<Rightarrow> (case fr_lead f of Some body \<Rightarrow> put_lead body | None \<Rightarrow> [])
      | LeadState \<Rightarrow> (case fr_lead f of Some body \<Rightarrow> put_lead body | None \<Rightarrow> [])
      | LeadResign \<Rightarrow> (case fr_lead f of Some body \<Rightarrow> put_lead body | None \<Rightarrow> [])
      | _ \<Rightarrow> [])"

definition encode :: "frame \<Rightarrow> bytes" where
  "encode f = [FRAME_VERSION] @ [kind_to_u8 (fr_kind f)] @ put_str (group_str (fr_group f))
     @ put_opt_node (fr_target f) @ put_body f"


section \<open>Decoding\<close>

definition get_node :: "bytes \<Rightarrow> (node_id \<times> bytes) option" where
  "get_node cur0 = do { (s, cur) \<leftarrow> get_str cur0; Some (NodeId s, cur) }"

definition get_group :: "bytes \<Rightarrow> (group_id \<times> bytes) option" where
  "get_group cur0 = do { (s, cur) \<leftarrow> get_str cur0; Some (GroupId s, cur) }"

definition get_opt_node :: "bytes \<Rightarrow> (node_id option \<times> bytes) option" where
  "get_opt_node cur0 = do {
     (tag, cur) \<leftarrow> take_u8 cur0;
     if tag = 0 then Some (None, cur)
     else if tag = 1 then do { (n, cur) \<leftarrow> get_node cur; Some (Some n, cur) }
     else None
   }"

definition get_bool :: "bytes \<Rightarrow> (bool \<times> bytes) option" where
  "get_bool cur0 = do {
     (tag, cur) \<leftarrow> take_u8 cur0;
     if tag = 0 then Some (False, cur) else if tag = 1 then Some (True, cur) else None
   }"

definition get_kind :: "bytes \<Rightarrow> (kind \<times> bytes) option" where
  "get_kind cur0 = do {
     (b, cur) \<leftarrow> take_u8 cur0;
     k \<leftarrow> kind_from_u8 b;
     Some (k, cur)
   }"

definition get_digest :: "bytes \<Rightarrow> (node_digest \<times> bytes) option" where
  "get_digest cur0 = do {
     (node, cur) \<leftarrow> get_node cur0;
     (incarnation, cur) \<leftarrow> get_u64 cur;
     (status, cur) \<leftarrow> take_u8 cur;
     (max_version, cur) \<leftarrow> get_u64 cur;
     (content_hash, cur) \<leftarrow> get_u64 cur;
     Some (\<lparr>nd_node = node, nd_incarnation = incarnation, nd_status = status,
            nd_max_version = max_version, nd_content_hash = content_hash\<rparr>, cur)
   }"

definition get_want :: "bytes \<Rightarrow> (node_want \<times> bytes) option" where
  "get_want cur0 = do {
     (node, cur) \<leftarrow> get_node cur0;
     (have_version, cur) \<leftarrow> get_u64 cur;
     Some (\<lparr>nw_node = node, nw_have_version = have_version\<rparr>, cur)
   }"

definition get_entry :: "bytes \<Rightarrow> (entry_delta \<times> bytes) option" where
  "get_entry cur0 = do {
     (key, cur) \<leftarrow> get_str cur0;
     (version, cur) \<leftarrow> get_u64 cur;
     (ttl_ms, cur) \<leftarrow> get_u64 cur;
     (tombstone, cur) \<leftarrow> get_bool cur;
     (value, cur) \<leftarrow> get_bytes cur;
     Some (\<lparr>ed_key = key, ed_version = version, ed_ttl_ms = ttl_ms, ed_tombstone = tombstone,
            ed_value = value\<rparr>, cur)
   }"

definition get_member :: "bytes \<Rightarrow> (member_delta \<times> bytes) option" where
  "get_member cur0 = do {
     (node, cur) \<leftarrow> get_node cur0;
     (incarnation, cur) \<leftarrow> get_u64 cur;
     (status, cur) \<leftarrow> take_u8 cur;
     (max_version, cur) \<leftarrow> get_u64 cur;
     (entries, cur) \<leftarrow> get_vec get_entry cur;
     Some (\<lparr>md_node = node, md_incarnation = incarnation, md_status = status,
            md_max_version = max_version, md_entries = entries\<rparr>, cur)
   }"

definition get_meta :: "bytes \<Rightarrow> (meta_delta \<times> bytes) option" where
  "get_meta cur0 = do {
     (key, cur) \<leftarrow> get_str cur0;
     (version, cur) \<leftarrow> get_u64 cur;
     (writer, cur) \<leftarrow> get_node cur;
     (value, cur) \<leftarrow> get_str cur;
     Some (\<lparr>mt_key = key, mt_version = version, mt_writer = writer, mt_value = value\<rparr>, cur)
   }"

definition get_metadata :: "bytes \<Rightarrow> (meta_delta list \<times> bytes) option" where
  "get_metadata cur = get_vec get_meta cur"

definition get_lead :: "kind \<Rightarrow> bytes \<Rightarrow> (lead_body \<times> bytes) option" where
  "get_lead kind cur0 = do {
     (epoch, cur) \<leftarrow> get_u64 cur0;
     case kind of
       LeadClaim \<Rightarrow> do { (claimant, cur) \<leftarrow> get_node cur; Some (Claim epoch claimant, cur) }
     | LeadGrant \<Rightarrow> do {
         (claimant, cur) \<leftarrow> get_node cur;
         (granter, cur) \<leftarrow> get_node cur;
         Some (Grant epoch claimant granter, cur)
       }
     | LeadState \<Rightarrow> do { (host, cur) \<leftarrow> get_opt_node cur; Some (State epoch host, cur) }
     | LeadResign \<Rightarrow> do { (host, cur) \<leftarrow> get_node cur; Some (Resign epoch host, cur) }
     | _ \<Rightarrow> None
   }"

definition empty_frame :: "kind \<Rightarrow> group_id \<Rightarrow> node_id option \<Rightarrow> frame" where
  "empty_frame kind grp target =
     \<lparr>fr_kind = kind, fr_group = grp, fr_target = target, fr_digest = [], fr_wants = [],
      fr_members = [], fr_metadata = [], fr_lead = None\<rparr>"

definition get_body :: "frame \<Rightarrow> bytes \<Rightarrow> (frame \<times> bytes) option" where
  "get_body f cur0 =
     (case fr_kind f of
        Digest \<Rightarrow> do {
          (ds, cur) \<leftarrow> get_vec get_digest cur0;
          (ms, cur) \<leftarrow> get_metadata cur;
          Some (f\<lparr>fr_digest := ds, fr_metadata := ms\<rparr>, cur)
        }
      | DeltaRequest \<Rightarrow> do {
          (ws, cur) \<leftarrow> get_vec get_want cur0;
          Some (f\<lparr>fr_wants := ws\<rparr>, cur)
        }
      | Delta \<Rightarrow> do {
          (ms, cur) \<leftarrow> get_vec get_member cur0;
          Some (f\<lparr>fr_members := ms\<rparr>, cur)
        }
      | Ping \<Rightarrow> Some (f, cur0)
      | Ack \<Rightarrow> Some (f, cur0)
      | PingReq \<Rightarrow> Some (f, cur0)
      | IndirectAck \<Rightarrow> Some (f, cur0)
      | k \<Rightarrow> do {
          (body, cur) \<leftarrow> get_lead k cur0;
          Some (f\<lparr>fr_lead := Some body\<rparr>, cur)
        })"

definition decode :: "bytes \<Rightarrow> frame option" where
  "decode bs = do {
     (v, cur) \<leftarrow> take_u8 bs;
     if v \<noteq> FRAME_VERSION then None
     else do {
       (kind, cur) \<leftarrow> get_kind cur;
       (grp, cur) \<leftarrow> get_group cur;
       (target, cur) \<leftarrow> get_opt_node cur;
       (f, _) \<leftarrow> get_body (empty_frame kind grp target) cur;
       Some f
     }
   }"

definition peek_group :: "bytes \<Rightarrow> group_id option" where
  "peek_group bs = do {
     (v, cur) \<leftarrow> take_u8 bs;
     if v \<noteq> FRAME_VERSION then None
     else do {
       (_, cur) \<leftarrow> take_u8 cur;
       (grp, _) \<leftarrow> get_group cur;
       Some grp
     }
   }"


section \<open>Encoded-size accounting\<close>

definition str_len :: "str \<Rightarrow> nat" where
  "str_len s = 4 + length s"

definition digest_len :: "node_digest \<Rightarrow> nat" where
  "digest_len d = str_len (as_str (nd_node d)) + 8 + 1 + 8 + 8"

definition want_len :: "node_want \<Rightarrow> nat" where
  "want_len w = str_len (as_str (nw_node w)) + 8"

definition meta_len :: "meta_delta \<Rightarrow> nat" where
  "meta_len d = str_len (mt_key d) + 8 + str_len (as_str (mt_writer d)) + 4 + length (mt_value d)"

definition entry_len :: "entry_delta \<Rightarrow> nat" where
  "entry_len e = str_len (ed_key e) + 8 + 8 + 1 + 4 + length (ed_value e)"

definition member_header_len :: "node_id \<Rightarrow> nat" where
  "member_header_len n = str_len (as_str n) + 8 + 1 + 8 + 4"

definition delta_frame_overhead :: "group_id \<Rightarrow> nat" where
  "delta_frame_overhead g = 1 + 1 + str_len (group_str g) + 1 + 4"


section \<open>Little-endian words\<close>

lemma length_to_le_bytes [simp]: "length (to_le_bytes n v) = n"
  by (induction n arbitrary: v) auto

lemma from_le_to_le_bytes: "from_le_bytes (to_le_bytes n v) = take_bit (8 * n) v"
  by (induction n arbitrary: v)
    (auto intro!: bit_word_eqI simp: bit_or_iff bit_push_bit_iff bit_unsigned_iff bit_drop_bit_eq
      bit_take_bit_iff not_less dest: bit_imp_le_length)

lemma bit_from_le_bytes: "bit (from_le_bytes bs :: 'a::len word) i \<Longrightarrow> i < 8 * length bs"
proof (induction bs arbitrary: i)
  case (Cons b bs)
  from Cons.prems have "bit b i \<or> (8 \<le> i \<and> bit (from_le_bytes bs :: 'a word) (i - 8))"
    by (auto simp: bit_or_iff bit_push_bit_iff bit_unsigned_iff)
  with Cons.IH [of "i - 8"] show ?case
    by (auto dest: bit_imp_le_length)
qed simp

lemma to_le_from_le_bytes:
  "8 * length bs \<le> LENGTH('a) \<Longrightarrow> to_le_bytes (length bs) (from_le_bytes bs :: 'a::len word) = bs"
proof (induction bs)
  case (Cons b bs)
  let ?v = "from_le_bytes bs :: 'a word"
  have "ucast (ucast b OR push_bit 8 ?v) = b"
    using Cons.prems
    by (intro bit_word_eqI) (auto simp: bit_or_iff bit_push_bit_iff bit_unsigned_iff)
  moreover have "drop_bit 8 (ucast b OR push_bit 8 ?v) = ?v"
    using Cons.prems
    by (intro bit_word_eqI)
      (auto simp: bit_or_iff bit_push_bit_iff bit_unsigned_iff bit_drop_bit_eq
        dest: bit_imp_le_length [of b] bit_from_le_bytes)
  ultimately show ?case using Cons by simp
qed simp


section \<open>The codec law\<close>

locale codec =
  fixes put :: "'a \<Rightarrow> bytes"
    and get :: "bytes \<Rightarrow> ('a \<times> bytes) option"
    and ok :: "'a \<Rightarrow> bool"
  assumes get_iff: "get bs = Some (x, rest) \<longleftrightarrow> ok x \<and> bs = put x @ rest"


context codec
begin

lemma get_put: "ok x \<Longrightarrow> get (put x @ rest) = Some (x, rest)"
  by (simp add: get_iff)

lemma put_self_delimiting: "\<lbrakk>ok x; ok y; put x @ r = put y @ s\<rbrakk> \<Longrightarrow> x = y \<and> r = s"
  using get_iff [of "put x @ r" x r] get_iff [of "put x @ r" y s] by simp

lemma get_n_iff:
  "get_n get n bs = Some (xs, rest) \<longleftrightarrow>
     length xs = n \<and> (\<forall>x \<in> set xs. ok x) \<and> bs = concat (map put xs) @ rest"
proof (induction n arbitrary: bs xs)
  case (Suc n)
  show ?case
    by (cases xs) (auto simp: bind_eq_Some_conv get_iff Suc)
qed auto

end

text \<open>The law in its two halves: what was written is read back, and only that is read.\<close>

lemma codecI:
  assumes "\<And>x rest. ok x \<Longrightarrow> get (put x @ rest) = Some (x, rest)"
    and "\<And>bs x rest. get bs = Some (x, rest) \<Longrightarrow> ok x \<and> bs = put x @ rest"
  shows "codec put get ok"
  using assms by unfold_locales blast

definition always_ok :: "'a \<Rightarrow> bool" where
  "always_ok _ = True"

definition len_ok :: "bytes \<Rightarrow> bool" where
  "len_ok b \<longleftrightarrow> length b < 2 ^ 32"

definition str_ok :: "str \<Rightarrow> bool" where
  "str_ok s \<longleftrightarrow> len_ok s \<and> from_utf8_ok s"

interpretation u8: codec "\<lambda>b. [b]" take_u8 always_ok
  by unfold_locales (auto simp: take_u8_def always_ok_def split: list.splits)

lemma take_drop_le_bytes:
  "\<not> length bs < n \<Longrightarrow> 8 * n = LENGTH('a) \<Longrightarrow>
     (from_le_bytes (take n bs) :: 'a::len word) = v \<and> drop n bs = rest \<longleftrightarrow>
       bs = to_le_bytes n v @ rest"
  using to_le_from_le_bytes [of "take n bs", where 'a = 'a]
  by (auto simp: from_le_to_le_bytes min_absorb2)

interpretation u32: codec put_u32 get_u32 always_ok
  using take_drop_le_bytes [where 'a = 32]
  by unfold_locales (auto simp: get_u32_def put_u32_def always_ok_def)

interpretation u64: codec put_u64 get_u64 always_ok
  using take_drop_le_bytes [where 'a = 64]
  by unfold_locales (auto simp: get_u64_def put_u64_def always_ok_def)

lemma put_u32_append_eq [simp]: "put_u32 v @ r = put_u32 w @ s \<longleftrightarrow> v = w \<and> r = s"
  using u32.put_self_delimiting [of v w r s] by (auto simp: always_ok_def)

lemma unat_of_nat_u32 [simp]: "n < 4294967296 \<Longrightarrow> unat (word_of_nat n :: u32) = n"
  by (simp add: unsigned_of_nat take_bit_nat_eq_self)

lemma unat_u32_less [simp]: "unat (w :: u32) < 4294967296"
  using unsigned_less [of w, where 'a = nat] by simp

text \<open>A length-prefixed read: the prefix is a \<open>u32\<close>, the payload that many bytes.\<close>

lemma len_prefixed_iff:
  "(\<exists>len cur. bs = put_u32 len @ cur \<and> unat len \<le> length cur \<and>
       x = take (unat len) cur \<and> rest = drop (unat len) cur) \<longleftrightarrow>
     len_ok x \<and> bs = put_bytes x @ rest" (is "?L \<longleftrightarrow> ?R")
proof
  assume ?R
  then show ?L
    by (intro exI [of _ "word_of_nat (length x)"] exI [of _ "x @ rest"])
      (simp add: put_bytes_def len_ok_def)
qed (auto simp: put_bytes_def len_ok_def min_absorb2)

interpretation blob: codec put_bytes get_bytes len_ok
proof unfold_locales
  fix bs x rest
  show "get_bytes bs = Some (x, rest) \<longleftrightarrow> len_ok x \<and> bs = put_bytes x @ rest"
    unfolding len_prefixed_iff [symmetric]
    by (auto simp: get_bytes_def bind_eq_Some_conv u32.get_iff always_ok_def not_less)
qed

interpretation str: codec put_str get_str str_ok
proof unfold_locales
  fix bs x rest
  have "get_str bs = Some (x, rest) \<longleftrightarrow> get_bytes bs = Some (x, rest) \<and> from_utf8_ok x"
    by (auto simp: get_str_def get_bytes_def bind_eq_Some_conv)
  then show "get_str bs = Some (x, rest) \<longleftrightarrow> str_ok x \<and> bs = put_str x @ rest"
    by (auto simp: blob.get_iff str_ok_def put_str_def)
qed

context codec
begin

lemma vec_codec: "codec (put_vec put) (get_vec get) (vec_ok ok)"
proof unfold_locales
  fix bs xs rest
  show "get_vec get bs = Some (xs, rest) \<longleftrightarrow> vec_ok ok xs \<and> bs = put_vec put xs @ rest"
    by (auto simp: get_vec_def put_vec_def vec_ok_def bind_eq_Some_conv u32.get_iff get_n_iff
        always_ok_def)
qed

end

definition node_ok :: "node_id \<Rightarrow> bool" where
  "node_ok n \<longleftrightarrow> str_ok (as_str n)"

definition opt_node_ok :: "node_id option \<Rightarrow> bool" where
  "opt_node_ok t \<longleftrightarrow> (case t of Some n \<Rightarrow> node_ok n | None \<Rightarrow> True)"

definition group_ok :: "group_id \<Rightarrow> bool" where
  "group_ok g \<longleftrightarrow> str_ok (group_str g)"

definition digest_ok :: "node_digest \<Rightarrow> bool" where
  "digest_ok d \<longleftrightarrow> node_ok (nd_node d)"

definition want_ok :: "node_want \<Rightarrow> bool" where
  "want_ok w \<longleftrightarrow> node_ok (nw_node w)"

definition entry_ok :: "entry_delta \<Rightarrow> bool" where
  "entry_ok e \<longleftrightarrow> str_ok (ed_key e) \<and> len_ok (ed_value e)"

definition member_ok :: "member_delta \<Rightarrow> bool" where
  "member_ok m \<longleftrightarrow> node_ok (md_node m) \<and> vec_ok entry_ok (md_entries m)"

definition meta_ok :: "meta_delta \<Rightarrow> bool" where
  "meta_ok d \<longleftrightarrow> str_ok (mt_key d) \<and> node_ok (mt_writer d) \<and> str_ok (mt_value d)"

fun lead_ok :: "lead_body \<Rightarrow> bool" where
  "lead_ok (Claim _ c) = node_ok c"
| "lead_ok (Grant _ c g) = (node_ok c \<and> node_ok g)"
| "lead_ok (State _ h) = opt_node_ok h"
| "lead_ok (Resign _ h) = node_ok h"

lemmas codec_ok_defs [codec_simps] =
  always_ok_def node_ok_def group_ok_def opt_node_ok_def digest_ok_def want_ok_def entry_ok_def
  member_ok_def meta_ok_def

lemmas [codec_simps] = bind_eq_Some_conv u8.get_iff u32.get_iff u64.get_iff blob.get_iff str.get_iff

interpretation node: codec put_node get_node node_ok
  by unfold_locales
    (auto simp: get_node_def put_node_def codec_simps)

lemmas [codec_simps] = node.get_iff

lemma if_eq_Some_disj: "(if c then a else b) = Some r \<longleftrightarrow> c \<and> a = Some r \<or> \<not> c \<and> b = Some r"
  by simp

interpretation opt_node: codec put_opt_node get_opt_node opt_node_ok
  by unfold_locales
    (auto simp: get_opt_node_def put_opt_node_def codec_simps if_eq_Some_disj split: option.splits)

interpretation grp: codec "\<lambda>g. put_str (group_str g)" get_group group_ok
  by unfold_locales (auto simp: get_group_def codec_simps)

interpretation boolean: codec put_bool get_bool always_ok
  by unfold_locales (auto simp: get_bool_def put_bool_def codec_simps if_eq_Some_disj)

lemmas [codec_simps] = opt_node.get_iff grp.get_iff boolean.get_iff

lemma take_u8_Cons [roundtrip_simps]: "take_u8 (b # rest) = Some (b, rest)"
  by (simp add: take_u8_def)

lemmas [roundtrip_simps] = u64.get_put blob.get_put str.get_put node.get_put opt_node.get_put
  boolean.get_put

lemma kind_from_u8_iff [codec_simps]: "kind_from_u8 b = Some k \<longleftrightarrow> b = kind_to_u8 k"
  by (cases k) (auto simp: kind_from_u8_def)

interpretation kind: codec "\<lambda>k. [kind_to_u8 k]" get_kind always_ok
  by unfold_locales (auto simp: get_kind_def codec_simps)

interpretation digest: codec put_digest get_digest digest_ok
  by (rule codecI)
    (auto simp: get_digest_def put_digest_def digest_ok_def always_ok_def roundtrip_simps,
      auto simp: codec_simps)

interpretation want: codec put_want get_want want_ok
  by (rule codecI)
    (auto simp: get_want_def put_want_def want_ok_def always_ok_def roundtrip_simps,
      auto simp: codec_simps)

interpretation entry: codec put_entry get_entry entry_ok
  by (rule codecI)
    (auto simp: get_entry_def put_entry_def entry_ok_def always_ok_def roundtrip_simps,
      auto simp: codec_simps)

interpretation entries: codec "put_vec put_entry" "get_vec get_entry" "vec_ok entry_ok"
  by (rule entry.vec_codec)

lemmas [codec_simps] = entries.get_iff
lemmas [roundtrip_simps] = entries.get_put

interpretation member: codec put_member get_member member_ok
  by (rule codecI)
    (auto simp: get_member_def put_member_def member_ok_def always_ok_def roundtrip_simps,
      auto simp: codec_simps)

interpretation meta: codec put_meta get_meta meta_ok
  by (rule codecI)
    (auto simp: get_meta_def put_meta_def meta_ok_def always_ok_def roundtrip_simps,
      auto simp: codec_simps)

interpretation digests: codec "put_vec put_digest" "get_vec get_digest" "vec_ok digest_ok"
  by (rule digest.vec_codec)

interpretation wants: codec "put_vec put_want" "get_vec get_want" "vec_ok want_ok"
  by (rule want.vec_codec)

interpretation members: codec "put_vec put_member" "get_vec get_member" "vec_ok member_ok"
  by (rule member.vec_codec)

interpretation metadata: codec put_metadata get_metadata "vec_ok meta_ok"
  using meta.vec_codec by (simp add: put_metadata_def [abs_def] get_metadata_def [abs_def])

lemmas [codec_simps] = kind.get_iff digests.get_iff wants.get_iff members.get_iff metadata.get_iff

lemma get_lead_iff [codec_simps]:
  "get_lead k bs = Some (x, rest) \<longleftrightarrow> lead_kind x = k \<and> lead_ok x \<and> bs = put_lead x @ rest"
  by (cases k; cases x; auto simp: get_lead_def codec_simps)

text \<open>
  A frame is well formed when its strings are UTF-8 within the \<open>u32\<close> length prefix, only the
  fields its kind uses are populated, and an election kind carries the body it names.
\<close>

definition body_ok :: "frame \<Rightarrow> bool" where
  "body_ok f =
     (case fr_kind f of
        Digest \<Rightarrow> vec_ok digest_ok (fr_digest f) \<and> vec_ok meta_ok (fr_metadata f)
          \<and> fr_wants f = [] \<and> fr_members f = [] \<and> fr_lead f = None
      | DeltaRequest \<Rightarrow> vec_ok want_ok (fr_wants f)
          \<and> fr_digest f = [] \<and> fr_metadata f = [] \<and> fr_members f = [] \<and> fr_lead f = None
      | Delta \<Rightarrow> vec_ok member_ok (fr_members f)
          \<and> fr_digest f = [] \<and> fr_metadata f = [] \<and> fr_wants f = [] \<and> fr_lead f = None
      | k \<Rightarrow> fr_digest f = [] \<and> fr_metadata f = [] \<and> fr_wants f = [] \<and> fr_members f = []
          \<and> (if k \<in> {LeadClaim, LeadGrant, LeadState, LeadResign}
              then (case fr_lead f of Some b \<Rightarrow> lead_kind b = k \<and> lead_ok b | None \<Rightarrow> False)
              else fr_lead f = None))"

definition frame_ok :: "frame \<Rightarrow> bool" where
  "frame_ok f \<longleftrightarrow> group_ok (fr_group f) \<and> opt_node_ok (fr_target f) \<and> body_ok f"

lemma get_body_iff [codec_simps]:
  "get_body (empty_frame k g t) bs = Some (f, rest) \<longleftrightarrow>
     fr_kind f = k \<and> fr_group f = g \<and> fr_target f = t \<and> body_ok f \<and> bs = put_body f @ rest"
  by (cases f; cases k)
    (auto simp: get_body_def put_body_def body_ok_def empty_frame_def codec_simps
      split: option.splits)

lemma get_body_put [roundtrip_simps]:
  "body_ok f \<Longrightarrow>
     get_body (empty_frame (fr_kind f) (fr_group f) (fr_target f)) (put_body f @ rest) = Some (f, rest)"
  by (simp add: get_body_iff)

lemma get_kind_put [roundtrip_simps]: "get_kind (kind_to_u8 k # rest) = Some (k, rest)"
  using kind.get_put [of k rest] by (simp add: always_ok_def)

lemmas [roundtrip_simps] = grp.get_put

lemma decode_encode_append: "frame_ok f \<Longrightarrow> decode (encode f @ rest) = Some f"
  by (simp add: decode_def encode_def frame_ok_def roundtrip_simps)

lemma decode_Some_iff:
  "decode bs = Some f \<longleftrightarrow> frame_ok f \<and> (\<exists>rest. bs = encode f @ rest)"
proof
  assume "decode bs = Some f"
  then show "frame_ok f \<and> (\<exists>rest. bs = encode f @ rest)"
    unfolding decode_def encode_def frame_ok_def by (auto simp: codec_simps split: if_splits)
qed (auto simp: decode_encode_append)

lemma decode_encode: "frame_ok f \<Longrightarrow> decode (encode f) = Some f"
  by (auto simp: decode_Some_iff)

lemma length_put_words [simp]: "length (put_u32 v) = 4" "length (put_u64 w) = 8"
  by (simp_all add: put_u32_def put_u64_def)

lemma length_put_str [simp]: "length (put_str s) = str_len s" "length (put_bytes b) = 4 + length b"
  by (simp_all add: put_str_def put_bytes_def str_len_def)

lemma length_put_records [simp]:
  "length (put_node n) = str_len (as_str n)"
  "length (put_digest d) = digest_len d"
  "length (put_want w) = want_len w"
  "length (put_meta m) = meta_len m"
  "length (put_entry e) = entry_len e"
  by (simp_all add: put_node_def put_digest_def put_want_def put_meta_def put_entry_def put_bool_def
      digest_len_def want_len_def meta_len_def entry_len_def str_len_def)

lemma length_put_vec [simp]: "length (put_vec put xs) = 4 + (\<Sum>x\<leftarrow>xs. length (put x))"
  by (simp add: put_vec_def length_concat comp_def)

lemma length_put_member [simp]:
  "length (put_member m) = member_header_len (md_node m) + (\<Sum>e\<leftarrow>md_entries m. entry_len e)"
  by (simp add: put_member_def member_header_len_def)

text \<open>
  C13. A byte string decodes to a frame exactly when the frame is well formed and the string
  starts with its encoding; so decoding inverts encoding, and never accepts anything else.
\<close>

theorem decode_iff_encode:
  "decode bs = Some f \<longleftrightarrow> frame_ok f \<and> take (length (encode f)) bs = encode f"
  unfolding decode_Some_iff by (metis append_eq_conv_conj append_take_drop_id)

text \<open>
  C24. A frame cut short anywhere is dropped: no proper prefix of a well-formed frame's bytes
  decodes to anything.
\<close>

theorem decode_truncated:
  assumes "frame_ok f" and "n < length (encode f)"
  shows "decode (take n (encode f)) = None"
proof (rule ccontr)
  assume "decode (take n (encode f)) \<noteq> None"
  then obtain g rest where g: "frame_ok g" "take n (encode f) = encode g @ rest"
    by (auto simp: decode_Some_iff)
  then have "decode (encode f) = Some g"
    by (metis append_assoc append_take_drop_id decode_Some_iff)
  with decode_encode [OF assms(1)] have "g = f" by simp
  with g(2) assms(2) show False
    by (metis append_eq_conv_conj length_take min.absorb4 not_less take_all_iff take_take
        length_append le_add1)
qed

definition sample_frame :: frame where
  "sample_frame = (empty_frame LeadGrant (GroupId [103]) None)
     \<lparr>fr_lead := Some (Grant 7 (NodeId [97]) (NodeId [98]))\<rparr>"

lemma sample_frame_ok: "frame_ok sample_frame"
  by (simp add: sample_frame_def empty_frame_def frame_ok_def body_ok_def codec_ok_defs str_ok_def
      len_ok_def)

theorem decode_truncated_witness:
  "frame_ok sample_frame \<and> 5 < length (encode sample_frame)
     \<and> decode (take 5 (encode sample_frame)) = None"
proof -
  have "5 < length (encode sample_frame)"
    by (simp add: sample_frame_def empty_frame_def encode_def put_body_def put_opt_node_def
        str_len_def)
  with sample_frame_ok decode_truncated show ?thesis by blast
qed

text \<open>
  C25. The demultiplexer agrees with the decoder: on every frame that decodes, \<open>peek_group\<close>
  reads the group the full decode finds.
\<close>

theorem peek_group_decode:
  assumes "decode bs = Some f"
  shows "peek_group bs = Some (fr_group f)"
proof -
  from assms obtain rest where "frame_ok f" "bs = encode f @ rest"
    by (auto simp: decode_Some_iff)
  then show ?thesis
    by (auto simp: peek_group_def encode_def frame_ok_def roundtrip_simps grp.get_put)
qed

theorem peek_group_decode_witness:
  "decode (encode sample_frame @ [0]) = Some sample_frame
     \<and> peek_group (encode sample_frame @ [0]) = Some (GroupId [103])"
proof -
  have dec: "decode (encode sample_frame @ [0]) = Some sample_frame"
    by (rule decode_encode_append [OF sample_frame_ok])
  with peek_group_decode [OF dec] show ?thesis
    by (simp add: sample_frame_def empty_frame_def)
qed

text \<open>
  C26. The byte accounting the engine packs deltas with is exact: an encoded delta frame is as
  long as its overhead plus, per member, its header and its entries.
\<close>

theorem delta_frame_size:
  "length (encode ((empty_frame Delta g None)\<lparr>fr_members := ms\<rparr>)) =
     delta_frame_overhead g
     + (\<Sum>m\<leftarrow>ms. member_header_len (md_node m) + (\<Sum>e\<leftarrow>md_entries m. entry_len e))"
  by (simp add: encode_def empty_frame_def put_body_def put_opt_node_def delta_frame_overhead_def)

end
