(* ===== verification/Placement.thy ===== *)
theory Placement
  imports Ids
begin

text \<open>
  Rendezvous placement (\<open>crates/groupnet-core/src/placement.rs\<close>): which nodes own a key. Every
  node ranks the members by an integer hash score; the top ones own the key. The lemmas show that
  the ranking is a strict total order, that the unweighted \<open>owner\<close> is the head of the ranking,
  and that a membership change moves only what the changed member wins.
\<close>


section \<open>Hashing\<close>

definition FNV_OFFSET :: u64 where
  "FNV_OFFSET = 0xcbf29ce484222325"

definition FNV_PRIME :: u64 where
  "FNV_PRIME = 0x00000100000001b3"

definition GOLDEN :: u64 where
  "GOLDEN = 0x9e3779b97f4a7c15"

definition fnv_step :: "u64 \<Rightarrow> u64 \<Rightarrow> u64" where
  "fnv_step h byte = (h XOR byte) * FNV_PRIME"

definition fnv1a :: "bytes list \<Rightarrow> u64" where
  "fnv1a parts =
     fold (\<lambda>part h. fnv_step (fold (\<lambda>byte h. fnv_step h (ucast byte)) part h) 0xff) parts FNV_OFFSET"

definition mix64 :: "u64 \<Rightarrow> u64" where
  "mix64 z0 =
     (let z1 = (z0 XOR drop_bit 30 z0) * 0xbf58476d1ce4e5b9;
          z2 = (z1 XOR drop_bit 27 z1) * 0x94d049bb133111eb
      in z2 XOR drop_bit 31 z2)"

definition base_hash :: "str \<Rightarrow> node_id \<Rightarrow> u64" where
  "base_hash key node = fnv1a [key, as_str node]"

definition token_score :: "str \<Rightarrow> node_id \<Rightarrow> u32 \<Rightarrow> u64" where
  "token_score key node token = mix64 (base_hash key node + ucast token * GOLDEN)"

definition node_score :: "str \<Rightarrow> node_id \<Rightarrow> u32 \<Rightarrow> u64" where
  "node_score key node weight =
     (let base = base_hash key node;
          scores = map (\<lambda>token. mix64 (base + of_nat token * GOLDEN)) [0..<unat weight]
      in if scores = [] then 0 else Max (set scores))"


section \<open>Ranking\<close>

definition owners :: "str \<Rightarrow> (node_id, u32) fmap \<Rightarrow> nat \<Rightarrow> node_id list" where
  "owners key members replicas =
     (let eligible = filter (\<lambda>(_, weight). weight > 0) (fentries members);
          ranked = sort_key (\<lambda>(score, node). (Reverse score, node))
            (map (\<lambda>(node, weight). (node_score key node weight, node)) eligible)
      in map snd (take replicas ranked))"

definition owner_score :: "str \<Rightarrow> node_id \<Rightarrow> u64" where
  "owner_score key node = token_score key node 0"

definition owner_among :: "str \<Rightarrow> node_id list \<Rightarrow> node_id option" where
  "owner_among key members = max_by_key (\<lambda>node. (owner_score key node, Reverse node)) members"

definition owner :: "str \<Rightarrow> node_id fset \<Rightarrow> node_id option" where
  "owner key members = owner_among key (fset_list members)"

text \<open>The rank key of a member: a better owner has the smaller key.\<close>

definition rank :: "str \<Rightarrow> (node_id, u32) fmap \<Rightarrow> node_id \<Rightarrow> u64 reverse \<times> node_id" where
  "rank key members node = (Reverse (node_score key node (the (fmlookup members node))), node)"

definition eligible :: "(node_id, u32) fmap \<Rightarrow> node_id set" where
  "eligible members = {n. \<exists>w. fmlookup members n = Some w \<and> w > 0}"

lemma inj_rank: "inj_on (rank key members) A"
  by (auto simp: inj_on_def rank_def)

lemma node_score_1: "node_score key node 1 = owner_score key node"
  by (simp add: node_score_def owner_score_def token_score_def)

lemma keys_list_fmdrop: "keys_list (fmdrop n m) = filter (\<lambda>k. k \<noteq> n) (keys_list m)"
  unfolding keys_list_def fset_list_def
  by (rule sorted_distinct_set_unique) (auto simp: sorted_wrt_filter)

text \<open>The whole ranking as one sorted list of the eligible members.\<close>

definition ranking :: "str \<Rightarrow> (node_id, u32) fmap \<Rightarrow> node_id list" where
  "ranking key members =
     sort_key (rank key members) (filter (\<lambda>n. n \<in> eligible members) (keys_list members))"

lemma map_sort_key: "map f (sort_key (g \<circ> f) xs) = sort_key g (map f xs)"
proof -
  have "map f (insort_key (g \<circ> f) x ys) = insort_key g (f x) (map f ys)" for x ys
    by (induction ys) auto
  then show ?thesis by (induction xs) auto
qed

lemma owners_eq_take_ranking: "owners key members r = take r (ranking key members)"
proof -
  let ?sc = "\<lambda>n. (node_score key n (the (fmlookup members n)), n)"
  let ?g = "\<lambda>(score, node). (Reverse score, node)"
  have el: "map (\<lambda>(node, weight). (node_score key node weight, node))
      (filter (\<lambda>(_, weight). weight > 0) (fentries members)) =
    map ?sc (filter (\<lambda>n. n \<in> eligible members) (keys_list members))"
  proof -
    have "filter (\<lambda>n. 0 < the (fmlookup members n)) (keys_list members) =
        filter (\<lambda>n. n \<in> eligible members) (keys_list members)"
      by (rule filter_cong) (auto simp: eligible_def fmlookup_dom_iff)
    then show ?thesis
      by (simp add: fentries_def filter_map comp_def)
  qed
  have "?g \<circ> ?sc = rank key members"
    by (auto simp: rank_def)
  then have "sort_key ?g (map ?sc xs) = map ?sc (sort_key (rank key members) xs)" for xs
    using map_sort_key [of ?sc ?g xs] by simp
  then show ?thesis
    by (simp add: owners_def el ranking_def take_map comp_def Let_def)
qed

lemma set_ranking [simp]: "set (ranking key members) = eligible members"
  by (auto simp: ranking_def eligible_def fmdomI)

lemma distinct_ranking [simp]: "distinct (ranking key members)"
  by (simp add: ranking_def)

lemma sorted_ranking: "sorted (map (rank key members) (ranking key members))"
  by (simp add: ranking_def)

lemma length_ranking: "length (ranking key members) = card (eligible members)"
  by (metis distinct_card distinct_ranking set_ranking)

text \<open>Two members keep their relative rank whatever else joins or leaves.\<close>

lemma ranking_fmdrop: "ranking key (fmdrop n m) = filter (\<lambda>x. x \<noteq> n) (ranking key m)"
proof (rule map_sorted_distinct_set_unique [of "rank key m"])
  show "inj_on (rank key m) (set (ranking key (fmdrop n m)) \<union> set (filter (\<lambda>x. x \<noteq> n) (ranking key m)))"
    by (rule inj_rank)
  have "map (rank key m) (ranking key (fmdrop n m)) =
      map (rank key (fmdrop n m)) (ranking key (fmdrop n m))"
    by (rule map_cong) (auto simp: rank_def eligible_def split: if_splits)
  then show "sorted (map (rank key m) (ranking key (fmdrop n m)))"
    using sorted_ranking [of key "fmdrop n m"] by (simp only:)
  show "sorted (map (rank key m) (filter (\<lambda>x. x \<noteq> n) (ranking key m)))"
    by (rule sorted_filter [OF sorted_ranking])
  show "set (ranking key (fmdrop n m)) = set (filter (\<lambda>x. x \<noteq> n) (ranking key m))"
    by (auto simp: eligible_def split: if_splits)
qed (auto simp: distinct_map inj_rank)

lemma take_filter_neq:
  assumes "distinct xs"
  shows "take r (filter (\<lambda>x. x \<noteq> n) xs) = take r (filter (\<lambda>x. x \<noteq> n) (take (Suc r) xs))"
  using assms
proof (induction xs arbitrary: r)
  case (Cons x xs)
  show ?case
  proof (cases "x = n")
    case True
    with Cons.prems have "filter (\<lambda>x. x \<noteq> n) xs = xs"
      and "filter (\<lambda>x. x \<noteq> n) (take r xs) = take r xs"
      by (auto simp: filter_id_conv dest: in_set_takeD)
    with True show ?thesis by simp
  next
    case False
    with Cons show ?thesis by (cases r) auto
  qed
qed simp

lemma owner_key_iff:
  "(owner_score key y, Reverse y) \<le> (owner_score key x, Reverse x) \<longleftrightarrow>
     (Reverse (owner_score key x), x) \<le> (Reverse (owner_score key y), y)"
  by (auto simp: less_eq_reverse_def less_reverse_def)

text \<open>
  C27. The replica set of a key: distinct eligible members, as many as asked for and available,
  best rank first, and no eligible member left out ranks above one that was chosen.
\<close>

theorem owners_top_ranked:
  "distinct (owners key members r)
   \<and> length (owners key members r) = min r (card (eligible members))
   \<and> set (owners key members r) \<subseteq> eligible members
   \<and> sorted (map (rank key members) (owners key members r))
   \<and> (\<forall>x y. x \<in> set (owners key members r) \<longrightarrow> y \<in> eligible members - set (owners key members r)
        \<longrightarrow> rank key members x < rank key members y)"
proof (intro conjI allI impI)
  let ?R = "ranking key members"
  show "set (owners key members r) \<subseteq> eligible members"
    using set_take_subset [of r ?R] by (simp add: owners_eq_take_ranking)
  show "sorted (map (rank key members) (owners key members r))"
    by (metis owners_eq_take_ranking sorted_ranking sorted_wrt_take take_map)
  fix x y
  assume x: "x \<in> set (owners key members r)"
    and y: "y \<in> eligible members - set (owners key members r)"
  have "set ?R = set (take r ?R) \<union> set (drop r ?R)"
    by (metis append_take_drop_id set_append)
  with y have "y \<in> set (drop r ?R)"
    by (auto simp: owners_eq_take_ranking)
  moreover have "sorted (map (rank key members) (take r ?R) @ map (rank key members) (drop r ?R))"
    by (metis append_take_drop_id map_append sorted_ranking)
  ultimately have "rank key members x \<le> rank key members y"
    using x by (auto simp: owners_eq_take_ranking sorted_append)
  moreover have "x \<noteq> y" using x y by auto
  ultimately show "rank key members x < rank key members y"
    by (auto simp: rank_def)
qed (simp_all add: owners_eq_take_ranking length_ranking)

definition sample_weights :: "(node_id, u32) fmap" where
  "sample_weights = fmap_of_list [(NodeId [97], 1), (NodeId [98], 1)]"

lemma eligible_sample: "eligible sample_weights = {NodeId [97], NodeId [98]}"
  by (auto simp: eligible_def sample_weights_def fmlookup_of_list)

theorem owners_top_ranked_witness:
  "\<exists>x y. {x, y} = {NodeId [97], NodeId [98]} \<and> x \<noteq> y \<and> owners [107] sample_weights 1 = [x]
     \<and> rank [107] sample_weights x < rank [107] sample_weights y"
proof -
  define a b os where "a = NodeId [97]" and "b = NodeId [98]" and "os = owners [107] sample_weights 1"
  have ab: "a \<noteq> b" by (simp add: a_def b_def)
  have top: "length os = min 1 (card {a, b})" "set os \<subseteq> {a, b}"
    "\<And>x y. x \<in> set os \<Longrightarrow> y \<in> {a, b} - set os \<Longrightarrow> rank [107] sample_weights x < rank [107] sample_weights y"
    using owners_top_ranked [of "[107]" sample_weights 1,
        unfolded eligible_sample, folded os_def a_def b_def]
    by blast+
  from top(1) ab have "length os = 1" by simp
  then obtain x where x: "os = [x]" by (metis length_0_conv length_Suc_conv One_nat_def)
  with top(2) have "x = a \<or> x = b" by simp
  then have "\<exists>y. {x, y} = {a, b} \<and> x \<noteq> y"
    using ab by (metis insert_commute)
  then obtain y where y: "{x, y} = {a, b}" "x \<noteq> y" by blast
  have "rank [107] sample_weights x < rank [107] sample_weights y"
    by (rule top(3)) (use x y in \<open>simp_all, blast\<close>)
  with x y show ?thesis unfolding os_def a_def b_def by blast
qed

text \<open>
  C28. Minimal disruption: taking a member away leaves the ranking of the others as it was, so
  the new replica set is the old one, one longer, without the member that left.
\<close>

theorem owners_remove:
  "owners key (fmdrop n members) r = take r (filter (\<lambda>x. x \<noteq> n) (owners key members (Suc r)))"
  unfolding owners_eq_take_ranking ranking_fmdrop by (rule take_filter_neq [OF distinct_ranking])

text \<open>
  C29. The allocation-free single owner is the head of the weighted ranking with every weight 1,
  as its documentation says.
\<close>

theorem owner_eq_owners_unit_weight:
  assumes "fmdom members = S" and "\<forall>n. n |\<in>| S \<longrightarrow> fmlookup members n = Some 1"
  shows "owners key members 1 = (case owner key S of None \<Rightarrow> [] | Some n \<Rightarrow> [n])"
proof (cases "owner key S")
  case None
  then have "S = {||}"
    by (simp add: owner_def owner_among_def)
  with assms(1) have "eligible members = {}"
    by (auto simp: eligible_def dest: fmdomI)
  with None show ?thesis
    by (metis owners_eq_take_ranking option.simps(4) set_empty set_ranking take_Nil)
next
  case (Some x)
  let ?R = "ranking key members"
  from Some have x: "x |\<in>| S"
    and best: "\<And>y. y |\<in>| S \<Longrightarrow> (owner_score key y, Reverse y) \<le> (owner_score key x, Reverse x)"
    using max_by_key_SomeD [OF Some [unfolded owner_def owner_among_def], unfolded set_fset_list]
    by blast+
  have el: "eligible members = fset S"
    using assms by (auto simp: eligible_def dest: fmdomI)
  have rk: "rank key members y = (Reverse (owner_score key y), y)" if "y |\<in>| S" for y
    using assms(2) that by (simp add: rank_def node_score_1)
  obtain z zs where R: "?R = z # zs"
    using x el set_ranking [of key members] by (cases ?R) auto
  then have zS: "z |\<in>| S" using el set_ranking [of key members] by auto
  have "rank key members z \<le> rank key members x"
    using sorted_ranking [of key members] R x el set_ranking [of key members] by auto
  moreover have "rank key members x \<le> rank key members z"
    using best [OF zS] rk [OF zS] rk [OF x] owner_key_iff by metis
  ultimately have "z = x" by (auto simp: rank_def)
  with R Some show ?thesis by (simp add: owners_eq_take_ranking)
qed

theorem owner_eq_owners_unit_weight_witness:
  "owners [107] sample_weights 1 =
     (case owner [107] {|NodeId [97], NodeId [98]|} of None \<Rightarrow> [] | Some n \<Rightarrow> [n])"
  by (rule owner_eq_owners_unit_weight) (auto simp: sample_weights_def fmlookup_of_list)

end
