(* ===== verification/Spread.thy ===== *)
theory Spread
  imports Placement
begin

text \<open>
  Deterministic load spreading (\<open>crates/groupnet-core/src/engine/spread.rs\<close>): per-engine and
  per-pair hashes, hash-to-index reduction, and a splitmix64 stream. A \<open>usize\<close> is 64 bits wide,
  so a cursor's start is the whole hash.
\<close>

definition engine_seed :: "group_id \<Rightarrow> node_id \<Rightarrow> u64" where
  "engine_seed g local = mix64 (fnv1a [group_str g, as_str local])"

definition pair_hash :: "node_id \<Rightarrow> node_id \<Rightarrow> u64" where
  "pair_hash local peer = mix64 (fnv1a [as_str local, as_str peer])"

definition spread_index :: "u64 \<Rightarrow> nat \<Rightarrow> nat" where
  "spread_index hash len = unat hash mod len"

definition spread_cursor :: "u64 \<Rightarrow> u64" where
  "spread_cursor hash = drop_bit (64 - 64) hash"

datatype split_mix = SplitMix u64

fun draw :: "split_mix \<Rightarrow> u64 \<times> split_mix" where
  "draw (SplitMix s) = (let s' = s + GOLDEN in (mix64 s', SplitMix s'))"

definition below :: "nat \<Rightarrow> split_mix \<Rightarrow> nat \<times> split_mix" where
  "below len rng = (let (bits, rng') = draw rng in (spread_index bits len, rng'))"

lemma spread_index_less: "0 < len \<Longrightarrow> spread_index h len < len"
  by (simp add: spread_index_def)

lemma below_less: "0 < len \<Longrightarrow> fst (below len rng) < len"
  by (simp add: below_def case_prod_beta Let_def spread_index_less)

end
