(* ===== verification/Group_Config.thy ===== *)
theory Group_Config
  imports Ids
begin

text \<open>
  Per-group tunables (\<open>crates/groupnet-core/src/config.rs\<close>, \<open>config/error.rs\<close>): the consistency
  mode, how a hosted group closes an epoch, the static voter roster, and the timers. Counts the
  source types as \<open>NonZeroUsize\<close> are naturals with \<open>config_typed\<close> recording that none is zero.
\<close>


section \<open>Modes and activation\<close>

text \<open>\<open>VoterRoster\<close> wraps a slice kept sorted and without duplicates.\<close>

datatype voter_roster = VoterRoster (voters: "node_id list")

datatype activation =
    Settle u64
  | Quorum voter_roster
  | External u64

record hosted_config =
  hc_activation :: activation
  hc_lease_ms :: u64

datatype group_mode = Eventual | Hosted hosted_config

definition DEFAULT_CLAIM_SETTLE_MS :: u64 where
  "DEFAULT_CLAIM_SETTLE_MS = 600"

definition DEFAULT_LEASE_MS :: u64 where
  "DEFAULT_LEASE_MS = 1000"

definition hosted_config_default :: hosted_config where
  "hosted_config_default =
     \<lparr>hc_activation = Settle DEFAULT_CLAIM_SETTLE_MS, hc_lease_ms = DEFAULT_LEASE_MS\<rparr>"

definition roster_new :: "node_id list \<Rightarrow> voter_roster" where
  "roster_new vs = VoterRoster (remdups_adj (sort vs))"

definition roster_len :: "voter_roster \<Rightarrow> nat" where
  "roster_len r = length (voters r)"

definition roster_is_empty :: "voter_roster \<Rightarrow> bool" where
  "roster_is_empty r \<longleftrightarrow> voters r = []"

definition roster_contains :: "voter_roster \<Rightarrow> node_id \<Rightarrow> bool" where
  "roster_contains r n \<longleftrightarrow> n \<in> set (voters r)"

definition majority :: "voter_roster \<Rightarrow> nat" where
  "majority r = length (voters r) div 2 + 1"


section \<open>Timers\<close>

record config =
  gossip_interval_ms :: u64
  probe_interval_ms :: u64
  probe_timeout_ms :: u64
  suspect_timeout_ms :: u64
  dead_timeout_ms :: u64
  indirect_probes :: nat
  gossip_fanout :: nat
  eager_push_on :: bool
  max_delta_frame_bytes :: nat
  full_digest_every :: u64
  digest_window :: nat
  mode :: group_mode

definition config_typed :: "config \<Rightarrow> bool" where
  "config_typed c \<longleftrightarrow> 0 < indirect_probes c \<and> 0 < gossip_fanout c \<and> 0 < max_delta_frame_bytes c
     \<and> 0 < full_digest_every c \<and> 0 < digest_window c"

datatype config_error =
    ZeroGossipInterval
  | ZeroProbeInterval
  | ZeroProbeTimeout
  | ZeroSuspectTimeout
  | ZeroDeadTimeout
  | DigestWindowTooSmall nat

definition validate :: "config \<Rightarrow> config_error + unit" where
  "validate c =
     (if gossip_interval_ms c = 0 then Inl ZeroGossipInterval
      else if probe_interval_ms c = 0 then Inl ZeroProbeInterval
      else if probe_timeout_ms c = 0 then Inl ZeroProbeTimeout
      else if suspect_timeout_ms c = 0 then Inl ZeroSuspectTimeout
      else if dead_timeout_ms c = 0 then Inl ZeroDeadTimeout
      else if digest_window c < 2 then Inl (DigestWindowTooSmall (digest_window c))
      else Inr ())"

definition detection_window_ms :: "config \<Rightarrow> u64 \<Rightarrow> u64" where
  "detection_window_ms c members =
     (let peers = sat_sub members 1;
          step = sat_add (probe_interval_ms c) (sat_mul (probe_timeout_ms c) 3)
      in sat_add (sat_mul peers step) (suspect_timeout_ms c))"

definition config_default :: config where
  "config_default =
     \<lparr>gossip_interval_ms = 200, probe_interval_ms = 100, probe_timeout_ms = 50,
      suspect_timeout_ms = 500, dead_timeout_ms = 10000, indirect_probes = 2, gossip_fanout = 2,
      eager_push_on = True, max_delta_frame_bytes = 60000, full_digest_every = 4,
      digest_window = 64, mode = Eventual\<rparr>"


section \<open>Rosters and majorities\<close>

definition roster_wf :: "voter_roster \<Rightarrow> bool" where
  "roster_wf r \<longleftrightarrow> sorted_wrt (<) (voters r)"

lemma roster_wf_distinct: "roster_wf r \<Longrightarrow> distinct (voters r)"
  by (simp add: roster_wf_def strict_sorted_iff)

lemma set_roster_new [simp]: "set (voters (roster_new vs)) = set vs"
  by (simp add: roster_new_def)

lemma distinct_remdups_adj_sorted: "sorted xs \<Longrightarrow> distinct (remdups_adj xs)"
  by (induction xs rule: remdups_adj.induct) force+

lemma roster_new_wf [simp]: "roster_wf (roster_new vs)"
proof -
  have "sorted (remdups_adj (sort vs))"
    by (simp add: sorted_remdups_adj)
  moreover have "distinct (remdups_adj (sort vs))"
    by (simp add: distinct_remdups_adj_sorted)
  ultimately show ?thesis
    by (simp add: roster_wf_def roster_new_def strict_sorted_iff)
qed

text \<open>Two sets of grants that both reach the majority share a voter.\<close>

lemma majorities_share_voter:
  assumes "A \<subseteq> set (voters r)" "B \<subseteq> set (voters r)"
    and "majority r \<le> card A" "majority r \<le> card B"
  shows "A \<inter> B \<noteq> {}"
proof
  assume disj: "A \<inter> B = {}"
  have fin: "finite A" "finite B"
    using assms(1,2) by (auto intro: finite_subset)
  have "card A + card B = card (A \<union> B)"
    using card_Un_disjoint [OF fin disj] by simp
  also have "\<dots> \<le> card (set (voters r))"
    using assms(1,2) by (intro card_mono) auto
  also have "\<dots> \<le> length (voters r)"
    by (rule card_length)
  finally show False
    using assms(3,4) by (simp add: majority_def)
qed

text \<open>
  C30. A roster is canonical: the same nodes, listed in any order and any number of times, build
  the same roster, and its voters are exactly those nodes, each once.
\<close>

theorem roster_canonical:
  "(roster_new xs = roster_new ys \<longleftrightarrow> set xs = set ys)
   \<and> set (voters (roster_new xs)) = set xs
   \<and> roster_len (roster_new xs) = card (set xs)"
proof -
  have "roster_new xs = roster_new ys" if "set xs = set ys"
    using sorted_distinct_set_unique [of "voters (roster_new xs)" "voters (roster_new ys)"]
      roster_new_wf [of xs] roster_new_wf [of ys] that
    by (metis roster_wf_def set_roster_new strict_sorted_iff voter_roster.expand)
  moreover have "set xs = set ys" if "roster_new xs = roster_new ys"
    using that by (metis set_roster_new)
  ultimately show ?thesis
    by (metis distinct_card roster_len_def roster_new_wf roster_wf_distinct set_roster_new)
qed

text \<open>
  C31. The default hosted settings are split-brain bounded for every group of two or more: the
  lease ends before the default detector's window plus the settle window can elect a successor.
\<close>

theorem default_lease_bounded:
  assumes "2 \<le> members"
  shows "unat (hc_lease_ms hosted_config_default) <
    unat (detection_window_ms config_default members) + unat DEFAULT_CLAIM_SETTLE_MS"
proof -
  have "1 \<le> sat_sub members 1"
    using assms by (simp add: word_le_nat_alt unat_sat_sub)
  then have "250 \<le> sat_mul (sat_sub members 1) 250"
    by (simp add: word_le_nat_alt unat_sat_mul)
  then show ?thesis
    by (simp add: detection_window_ms_def config_default_def hosted_config_default_def
        DEFAULT_LEASE_MS_def DEFAULT_CLAIM_SETTLE_MS_def Let_def unat_sat_add unat_sat_mul
        word_le_nat_alt)
qed

theorem default_lease_bounded_witness:
  "unat (hc_lease_ms hosted_config_default) <
    unat (detection_window_ms config_default 2) + unat DEFAULT_CLAIM_SETTLE_MS"
  by (rule default_lease_bounded) simp

end
