(* ===== verification/Membership.thy ===== *)
theory Membership
  imports Ids
begin

text \<open>
  The membership model (\<open>crates/groupnet-core/src/membership.rs\<close>): a member's liveness status and
  its precedence rule, its keyed state entries, the per-entry deadlines, and where the engine's
  index has the member filed. The change stamp is a natural: it counts local changes and is only
  ever incremented by one.
\<close>


section \<open>Status\<close>

datatype status = Alive | Suspect | Dead

fun status_to_wire :: "status \<Rightarrow> u8" where
  "status_to_wire Alive = 0"
| "status_to_wire Suspect = 1"
| "status_to_wire Dead = 2"

definition status_from_wire :: "u8 \<Rightarrow> status option" where
  "status_from_wire code =
     (if code = 0 then Some Alive
      else if code = 1 then Some Suspect
      else if code = 2 then Some Dead
      else None)"


section \<open>Entries\<close>

record state_entry =
  se_version :: u64
  se_value :: bytes
  se_ttl_ms :: u64
  se_expires_at :: time
  se_tombstone :: bool
  se_tombstone_since :: time

definition entry_adopted :: "u64 \<Rightarrow> bytes \<Rightarrow> u64 \<Rightarrow> bool \<Rightarrow> time \<Rightarrow> state_entry" where
  "entry_adopted version value ttl_ms tombstone now =
     \<lparr>se_version = version, se_value = value, se_ttl_ms = ttl_ms,
      se_expires_at = (if ttl_ms = 0 then time_max else time_saturating_add now ttl_ms),
      se_tombstone = tombstone,
      se_tombstone_since = (if tombstone then now else time_zero)\<rparr>"

definition expired :: "state_entry \<Rightarrow> time \<Rightarrow> bool" where
  "expired e now \<longleftrightarrow> \<not> se_tombstone e \<and> now \<ge> se_expires_at e"

definition reap_due :: "state_entry \<Rightarrow> u64 \<Rightarrow> time" where
  "reap_due e reap_after =
     (if se_tombstone e then time_saturating_add (se_tombstone_since e) reap_after
      else se_expires_at e)"


section \<open>Members\<close>

record filed =
  fd_due :: time
  fd_score :: "u64 option"
  fd_liveness :: time

definition filed_none :: filed where
  "filed_none = \<lparr>fd_due = time_max, fd_score = None, fd_liveness = time_zero\<rparr>"

record member =
  m_incarnation :: u64
  m_status :: status
  m_status_since :: time
  m_suspect_since :: time
  m_suspect_due :: time
  m_accuse_at :: time
  m_suspected_here :: bool
  m_dead_since :: time
  m_liveness_since :: time
  m_entries :: "(str, state_entry) fmap"
  m_entry_dues :: "(time, str fset) fmap"
  m_max_state_version :: u64
  m_changed_at :: nat
  m_hash_cache :: "(u64 \<times> time) option"
  m_filed :: filed

definition member_new :: "u64 \<Rightarrow> status \<Rightarrow> time \<Rightarrow> member" where
  "member_new incarnation status now =
     \<lparr>m_incarnation = incarnation, m_status = status, m_status_since = now,
      m_suspect_since = time_zero, m_suspect_due = time_max, m_accuse_at = time_max,
      m_suspected_here = False, m_dead_since = time_zero, m_liveness_since = now,
      m_entries = fmempty, m_entry_dues = fmempty, m_max_state_version = 0, m_changed_at = 0,
      m_hash_cache = None, m_filed = filed_none\<rparr>"

definition adopt_status :: "status \<Rightarrow> time \<Rightarrow> member \<Rightarrow> member" where
  "adopt_status status now m0 =
     (let m1 = m0\<lparr>m_liveness_since := now\<rparr>;
          m2 = (if status \<noteq> Suspect
                then m1\<lparr>m_accuse_at := time_max, m_suspected_here := False\<rparr> else m1)
      in if m_status m2 \<noteq> status then m2\<lparr>m_status := status, m_status_since := now\<rparr> else m2)"

definition suspect_here :: "time \<Rightarrow> u64 \<Rightarrow> u64 \<Rightarrow> member \<Rightarrow> member" where
  "suspect_here now window every m =
     m\<lparr>m_suspect_since := now, m_suspect_due := time_saturating_add now window,
       m_accuse_at := time_saturating_add now every, m_suspected_here := True\<rparr>"

definition hear_suspicion :: "time \<Rightarrow> u64 \<Rightarrow> u64 \<Rightarrow> member \<Rightarrow> member" where
  "hear_suspicion now heard own m0 =
     (let m = m0\<lparr>m_suspect_since := now\<rparr>
      in if m_suspected_here m then m\<lparr>m_suspect_due := time_saturating_add now own\<rparr>
         else m\<lparr>m_suspect_due := time_saturating_add now heard,
                m_accuse_at := time_saturating_add now own\<rparr>)"

definition observe_version :: "u64 \<Rightarrow> member \<Rightarrow> member" where
  "observe_version version m = m\<lparr>m_max_state_version := max (m_max_state_version m) version\<rparr>"

definition entries_changed :: "member \<Rightarrow> member" where
  "entries_changed m = m\<lparr>m_hash_cache := None\<rparr>"

text \<open>
  \<open>unlist_due\<close> returns the stored key only to reuse its allocation, so the model keeps the
  new map alone.
\<close>

definition unlist_due :: "time \<Rightarrow> str \<Rightarrow> (time, str fset) fmap \<Rightarrow> (time, str fset) fmap" where
  "unlist_due at key dues =
     (case fmlookup dues at of
        None \<Rightarrow> dues
      | Some keys \<Rightarrow>
          let keys' = keys |-| {|key|}
          in if keys' = {||} then fmdrop at dues else fmupd at keys' dues)"

definition list_due :: "time \<Rightarrow> str \<Rightarrow> (time, str fset) fmap \<Rightarrow> (time, str fset) fmap" where
  "list_due due key dues =
     fmupd due (finsert key (case fmlookup dues due of None \<Rightarrow> {||} | Some ks \<Rightarrow> ks)) dues"

definition put_entry_due :: "str \<Rightarrow> state_entry \<Rightarrow> u64 \<Rightarrow> member \<Rightarrow> member" where
  "put_entry_due key entry reap_after m =
     (let due = reap_due entry reap_after;
          old = map_option (\<lambda>e. reap_due e reap_after) (fmlookup (m_entries m) key);
          dues = m_entry_dues m;
          dues = (if old \<noteq> Some due
                  then let dues = (case old of None \<Rightarrow> dues | Some at \<Rightarrow> unlist_due at key dues)
                       in if due \<noteq> time_max then list_due due key dues else dues
                  else dues)
      in entries_changed (m\<lparr>m_entry_dues := dues, m_entries := fmupd key entry (m_entries m)\<rparr>))"

text \<open>The keys of every deadline at or before \<open>now\<close>, sorted, and the map without them.\<close>

definition due_keys :: "time \<Rightarrow> (time, str fset) fmap \<Rightarrow> str list" where
  "due_keys now dues = sort (concat (map (\<lambda>at. fset_list (the (fmlookup dues at)))
     (filter (\<lambda>at. at \<le> now) (keys_list dues))))"

fun remove_keys ::
  "str list \<Rightarrow> (str, state_entry) fmap \<Rightarrow> (str \<times> state_entry) list \<times> (str, state_entry) fmap" where
  "remove_keys [] entries = ([], entries)"
| "remove_keys (key # keys) entries =
     (case fmlookup entries key of
        None \<Rightarrow> remove_keys keys entries
      | Some e \<Rightarrow>
          let (due, entries') = remove_keys keys (fmdrop key entries)
          in ((key, e) # due, entries'))"

definition take_due_entries :: "time \<Rightarrow> member \<Rightarrow> (str \<times> state_entry) list \<times> member" where
  "take_due_entries now m =
     (let keys = due_keys now (m_entry_dues m);
          (due, entries) = remove_keys keys (m_entries m);
          m = m\<lparr>m_entry_dues := fmfilter (\<lambda>at. \<not> at \<le> now) (m_entry_dues m), m_entries := entries\<rparr>
      in (due, if due \<noteq> [] then entries_changed m else m))"

definition next_entry_due :: "member \<Rightarrow> time" where
  "next_entry_due m = (case keys_list (m_entry_dues m) of [] \<Rightarrow> time_max | at # _ \<Rightarrow> at)"

fun superseded_by :: "member \<Rightarrow> u64 \<Rightarrow> status \<Rightarrow> bool" where
  "superseded_by m incarnation Alive = (incarnation > m_incarnation m)"
| "superseded_by m incarnation Suspect =
     (case m_status m of
        Alive \<Rightarrow> incarnation \<ge> m_incarnation m
      | Suspect \<Rightarrow> incarnation > m_incarnation m
      | Dead \<Rightarrow> False)"
| "superseded_by m incarnation Dead = (m_status m \<noteq> Dead \<and> incarnation \<ge> m_incarnation m)"


section \<open>Precedence\<close>

lemma status_wire_iff [codec_simps]: "status_from_wire b = Some s \<longleftrightarrow> b = status_to_wire s"
  by (cases s) (auto simp: status_from_wire_def)

fun status_rank :: "status \<Rightarrow> nat" where
  "status_rank Alive = 0"
| "status_rank Suspect = 1"
| "status_rank Dead = 2"

definition liveness_rank :: "member \<Rightarrow> u64 \<times> nat" where
  "liveness_rank m = (m_incarnation m, status_rank (m_status m))"

lemma superseded_by_rank:
  "superseded_by m i s \<Longrightarrow> liveness_rank m < (i, status_rank s)"
  by (cases s; cases "m_status m") (auto simp: liveness_rank_def order.order_iff_strict)

lemma adopt_status_simps [simp]:
  "m_status (adopt_status s now m) = s"
  "m_incarnation (adopt_status s now m) = m_incarnation m"
  "m_entries (adopt_status s now m) = m_entries m"
  "m_entry_dues (adopt_status s now m) = m_entry_dues m"
  "m_max_state_version (adopt_status s now m) = m_max_state_version m"
  "m_liveness_since (adopt_status s now m) = now"
  "m_suspect_due (adopt_status s now m) = m_suspect_due m"
  "m_dead_since (adopt_status s now m) = m_dead_since m"
  "m_changed_at (adopt_status s now m) = m_changed_at m"
  "m_filed (adopt_status s now m) = m_filed m"
  "m_hash_cache (adopt_status s now m) = m_hash_cache m"
  by (auto simp: adopt_status_def Let_def)


section \<open>Entry deadlines\<close>

text \<open>
  The deadline listing is exact: a key stands under a time exactly when its entry's next
  deadline is that time, the time is a real one, and no time lists nobody.
\<close>

definition dues_ok :: "u64 \<Rightarrow> member \<Rightarrow> bool" where
  "dues_ok reap_after m \<longleftrightarrow>
     (\<forall>at. fmlookup (m_entry_dues m) at \<noteq> Some {||})
     \<and> (\<forall>at key. (\<exists>ks. fmlookup (m_entry_dues m) at = Some ks \<and> key |\<in>| ks) \<longleftrightarrow>
          at \<noteq> time_max \<and> (\<exists>e. fmlookup (m_entries m) key = Some e \<and> reap_due e reap_after = at))"

definition due_listed :: "(time, str fset) fmap \<Rightarrow> time \<Rightarrow> str \<Rightarrow> bool" where
  "due_listed dues at key \<longleftrightarrow> (\<exists>ks. fmlookup dues at = Some ks \<and> key |\<in>| ks)"

definition no_empty :: "(time, str fset) fmap \<Rightarrow> bool" where
  "no_empty dues \<longleftrightarrow> (\<forall>at. fmlookup dues at \<noteq> Some {||})"

lemma dues_ok_alt:
  "dues_ok reap_after m \<longleftrightarrow> no_empty (m_entry_dues m) \<and>
     (\<forall>at key. due_listed (m_entry_dues m) at key \<longleftrightarrow>
        at \<noteq> time_max \<and> (\<exists>e. fmlookup (m_entries m) key = Some e \<and> reap_due e reap_after = at))"
  by (simp add: dues_ok_def no_empty_def due_listed_def)

lemma due_listed_unlist:
  "due_listed (unlist_due at key dues) at' key' \<longleftrightarrow> due_listed dues at' key' \<and> \<not> (at' = at \<and> key' = key)"
  by (auto simp: due_listed_def unlist_due_def Let_def split: option.splits)

lemma no_empty_unlist_due: "no_empty dues \<Longrightarrow> no_empty (unlist_due at key dues)"
  by (auto simp: no_empty_def unlist_due_def Let_def split: option.splits)

lemma due_listed_list:
  "due_listed (list_due due key dues) at' key' \<longleftrightarrow> due_listed dues at' key' \<or> at' = due \<and> key' = key"
  by (auto simp: due_listed_def list_due_def split: option.splits)

lemma no_empty_list_due: "no_empty dues \<Longrightarrow> no_empty (list_due due key dues)"
  by (auto simp: no_empty_def list_due_def)

lemma put_entry_due_simps [simp]:
  "m_entries (put_entry_due key e r m) = fmupd key e (m_entries m)"
  "m_incarnation (put_entry_due key e r m) = m_incarnation m"
  "m_status (put_entry_due key e r m) = m_status m"
  "m_max_state_version (put_entry_due key e r m) = m_max_state_version m"
  "m_hash_cache (put_entry_due key e r m) = None"
  "m_filed (put_entry_due key e r m) = m_filed m"
  by (auto simp: put_entry_due_def entries_changed_def Let_def)

lemma dues_ok_member_new [simp]: "dues_ok r (member_new i s now)"
  by (simp add: dues_ok_def member_new_def)

lemma dues_ok_put_entry:
  assumes "dues_ok r m"
  shows "dues_ok r (put_entry_due key e r m)"
proof -
  let ?old = "map_option (\<lambda>e. reap_due e r) (fmlookup (m_entries m) key)"
  let ?due = "reap_due e r"
  have dues: "m_entry_dues (put_entry_due key e r m) =
      (if ?old \<noteq> Some ?due
       then let dues = (case ?old of None \<Rightarrow> m_entry_dues m | Some at \<Rightarrow> unlist_due at key (m_entry_dues m))
            in if ?due \<noteq> time_max then list_due ?due key dues else dues
       else m_entry_dues m)"
    by (simp add: put_entry_due_def entries_changed_def Let_def)
  from assms show ?thesis
    unfolding dues_ok_alt dues put_entry_due_simps
    by (cases "fmlookup (m_entries m) key")
      (auto simp: Let_def due_listed_unlist due_listed_list no_empty_unlist_due no_empty_list_due)
qed

lemma snd_remove_keys: "snd (remove_keys keys es) = fmdrop_set (set keys) es"
proof (induction keys arbitrary: es)
  case (Cons k ks)
  show ?case
  proof (cases "fmlookup es k")
    case None
    then have "fmdrop_set (set ks) es = fmdrop_set (insert k (set ks)) es"
      by (intro fmap_ext) auto
    with None Cons show ?thesis by simp
  next
    case (Some e)
    have "fmdrop_set (set ks) (fmdrop k es) = fmdrop_set (insert k (set ks)) es"
      by (rule fmap_ext) simp
    with Some Cons [of "fmdrop k es"] show ?thesis by (simp add: case_prod_beta)
  qed
qed (simp add: fmap_ext)

lemma fst_remove_keys:
  "distinct keys \<Longrightarrow>
     fst (remove_keys keys es) =
       map (\<lambda>k. (k, the (fmlookup es k))) (filter (\<lambda>k. fmlookup es k \<noteq> None) keys)"
proof (induction keys arbitrary: es)
  case (Cons key ks)
  have "map (\<lambda>k. (k, the (fmlookup (fmdrop key es) k))) (filter (\<lambda>k. fmlookup (fmdrop key es) k \<noteq> None) ks) =
      map (\<lambda>k. (k, the (fmlookup es k))) (filter (\<lambda>k. fmlookup es k \<noteq> None) ks)"
    using Cons.prems by (intro map_cong filter_cong) auto
  with Cons.prems Cons.IH [of es] Cons.IH [of "fmdrop key es"] show ?case
    by (simp add: case_prod_beta split: option.split)
qed simp

lemma set_due_keys: "set (due_keys now dues) = {k. \<exists>at \<le> now. due_listed dues at k}"
  by (force simp: due_keys_def due_listed_def fmlookup_dom_iff fmdomI)

definition entry_due :: "u64 \<Rightarrow> time \<Rightarrow> state_entry \<Rightarrow> bool" where
  "entry_due r now e \<longleftrightarrow> reap_due e r \<noteq> time_max \<and> reap_due e r \<le> now"

lemma set_due_keys_ok:
  "dues_ok r m \<Longrightarrow> set (due_keys now (m_entry_dues m)) =
     {k. \<exists>e. fmlookup (m_entries m) k = Some e \<and> entry_due r now e}"
  unfolding set_due_keys dues_ok_alt entry_due_def by auto

lemma distinct_due_keys:
  assumes "dues_ok r m"
  shows "distinct (due_keys now (m_entry_dues m))"
proof -
  let ?d = "m_entry_dues m"
  have one: "at = at'" if "due_listed ?d at k" "due_listed ?d at' k" for at at' k
    using assms that by (auto simp: dues_ok_alt)
  have "distinct (concat (map (\<lambda>at. fset_list (the (fmlookup ?d at))) ats))"
    if "distinct ats" "set ats \<subseteq> fset (fmdom ?d)" for ats
    using that
  proof (induction ats)
    case (Cons a ats)
    moreover have "False" if "k |\<in>| the (fmlookup ?d a)" "b \<in> set ats" "k |\<in>| the (fmlookup ?d b)" for k b
    proof -
      have "a |\<in>| fmdom ?d" "b |\<in>| fmdom ?d" using that Cons.prems by auto
      then have "due_listed ?d a k" "due_listed ?d b k"
        using that by (auto simp: due_listed_def fmlookup_dom_iff)
      with one have "a = b" by blast
      with Cons.prems that show False by simp
    qed
    ultimately show ?case by auto
  qed simp
  from this [of "filter (\<lambda>at. at \<le> now) (keys_list ?d)"] show ?thesis
    by (auto simp: due_keys_def)
qed

lemma sorted_due_keys [simp]: "sorted (due_keys now dues)"
  by (simp add: due_keys_def)

lemma take_due_parts:
  assumes ok: "dues_ok r m" and eq: "take_due_entries now m = (due, m')"
  shows "due = filter (\<lambda>(_, e). entry_due r now e) (fentries (m_entries m))"
    and "m_entries m' = fmfilter (\<lambda>k. \<not> entry_due r now (the (fmlookup (m_entries m) k))) (m_entries m)"
    and "m_entry_dues m' = fmfilter (\<lambda>at. \<not> at \<le> now) (m_entry_dues m)"
    and "m_max_state_version m' = m_max_state_version m"
proof -
  let ?es = "m_entries m" and ?keys = "due_keys now (m_entry_dues m)"
  have keys: "set ?keys = {k. \<exists>e. fmlookup ?es k = Some e \<and> entry_due r now e}"
    by (rule set_due_keys_ok [OF ok])
  have split: "due = fst (remove_keys ?keys ?es)" "m_entries m' = snd (remove_keys ?keys ?es)"
    using eq by (auto simp: take_due_entries_def entries_changed_def case_prod_beta Let_def)
  show "m_entry_dues m' = fmfilter (\<lambda>at. \<not> at \<le> now) (m_entry_dues m)"
    "m_max_state_version m' = m_max_state_version m"
    using eq by (auto simp: take_due_entries_def entries_changed_def case_prod_beta Let_def)
  have kl: "?keys = filter (\<lambda>k. entry_due r now (the (fmlookup ?es k))) (keys_list ?es)"
    using distinct_due_keys [OF ok] keys
    by (intro sorted_distinct_set_unique) (auto simp: sorted_wrt_filter fmlookup_dom_iff)
  have "filter (\<lambda>k. fmlookup ?es k \<noteq> None) ?keys = ?keys"
    using keys by (auto simp: filter_id_conv)
  then have "due = map (\<lambda>k. (k, the (fmlookup ?es k))) ?keys"
    using split(1) fst_remove_keys [OF distinct_due_keys [OF ok], of now ?es] by simp
  then show "due = filter (\<lambda>(_, e). entry_due r now e) (fentries ?es)"
    unfolding kl by (simp add: fentries_def filter_map comp_def)
  have "fmdrop_set (set ?keys) ?es = fmfilter (\<lambda>k. \<not> entry_due r now (the (fmlookup ?es k))) ?es"
    (is "?l = ?r")
  proof (rule fmap_ext)
    fix k
    show "fmlookup ?l k = fmlookup ?r k" unfolding keys by (cases "fmlookup ?es k") auto
  qed
  then show "m_entries m' = fmfilter (\<lambda>k. \<not> entry_due r now (the (fmlookup ?es k))) ?es"
    using split(2) snd_remove_keys [of ?keys ?es] by simp
qed

lemma dues_ok_take_due:
  "dues_ok r m \<Longrightarrow> take_due_entries now m = (due, m') \<Longrightarrow> dues_ok r m'"
  using take_due_parts [of r m now due m'] by (auto simp: dues_ok_def entry_due_def)

text \<open>Where nothing is due, reaping changes nothing.\<close>

lemma take_due_idle:
  assumes ok: "dues_ok r m" and eq: "take_due_entries now m = ([], m')"
  shows "m_entries m' = m_entries m" "m_entry_dues m' = m_entry_dues m"
proof -
  note parts = take_due_parts [OF ok eq]
  have none: "\<not> entry_due r now e" if "fmlookup (m_entries m) k = Some e" for k e
    using parts(1) fmdomI [OF that] that
    by (auto simp: fentries_def filter_empty_conv dest!: sym [of "[]"] bspec [of _ _ k])
  show "m_entries m' = m_entries m"
    unfolding parts(2)
  proof (rule fmap_ext)
    fix k
    show "fmlookup (fmfilter (\<lambda>k. \<not> entry_due r now (the (fmlookup (m_entries m) k))) (m_entries m)) k
        = fmlookup (m_entries m) k"
      using none [of k] by (cases "fmlookup (m_entries m) k") auto
  qed
  have "\<not> at \<le> now" if at: "fmlookup (m_entry_dues m) at = Some ks" for at ks
  proof -
    from ok at obtain k where "k |\<in>| ks" by (cases "ks = {||}") (auto simp: dues_ok_def)
    with ok at obtain e where "at \<noteq> time_max" "fmlookup (m_entries m) k = Some e" "reap_due e r = at"
      unfolding dues_ok_def by blast
    with none [of k e] show ?thesis by (auto simp: entry_due_def)
  qed
  then show "m_entry_dues m' = m_entry_dues m"
    unfolding parts(3) by (intro fmap_ext) auto
qed

text \<open>
  C33. Reaping is exact: of a member whose deadline listing is exact, \<open>take_due_entries\<close> removes
  precisely the entries due by now, in key order, keeps every other entry, keeps the listing
  exact, and leaves the version high-water mark alone.
\<close>

theorem take_due_entries_exact:
  assumes ok: "dues_ok r m" and eq: "take_due_entries now m = (due, m')"
  shows "due = filter (\<lambda>(_, e). entry_due r now e) (fentries (m_entries m))
    \<and> m_entries m' = fmfilter (\<lambda>k. \<not> entry_due r now (the (fmlookup (m_entries m) k))) (m_entries m)
    \<and> dues_ok r m' \<and> m_max_state_version m' = m_max_state_version m"
  using take_due_parts [OF ok eq] dues_ok_take_due [OF ok eq] by simp

definition sample_entry :: state_entry where
  "sample_entry = entry_adopted 3 [1, 2] 50 False 100"

definition sample_member :: member where
  "sample_member = put_entry_due [107] sample_entry 20000 (member_new 0 Alive 0)"

theorem take_due_entries_exact_witness:
  "dues_ok 20000 sample_member
   \<and> fst (take_due_entries 150 sample_member) =
       filter (\<lambda>(_, e). entry_due 20000 150 e) (fentries (m_entries sample_member))
   \<and> dues_ok 20000 (snd (take_due_entries 150 sample_member))"
proof -
  have ok: "dues_ok 20000 sample_member"
    unfolding sample_member_def by (intro dues_ok_put_entry dues_ok_member_new)
  show ?thesis
    using ok take_due_entries_exact [OF ok surjective_pairing, of 150] by blast
qed

text \<open>
  C34. The precedence rule can never oscillate: a claim overrides a record only by strictly
  raising its (incarnation, status) rank, so the same claim never overrides twice, and of two
  distinct claims at most one overrides the other.
\<close>

theorem superseded_by_strict:
  "superseded_by m i s \<Longrightarrow>
     liveness_rank m < liveness_rank (m\<lparr>m_incarnation := i, m_status := s\<rparr>)
     \<and> \<not> superseded_by (m\<lparr>m_incarnation := i, m_status := s\<rparr>) i s
     \<and> \<not> superseded_by (m\<lparr>m_incarnation := i, m_status := s\<rparr>) (m_incarnation m) (m_status m)"
  using superseded_by_rank [of m i s]
    superseded_by_rank [of "m\<lparr>m_incarnation := i, m_status := s\<rparr>" i s]
    superseded_by_rank [of "m\<lparr>m_incarnation := i, m_status := s\<rparr>" "m_incarnation m" "m_status m"]
  unfolding liveness_rank_def by (auto simp del: less_prod_simp)

theorem superseded_by_strict_witness:
  "superseded_by (member_new 4 Alive 0) 4 Suspect
   \<and> \<not> superseded_by ((member_new 4 Alive 0)\<lparr>m_incarnation := 4, m_status := Suspect\<rparr>) 4 Suspect"
proof -
  have "superseded_by (member_new 4 Alive 0) 4 Suspect" by (simp add: member_new_def)
  with superseded_by_strict [OF this] show ?thesis by blast
qed

end
