(* ===== verification/Engine_State.thy ===== *)
theory Engine_State
  imports Wire Spread Group_Config Membership
begin

text \<open>
  The state of one group engine and its ordered index over the members (\<open>engine/state.rs\<close>,
  \<open>engine/index.rs\<close>, \<open>engine/effect.rs\<close>, \<open>engine/stats.rs\<close>; the election state of
  \<open>engine/election.rs\<close> and \<open>engine/election/quorum.rs\<close>). Cursors are 64-bit words; counters that
  only count local events by plain increments (the change clock, visit counts, statistics) are
  naturals. The test-only \<open>touched\<close> instrumentation is left out.
\<close>


section \<open>Effects\<close>

datatype effect =
    Send node_id bytes
  | ArmTimer time
  | CoordinatorChanged "node_id option"
  | MembershipChanged
  | NodeStateChanged node_id str
  | LeadershipChanged u64 "node_id option"
  | PersistGrant u64 node_id
  | AnchorClaimDue u64
  | MetadataChanged str str


section \<open>The election state\<close>

datatype role = Follower | Claimant | Host

record claim =
  cl_epoch :: u64
  cl_settle_at :: time

record quorum_state =
  q_granted :: "(u64 \<times> node_id) option"
  q_grant_promise_until :: time
  q_round_sent_at :: time
  q_round_grants :: "node_id fset"
  q_round_refused :: "node_id fset"
  q_resigned :: bool
  q_resigning :: "(u64 \<times> node_id fset) option"

record election =
  el_cfg :: hosted_config
  el_role :: role
  el_highest_seen :: u64
  el_epoch :: u64
  el_host :: "node_id option"
  el_claim :: "claim option"
  el_lease_until :: time
  el_no_claim_before :: time
  el_beacon_cursor :: u64
  el_quorum :: "quorum_state option"


section \<open>The engine state\<close>

datatype probe_phase = Direct | Indirect

record pending_probe =
  pp_target :: node_id
  pp_deadline :: time
  pp_phase :: probe_phase

record peer_digest =
  pd_visits :: nat
  pd_cursor :: nat
  pd_resume :: "node_id option"

definition peer_digest_default :: peer_digest where
  "peer_digest_default = \<lparr>pd_visits = 0, pd_cursor = 0, pd_resume = None\<rparr>"

record versioned_value =
  vv_value :: str
  vv_version :: u64
  vv_writer :: node_id

record net_stats =
  ns_digests_built :: nat
  ns_full_digests_built :: nat
  ns_digest_summaries_listed :: nat
  ns_max_digest_summaries :: nat
  ns_digest_frames_sent :: nat
  ns_digest_bytes_sent :: nat
  ns_delta_frames_sent :: nat
  ns_delta_requests_sent :: nat
  ns_anti_entropy_bytes_sent :: nat
  ns_ticks :: nat

definition net_stats_default :: net_stats where
  "net_stats_default =
     \<lparr>ns_digests_built = 0, ns_full_digests_built = 0, ns_digest_summaries_listed = 0,
      ns_max_digest_summaries = 0, ns_digest_frames_sent = 0, ns_digest_bytes_sent = 0,
      ns_delta_frames_sent = 0, ns_delta_requests_sent = 0, ns_anti_entropy_bytes_sent = 0,
      ns_ticks = 0\<rparr>"

record index =
  ix_due :: "(time \<times> node_id) fset"
  ix_live :: "(u64 \<times> node_id reverse) fset"
  ix_changed :: "(nat, node_id) fmap"
  ix_news :: "(time \<times> nat \<times> node_id) fset"
  ix_forgotten :: "(nat, node_id) fmap"
  ix_forgotten_floor :: nat

definition index_default :: index where
  "index_default =
     \<lparr>ix_due = {||}, ix_live = {||}, ix_changed = fmempty, ix_news = {||},
      ix_forgotten = fmempty, ix_forgotten_floor = 0\<rparr>"

record group_engine =
  ge_group :: group_id
  ge_local :: node_id
  ge_incarnation :: u64
  ge_leaving :: bool
  ge_members :: "(node_id, member) fmap"
  ge_seeds :: "node_id fset"
  ge_bootstrap_contacts :: "node_id fset"
  ge_targets :: "node_id list option"
  ge_ring :: "node_id list option"
  ge_index :: index
  ge_metadata :: "(str, versioned_value) fmap"
  ge_coordinator :: "node_id option"
  ge_config :: config
  ge_next_anti_entropy :: time
  ge_last_round :: time
  ge_next_probe :: time
  ge_probe_cursor :: u64
  ge_gossip_cursor :: u64
  ge_rng :: split_mix
  ge_pending :: "pending_probe option"
  ge_relaying :: "(node_id, node_id fset) fmap"
  ge_now_hint :: time
  ge_authored :: "str fset"
  ge_change_clock :: nat
  ge_digest_peers :: "(node_id, peer_digest) fmap"
  ge_election :: "election option"
  ge_stats :: net_stats

text \<open>
  A step is one engine call: the effects it returns and the state it leaves. Steps run one after
  the other, their effects in order.
\<close>

type_synonym step = "group_engine \<Rightarrow> effect list \<times> group_engine"

definition skip :: step where
  "skip s = ([], s)"

definition then_do :: "step \<Rightarrow> step \<Rightarrow> step" where
  "then_do f g s = (let (e1, s1) = f s; (e2, s2) = g s1 in (e1 @ e2, s2))"

definition silently :: "(group_engine \<Rightarrow> group_engine) \<Rightarrow> step" where
  "silently f s = ([], f s)"

definition emit :: "effect list \<Rightarrow> step" where
  "emit es s = (es, s)"

fun for_each :: "('a \<Rightarrow> step) \<Rightarrow> 'a list \<Rightarrow> step" where
  "for_each f [] = skip"
| "for_each f (x # xs) = then_do (f x) (for_each f xs)"


section \<open>The index\<close>

definition FORGOTTEN_KEPT :: nat where
  "FORGOTTEN_KEPT = 4096"

definition reap_after :: "group_engine \<Rightarrow> u64" where
  "reap_after s = sat_mul (dead_timeout_ms (ge_config s)) 2"

definition liveness_due :: "group_engine \<Rightarrow> node_id \<Rightarrow> member \<Rightarrow> time" where
  "liveness_due s node m =
     (if node = ge_local s then time_max
      else case m_status m of
        Alive \<Rightarrow> time_max
      | Suspect \<Rightarrow> min (m_suspect_due m) (m_accuse_at m)
      | Dead \<Rightarrow> time_saturating_add (m_dead_since m) (reap_after s))"

definition patch_sorted :: "node_id \<Rightarrow> bool \<Rightarrow> node_id list \<Rightarrow> node_id list" where
  "patch_sorted node present xs =
     (if node \<in> set xs then if present then xs else remove1 node xs
      else if present then insort node xs else xs)"

definition live_set_changed :: "node_id \<Rightarrow> bool \<Rightarrow> group_engine \<Rightarrow> group_engine" where
  "live_set_changed node live s =
     (let candidate = live \<and> node \<noteq> ge_local s;
          target = candidate \<or> node |\<in>| ge_seeds s \<or> node |\<in>| ge_bootstrap_contacts s
      in s\<lparr>ge_ring := map_option (patch_sorted node candidate) (ge_ring s),
           ge_targets := map_option (patch_sorted node target) (ge_targets s)\<rparr>)"

definition file_due :: "node_id \<Rightarrow> time \<Rightarrow> time \<Rightarrow> group_engine \<Rightarrow> group_engine" where
  "file_due node was due s =
     (if due = was then s
      else
        let set1 = (if was \<noteq> time_max then ix_due (ge_index s) |-| {|(was, node)|}
                    else ix_due (ge_index s));
            set2 = (if due \<noteq> time_max then finsert (due, node) set1 else set1)
        in s\<lparr>ge_index := (ge_index s)\<lparr>ix_due := set2\<rparr>\<rparr>)"

definition file_score ::
  "node_id \<Rightarrow> u64 option \<Rightarrow> bool \<Rightarrow> group_engine \<Rightarrow> u64 option \<times> group_engine" where
  "file_score node was live s =
     (case (was, live) of
        (Some score, True) \<Rightarrow> (Some score, s)
      | (None, True) \<Rightarrow>
          let score = owner_score (group_str (ge_group s)) node;
              s = s\<lparr>ge_index := (ge_index s)
                    \<lparr>ix_live := finsert (score, Reverse node) (ix_live (ge_index s))\<rparr>\<rparr>
          in (Some score, live_set_changed node True s)
      | (Some score, False) \<Rightarrow>
          let s = s\<lparr>ge_index := (ge_index s)
                    \<lparr>ix_live := ix_live (ge_index s) |-| {|(score, Reverse node)|}\<rparr>\<rparr>
          in (None, live_set_changed node False s)
      | (None, False) \<Rightarrow> (None, s))"

definition reindex :: "node_id \<Rightarrow> group_engine \<Rightarrow> group_engine" where
  "reindex node s =
     (case fmlookup (ge_members s) node of
        None \<Rightarrow> s
      | Some m \<Rightarrow>
          let due = min (liveness_due s node m) (next_entry_due m);
              live = (m_status m \<noteq> Dead);
              was = m_filed m;
              s = file_due node (fd_due was) due s;
              (score, s) = file_score node (fd_score was) live s;
              m = m\<lparr>m_filed := (m_filed m)\<lparr>fd_due := due, fd_score := score\<rparr>\<rparr>
          in s\<lparr>ge_members := fmupd node m (ge_members s)\<rparr>)"

definition unstamp :: "node_id \<Rightarrow> member \<Rightarrow> index \<Rightarrow> index" where
  "unstamp node m ix =
     (if 0 < m_changed_at m
      then ix\<lparr>ix_changed := fmdrop (m_changed_at m) (ix_changed ix),
              ix_news := ix_news ix |-| {|(fd_liveness (m_filed m), m_changed_at m, node)|}\<rparr>
      else ix)"

definition restamp :: "node_id \<Rightarrow> nat \<Rightarrow> group_engine \<Rightarrow> group_engine" where
  "restamp node stamp s =
     (case fmlookup (ge_members s) node of
        None \<Rightarrow> s
      | Some m \<Rightarrow>
          let ix = unstamp node m (ge_index s);
              m = m\<lparr>m_changed_at := stamp,
                    m_filed := (m_filed m)\<lparr>fd_liveness := m_liveness_since m\<rparr>\<rparr>;
              ix = ix\<lparr>ix_changed := fmupd stamp node (ix_changed ix),
                      ix_news := finsert (m_liveness_since m, stamp, node) (ix_news ix)\<rparr>
          in s\<lparr>ge_members := fmupd node m (ge_members s), ge_index := ix\<rparr>)"

definition stamp :: "node_id \<Rightarrow> group_engine \<Rightarrow> group_engine" where
  "stamp node s =
     (let s = s\<lparr>ge_change_clock := ge_change_clock s + 1\<rparr>
      in reindex node (restamp node (ge_change_clock s) s))"

definition stamp_self :: "group_engine \<Rightarrow> group_engine" where
  "stamp_self s = stamp (ge_local s) s"

definition pop_forgotten :: "index \<Rightarrow> index" where
  "pop_forgotten ix =
     (case keys_list (ix_forgotten ix) of
        [] \<Rightarrow> ix
      | at # _ \<Rightarrow> if fcard (fmdom (ix_forgotten ix)) > FORGOTTEN_KEPT
          then ix\<lparr>ix_forgotten := fmdrop at (ix_forgotten ix), ix_forgotten_floor := at\<rparr>
          else ix)"

definition forget :: "node_id \<Rightarrow> group_engine \<Rightarrow> group_engine" where
  "forget node s =
     (case fmlookup (ge_members s) node of
        None \<Rightarrow> s
      | Some m \<Rightarrow>
          let s = s\<lparr>ge_members := fmdrop node (ge_members s)\<rparr>;
              s = (if fd_due (m_filed m) \<noteq> time_max
                   then s\<lparr>ge_index := (ge_index s)
                        \<lparr>ix_due := ix_due (ge_index s) |-| {|(fd_due (m_filed m), node)|}\<rparr>\<rparr>
                   else s);
              s = (case fd_score (m_filed m) of
                     None \<Rightarrow> s
                   | Some score \<Rightarrow> live_set_changed node False
                       (s\<lparr>ge_index := (ge_index s)
                          \<lparr>ix_live := ix_live (ge_index s) |-| {|(score, Reverse node)|}\<rparr>\<rparr>));
              s = s\<lparr>ge_index := unstamp node m (ge_index s),
                    ge_digest_peers := fmdrop node (ge_digest_peers s),
                    ge_change_clock := ge_change_clock s + 1\<rparr>
          in s\<lparr>ge_index := pop_forgotten ((ge_index s)
               \<lparr>ix_forgotten := fmupd (ge_change_clock s) node (ix_forgotten (ge_index s))\<rparr>)\<rparr>)"

definition members_changed_since :: "nat \<Rightarrow> group_engine \<Rightarrow> node_id list" where
  "members_changed_since since s =
     map snd (filter (\<lambda>(at, _). since < at) (fentries (ix_changed (ge_index s))))"

definition members_forgotten_since :: "nat \<Rightarrow> group_engine \<Rightarrow> node_id list option" where
  "members_forgotten_since since s =
     (if since \<ge> ix_forgotten_floor (ge_index s)
      then Some (map snd (filter (\<lambda>(at, _). since < at) (fentries (ix_forgotten (ge_index s)))))
      else None)"

definition due_members :: "time \<Rightarrow> group_engine \<Rightarrow> node_id list" where
  "due_members now s =
     sort (map snd (takeWhile (\<lambda>(at, _). at \<le> now) (fset_list (ix_due (ge_index s)))))"

definition slow_deadline :: "group_engine \<Rightarrow> time" where
  "slow_deadline s =
     (case fset_first (ix_due (ge_index s)) of None \<Rightarrow> time_max | Some (at, _) \<Rightarrow> at)"

definition probe_candidates :: "group_engine \<Rightarrow> node_id list" where
  "probe_candidates s =
     map fst (filter (\<lambda>(node, m). node \<noteq> ge_local s \<and> m_status m \<noteq> Dead) (fentries (ge_members s)))"

definition probe_ring :: "group_engine \<Rightarrow> node_id list \<times> group_engine" where
  "probe_ring s =
     (case ge_ring s of
        Some ring \<Rightarrow> (ring, s)
      | None \<Rightarrow> (probe_candidates s, s\<lparr>ge_ring := Some (probe_candidates s)\<rparr>))"

definition compute_coordinator :: "group_engine \<Rightarrow> node_id option" where
  "compute_coordinator s =
     (case fset_last (ix_live (ge_index s)) of
        None \<Rightarrow> None
      | Some (_, r) \<Rightarrow> Some (unreverse r))"

definition recompute_coordinator :: step where
  "recompute_coordinator s =
     (let next = compute_coordinator s
      in if next = ge_coordinator s then ([], s)
         else ([CoordinatorChanged next], s\<lparr>ge_coordinator := next\<rparr>))"

end
