(* ===== verification/Merge.thy ===== *)
theory Merge
  imports Engine_State
begin

text \<open>
  Merging what a peer says (\<open>engine/merge.rs\<close>, with the timing helpers of
  \<open>engine/anti_entropy.rs\<close> and \<open>engine/liveness.rs\<close> it reads): liveness by incarnation and
  status precedence, a member's entries by per-key last-writer-wins, the metadata registers, the
  refutation of doubts about the local node, and the content hash a digest line carries.
\<close>


section \<open>Timing helpers\<close>

definition nudge_anti_entropy :: "group_engine \<Rightarrow> group_engine" where
  "nudge_anti_entropy s =
     (let earliest = time_saturating_add (ge_last_round s) (gossip_interval_ms (ge_config s) div 2)
      in s\<lparr>ge_next_anti_entropy := min (ge_next_anti_entropy s) (max (ge_now_hint s) earliest)\<rparr>)"

definition nudge_anti_entropy_now :: "group_engine \<Rightarrow> group_engine" where
  "nudge_anti_entropy_now s =
     s\<lparr>ge_next_anti_entropy := min (ge_next_anti_entropy s) (ge_now_hint s)\<rparr>"

fun bit_width :: "nat \<Rightarrow> nat" where
  "bit_width n = (if n = 0 then 0 else Suc (bit_width (n div 2)))"

declare bit_width.simps [simp del]

definition liveness_hot_ms :: "group_engine \<Rightarrow> u64" where
  "liveness_hot_ms s =
     (let rounds = of_nat (bit_width (fcard (fmdom (ge_members s)))) + 1
      in sat_mul (gossip_interval_ms (ge_config s)) rounds)"

definition heard_suspicion_ms :: "group_engine \<Rightarrow> u64" where
  "heard_suspicion_ms s = sat_add (suspect_timeout_ms (ge_config s)) (liveness_hot_ms s)"

definition should_gossip :: "group_engine \<Rightarrow> time \<Rightarrow> member \<Rightarrow> bool" where
  "should_gossip s now m \<longleftrightarrow> m_status m \<noteq> Dead
     \<or> now < time_saturating_add (m_dead_since m) (dead_timeout_ms (ge_config s))"

definition should_gossip_entry :: "group_engine \<Rightarrow> time \<Rightarrow> state_entry \<Rightarrow> bool" where
  "should_gossip_entry s now e =
     (if se_tombstone e
      then now < time_saturating_add (se_tombstone_since e) (dead_timeout_ms (ge_config s))
      else \<not> expired e now)"


section \<open>Content hash\<close>

definition fnv1a_fold :: "u64 \<Rightarrow> bytes \<Rightarrow> u64" where
  "fnv1a_fold h bs = fold (\<lambda>b h. (h XOR ucast b) * 0x00000100000001b3) bs h"

definition hash_entry :: "group_engine \<Rightarrow> time \<Rightarrow> str \<times> state_entry \<Rightarrow> u64 \<times> time \<Rightarrow> u64 \<times> time" where
  "hash_entry s now = (\<lambda>(key, e) (h, until).
     if \<not> should_gossip_entry s now e then (h, until)
     else
       let ends = (if se_tombstone e
                   then time_saturating_add (se_tombstone_since e) (dead_timeout_ms (ge_config s))
                   else se_expires_at e);
           h = fnv1a_fold h key;
           h = fnv1a_fold h (to_le_bytes 8 (se_version e));
           h = fnv1a_fold h [if se_tombstone e then 1 else 0];
           h = fnv1a_fold h (se_value e)
       in (h, min until ends))"

definition compute_content_hash :: "group_engine \<Rightarrow> member \<Rightarrow> time \<Rightarrow> u64 \<times> time" where
  "compute_content_hash s m now = fold (hash_entry s now) (fentries (m_entries m)) (0, time_max)"

definition content_hash :: "group_engine \<Rightarrow> member \<Rightarrow> time \<Rightarrow> u64" where
  "content_hash s m now =
     (case m_hash_cache m of
        Some (hash, until) \<Rightarrow> if now < until then hash else fst (compute_content_hash s m now)
      | None \<Rightarrow> fst (compute_content_hash s m now))"

definition refresh_content_hash :: "time \<Rightarrow> node_id \<Rightarrow> group_engine \<Rightarrow> group_engine" where
  "refresh_content_hash now node s =
     (case fmlookup (ge_members s) node of
        None \<Rightarrow> s
      | Some m \<Rightarrow>
          if (case m_hash_cache m of Some (_, until) \<Rightarrow> now < until | None \<Rightarrow> False) then s
          else s\<lparr>ge_members :=
            fmupd node (m\<lparr>m_hash_cache := Some (compute_content_hash s m now)\<rparr>) (ge_members s)\<rparr>)"


section \<open>Refutation\<close>

definition self_refute_target :: "group_engine \<Rightarrow> status \<Rightarrow> u64 \<Rightarrow> u64 option" where
  "self_refute_target s status incarnation =
     (if ge_leaving s then None
      else
        let false_suspicion = status \<noteq> Alive \<and> incarnation \<ge> ge_incarnation s;
            peer_ahead = incarnation > ge_incarnation s
        in if false_suspicion \<or> peer_ahead then Some (incarnation + 1) else None)"

definition apply_refutation :: "u64 option \<Rightarrow> group_engine \<Rightarrow> bool \<times> group_engine" where
  "apply_refutation refute_to s =
     (case refute_to of
        None \<Rightarrow> (False, s)
      | Some ni \<Rightarrow>
          let s = s\<lparr>ge_incarnation := ni\<rparr>;
              s = (case fmlookup (ge_members s) (ge_local s) of
                     None \<Rightarrow> s
                   | Some m \<Rightarrow> s\<lparr>ge_members := fmupd (ge_local s)
                       (adopt_status Alive (ge_now_hint s) (m\<lparr>m_incarnation := ni\<rparr>)) (ge_members s)\<rparr>)
          in (True, stamp_self s))"


section \<open>Remote liveness\<close>

definition arm_verdict :: "group_engine \<Rightarrow> status \<Rightarrow> time \<Rightarrow> member \<Rightarrow> member" where
  "arm_verdict s status now m =
     (case status of
        Suspect \<Rightarrow> hear_suspicion now (heard_suspicion_ms s) (suspect_timeout_ms (ge_config s)) m
      | Dead \<Rightarrow> m\<lparr>m_dead_since := now\<rparr>
      | Alive \<Rightarrow> m)"

definition merge_remote_liveness ::
  "node_id \<Rightarrow> u64 \<Rightarrow> status \<Rightarrow> time \<Rightarrow> group_engine \<Rightarrow> bool \<times> group_engine" where
  "merge_remote_liveness node incarnation status now s =
     (case fmlookup (ge_members s) node of
        None \<Rightarrow>
          let m = arm_verdict s status now (member_new incarnation status now)
          in (True, stamp node (s\<lparr>ge_members := fmupd node m (ge_members s)\<rparr>))
      | Some cur \<Rightarrow>
          if \<not> superseded_by cur incarnation status then (False, s)
          else
            let m = arm_verdict s status now
                      (adopt_status status now (cur\<lparr>m_incarnation := incarnation\<rparr>))
            in (True, stamp node (s\<lparr>ge_members := fmupd node m (ge_members s)\<rparr>)))"

definition max_target :: "u64 option \<Rightarrow> u64 option \<Rightarrow> u64 option" where
  "max_target refute_to target =
     (case target of
        None \<Rightarrow> refute_to
      | Some t \<Rightarrow> Some (case refute_to of None \<Rightarrow> t | Some x \<Rightarrow> max x t))"

definition merge_digest_line ::
  "time \<Rightarrow> node_digest \<Rightarrow> bool \<times> u64 option \<times> group_engine \<Rightarrow> bool \<times> u64 option \<times> group_engine" where
  "merge_digest_line now d = (\<lambda>(changed, refute_to, s).
     case status_from_wire (nd_status d) of
       None \<Rightarrow> (changed, refute_to, s)
     | Some status \<Rightarrow>
         if nd_node d = ge_local s
         then (changed, max_target refute_to (self_refute_target s status (nd_incarnation d)), s)
         else
           let (c, s) = merge_remote_liveness (nd_node d) (nd_incarnation d) status now s
           in (changed \<or> c, refute_to, s))"

text \<open>What both merges end with: refute if doubted, then announce a membership change.\<close>

definition membership_effects :: "bool \<Rightarrow> step" where
  "membership_effects changed =
     (if changed
      then then_do (emit [MembershipChanged])
             (then_do recompute_coordinator (silently nudge_anti_entropy))
      else skip)"

definition merge_digest_liveness :: "node_digest list \<Rightarrow> time \<Rightarrow> step" where
  "merge_digest_liveness digest now s =
     (let (changed, refute_to, s) = fold (merge_digest_line now) digest (False, None, s);
          (refuted, s) = apply_refutation refute_to s
      in membership_effects (changed \<or> refuted) s)"


section \<open>Entries\<close>

definition adopt_delta :: "u64 \<Rightarrow> time \<Rightarrow> entry_delta \<Rightarrow> member \<Rightarrow> member" where
  "adopt_delta reap now e m =
     put_entry_due (ed_key e)
       (entry_adopted (ed_version e) (ed_value e) (ed_ttl_ms e) (ed_tombstone e) now) reap m"

definition merge_own_entry ::
  "time \<Rightarrow> entry_delta \<Rightarrow> (node_id \<times> str) list \<times> group_engine \<Rightarrow> (node_id \<times> str) list \<times> group_engine" where
  "merge_own_entry now entry = (\<lambda>(state_changed, s).
     let me = ge_local s;
         m = the (fmlookup (ge_members s) me);
         dominated = (case fmlookup (m_entries m) (ed_key entry) of
             None \<Rightarrow> False
           | Some e \<Rightarrow> ed_version entry < se_version e
               \<or> (ed_version entry = se_version e \<and> ed_value entry = se_value e
                    \<and> ed_tombstone entry = se_tombstone e))
     in if dominated then (state_changed, s)
        else if ed_key entry |\<in>| ge_authored s
        then (case fmlookup (m_entries m) (ed_key entry) of
            None \<Rightarrow> (state_changed, s)
          | Some e \<Rightarrow>
              let v = sat_add (ed_version entry) 1;
                  m = m\<lparr>m_entries := fmupd (ed_key entry) (e\<lparr>se_version := v\<rparr>) (m_entries m)\<rparr>;
                  m = observe_version v (entries_changed m)
              in (state_changed @ [(me, ed_key entry)],
                  stamp_self (s\<lparr>ge_members := fmupd me m (ge_members s)\<rparr>)))
        else
          let m = adopt_delta (reap_after s) now entry (observe_version (ed_version entry) m)
          in (state_changed @ [(me, ed_key entry)],
              stamp_self (s\<lparr>ge_members := fmupd me m (ge_members s)\<rparr>)))"

definition merge_own_echo ::
  "entry_delta list \<Rightarrow> time \<Rightarrow> (node_id \<times> str) list \<times> group_engine
     \<Rightarrow> (node_id \<times> str) list \<times> group_engine" where
  "merge_own_echo entries now = fold (merge_own_entry now) entries"

text \<open>The last-writer-wins order of two copies of one key: version, tombstone, value bytes.\<close>

definition entry_wins :: "entry_delta \<Rightarrow> state_entry \<Rightarrow> bool" where
  "entry_wins d e \<longleftrightarrow>
     (ed_version d, ed_tombstone d, ed_value d) > (se_version e, se_tombstone e, se_value e)"

definition adopt_unknown_entry ::
  "u64 \<Rightarrow> time \<Rightarrow> entry_delta \<Rightarrow> member \<Rightarrow> member" where
  "adopt_unknown_entry reap now entry m =
     adopt_delta reap now entry (observe_version (ed_version entry) m)"

definition merge_entry ::
  "u64 \<Rightarrow> time \<Rightarrow> entry_delta \<Rightarrow> str list \<times> member \<Rightarrow> str list \<times> member" where
  "merge_entry reap now entry = (\<lambda>(adopted, m).
     let m = observe_version (ed_version entry) m;
         wins = (case fmlookup (m_entries m) (ed_key entry) of
                   None \<Rightarrow> True | Some e \<Rightarrow> entry_wins entry e)
     in if \<not> wins then (adopted, m)
        else (adopted @ [ed_key entry], adopt_delta reap now entry m))"

definition merge_peer_delta ::
  "member_delta \<Rightarrow> status \<Rightarrow> time \<Rightarrow> group_engine \<Rightarrow> bool \<times> (node_id \<times> str) list \<times> group_engine" where
  "merge_peer_delta delta status now s =
     (let node = md_node delta; reap = reap_after s
      in case fmlookup (ge_members s) node of
        None \<Rightarrow>
          let m = arm_verdict s status now (member_new (md_incarnation delta) status now);
              m = fold (adopt_unknown_entry reap now) (md_entries delta) m;
              m = observe_version (md_max_version delta) m
          in (True, map (\<lambda>e. (node, ed_key e)) (md_entries delta),
              stamp node (s\<lparr>ge_members := fmupd node m (ge_members s)\<rparr>))
      | Some cur \<Rightarrow>
          let status_wins = superseded_by cur (md_incarnation delta) status;
              m = (if status_wins
                   then arm_verdict s status now
                     (adopt_status status now (cur\<lparr>m_incarnation := md_incarnation delta\<rparr>))
                   else cur);
              (adopted, m) = fold (merge_entry reap now) (md_entries delta) ([], m);
              m = observe_version (md_max_version delta) m;
              moved = status_wins \<or> adopted \<noteq> []
                \<or> m_max_state_version m > m_max_state_version cur;
              s = s\<lparr>ge_members := fmupd node m (ge_members s)\<rparr>
          in (status_wins, map (\<lambda>k. (node, k)) adopted, if moved then stamp node s else s))"

definition merge_delta ::
  "time \<Rightarrow> member_delta \<Rightarrow> bool \<times> (node_id \<times> str) list \<times> u64 option \<times> group_engine
     \<Rightarrow> bool \<times> (node_id \<times> str) list \<times> u64 option \<times> group_engine" where
  "merge_delta now delta = (\<lambda>(changed, state_changed, refute_to, s).
     case status_from_wire (md_status delta) of
       None \<Rightarrow> (changed, state_changed, refute_to, s)
     | Some status \<Rightarrow>
         if md_node delta = ge_local s
         then
           let refute_to = max_target refute_to (self_refute_target s status (md_incarnation delta));
               (state_changed, s) = merge_own_echo (md_entries delta) now (state_changed, s)
           in (changed, state_changed, refute_to, s)
         else
           let (c, sc, s) = merge_peer_delta delta status now s
           in (changed \<or> c, state_changed @ sc, refute_to, s))"

definition merge_members :: "member_delta list \<Rightarrow> time \<Rightarrow> step" where
  "merge_members deltas now s =
     (let (changed, state_changed, refute_to, s) = fold (merge_delta now) deltas (False, [], None, s);
          (refuted, s) = apply_refutation refute_to s
      in then_do (membership_effects (changed \<or> refuted))
           (emit (map (\<lambda>(node, key). NodeStateChanged node key) state_changed)) s)"


section \<open>Metadata registers\<close>

definition meta_wins :: "meta_delta \<Rightarrow> versioned_value \<Rightarrow> bool" where
  "meta_wins d v \<longleftrightarrow> (mt_version d, mt_writer d) > (vv_version v, vv_writer v)"

definition merge_meta :: "meta_delta \<Rightarrow> step" where
  "merge_meta d s =
     (if (case fmlookup (ge_metadata s) (mt_key d) of Some v \<Rightarrow> meta_wins d v | None \<Rightarrow> True)
      then ([MetadataChanged (mt_key d) (mt_value d)],
            s\<lparr>ge_metadata := fmupd (mt_key d)
              \<lparr>vv_value = mt_value d, vv_version = mt_version d, vv_writer = mt_writer d\<rparr>
              (ge_metadata s)\<rparr>)
      else ([], s))"

definition merge_metadata :: "meta_delta list \<Rightarrow> step" where
  "merge_metadata incoming = for_each merge_meta incoming"

end
