(* ===== verification/Anti_Entropy.thy ===== *)
theory Anti_Entropy
  imports Merge
begin

text \<open>
  Digest and delta anti-entropy (\<open>engine/anti_entropy.rs\<close>): who a round targets, which members a
  digest lists, how digests, requests and deltas are packed into frames, and how an inbound
  digest or request is answered.
\<close>


section \<open>Targets\<close>

text \<open>The merging iterator \<open>Union\<close> over two sorted, duplicate-free sequences.\<close>

fun union_merge :: "node_id list \<Rightarrow> node_id list \<Rightarrow> node_id list" where
  "union_merge (x # xs) (y # ys) =
     (if x < y then x # union_merge xs (y # ys)
      else if y < x then y # union_merge (x # xs) ys
      else x # union_merge xs ys)"
| "union_merge (x # xs) [] = x # xs"
| "union_merge [] ys = ys"

definition dissemination_targets :: "group_engine \<Rightarrow> node_id list" where
  "dissemination_targets s =
     union_merge (union_merge (probe_candidates s) (fset_list (ge_seeds s)))
       (fset_list (ge_bootstrap_contacts s))"

definition cached_targets :: "group_engine \<Rightarrow> node_id list \<times> group_engine" where
  "cached_targets s =
     (case ge_targets s of
        Some targets \<Rightarrow> (targets, s)
      | None \<Rightarrow> (dissemination_targets s, s\<lparr>ge_targets := Some (dissemination_targets s)\<rparr>))"

definition rotate_from :: "u64 \<Rightarrow> nat \<Rightarrow> node_id list \<Rightarrow> node_id list" where
  "rotate_from cursor k targets =
     (let n = length targets
      in if n = 0 then []
         else
           let first = unat cursor mod n
           in map (\<lambda>i. targets ! ((first + i) mod n)) [0..<min k n])"

definition rotated_targets :: "u64 \<Rightarrow> nat \<Rightarrow> group_engine \<Rightarrow> node_id list \<times> group_engine" where
  "rotated_targets cursor k s =
     (let (targets, s) = cached_targets s in (rotate_from cursor k targets, s))"

definition select_fanout_targets :: "group_engine \<Rightarrow> node_id list \<times> group_engine" where
  "select_fanout_targets s =
     (let (out, s) = rotated_targets (ge_gossip_cursor s) (gossip_fanout (ge_config s)) s
      in (out, s\<lparr>ge_gossip_cursor := ge_gossip_cursor s + of_nat (length out)\<rparr>))"


section \<open>Digest lines and notices\<close>

definition summary :: "group_engine \<Rightarrow> node_id \<Rightarrow> member \<Rightarrow> time \<Rightarrow> node_digest" where
  "summary s node m now =
     \<lparr>nd_node = node, nd_incarnation = m_incarnation m, nd_status = status_to_wire (m_status m),
      nd_max_version = m_max_state_version m, nd_content_hash = content_hash s m now\<rparr>"

definition digest_frame :: "group_engine \<Rightarrow> node_digest list \<Rightarrow> meta_delta list \<Rightarrow> frame" where
  "digest_frame s ds ms = (empty_frame Digest (ge_group s) None)\<lparr>fr_digest := ds, fr_metadata := ms\<rparr>"

definition count_digest_frame :: "nat \<Rightarrow> group_engine \<Rightarrow> group_engine" where
  "count_digest_frame len s = s\<lparr>ge_stats := (ge_stats s)
     \<lparr>ns_digest_frames_sent := ns_digest_frames_sent (ge_stats s) + 1,
      ns_digest_bytes_sent := ns_digest_bytes_sent (ge_stats s) + len,
      ns_anti_entropy_bytes_sent := ns_anti_entropy_bytes_sent (ge_stats s) + len\<rparr>\<rparr>"

definition liveness_notice :: "node_id \<Rightarrow> node_id \<Rightarrow> time \<Rightarrow> step" where
  "liveness_notice to about now s =
     (case fmlookup (ge_members s) about of
        None \<Rightarrow> ([], s)
      | Some m \<Rightarrow>
          let bytes = encode (digest_frame s [summary s about m now] [])
          in ([Send to bytes], count_digest_frame (length bytes) s))"


section \<open>Choosing what a digest lists\<close>

definition fill_step ::
  "node_id set \<Rightarrow> nat \<Rightarrow> node_id \<Rightarrow> node_id list \<times> node_id option \<Rightarrow> node_id list \<times> node_id option" where
  "fill_step leading window node = (\<lambda>(listed, resume).
     if length listed \<ge> window then (listed, resume)
     else if node \<in> leading then (listed, Some node)
     else (listed @ [node], Some node))"

definition fill_window ::
  "node_id list \<Rightarrow> nat \<Rightarrow> node_id list \<Rightarrow> node_id option \<Rightarrow> node_id list \<times> node_id option" where
  "fill_window listed window walk resume = fold (fill_step (set listed) window) walk (listed, resume)"

definition gossipable :: "group_engine \<Rightarrow> time \<Rightarrow> node_id list" where
  "gossipable s now = map fst (filter (\<lambda>(_, m). should_gossip s now m) (fentries (ge_members s)))"

text \<open>The members changed after the cursor, newest first.\<close>

definition changed_newest :: "group_engine \<Rightarrow> nat \<Rightarrow> node_id list" where
  "changed_newest s cursor =
     filter (\<lambda>n. n |\<in>| fmdom (ge_members s)) (rev (members_changed_since cursor s))"

definition digest_hot :: "group_engine \<Rightarrow> time \<Rightarrow> member \<Rightarrow> bool" where
  "digest_hot s now m \<longleftrightarrow> sat_sub now (m_liveness_since m) < liveness_hot_ms s"

definition digest_fresh :: "group_engine \<Rightarrow> time \<Rightarrow> nat \<Rightarrow> member \<Rightarrow> bool" where
  "digest_fresh s now cursor m \<longleftrightarrow> m_changed_at m > cursor \<and> should_gossip s now m"

fun lead_news :: "group_engine \<Rightarrow> time \<Rightarrow> nat \<Rightarrow> nat \<Rightarrow> node_id list \<Rightarrow> node_id list \<Rightarrow> node_id list" where
  "lead_news s now cursor cap [] listed = listed"
| "lead_news s now cursor cap (node # rest) listed =
     (case fmlookup (ge_members s) node of
        None \<Rightarrow> lead_news s now cursor cap rest listed
      | Some m \<Rightarrow>
          if length listed \<ge> cap \<or> \<not> digest_hot s now m then listed
          else if node \<noteq> ge_local s \<and> digest_fresh s now cursor m
          then lead_news s now cursor cap rest (listed @ [node])
          else lead_news s now cursor cap rest listed)"

fun lead_changed :: "group_engine \<Rightarrow> time \<Rightarrow> nat \<Rightarrow> node_id list \<Rightarrow> node_id list \<Rightarrow> node_id list" where
  "lead_changed s now cap [] listed = listed"
| "lead_changed s now cap (node # rest) listed =
     (if length listed \<ge> cap then listed
      else if node \<noteq> ge_local s
        \<and> \<not> digest_hot s now (the (fmlookup (ge_members s) node))
        \<and> should_gossip s now (the (fmlookup (ge_members s) node))
      then lead_changed s now cap rest (listed @ [node])
      else lead_changed s now cap rest listed)"

definition lead_list :: "group_engine \<Rightarrow> time \<Rightarrow> nat \<Rightarrow> nat \<Rightarrow> node_id list" where
  "lead_list s now cursor cap =
     (if cap = 0 then []
      else
        let own = (case fmlookup (ge_members s) (ge_local s) of
                     Some m \<Rightarrow> if digest_fresh s now cursor m then [ge_local s] else []
                   | None \<Rightarrow> []);
            news = map (\<lambda>(_, _, node). node) (rev (fset_list (ix_news (ge_index s))))
        in lead_changed s now cap (changed_newest s cursor) (lead_news s now cursor cap news own))"

definition resume_walk :: "group_engine \<Rightarrow> time \<Rightarrow> node_id \<Rightarrow> node_id list" where
  "resume_walk s now after =
     (let g = gossipable s now in filter (\<lambda>n. after < n) g @ filter (\<lambda>n. n \<le> after) g)"

definition first_walk :: "group_engine \<Rightarrow> node_id \<Rightarrow> time \<Rightarrow> node_id list" where
  "first_walk s to now =
     (let g = gossipable s now
      in if g = [] then []
         else
           let start = spread_index (pair_hash (ge_local s) to) (length g)
           in drop start g @ take start g)"

definition digest_for :: "group_engine \<Rightarrow> node_id \<Rightarrow> time \<Rightarrow> node_id list \<times> bool \<times> peer_digest" where
  "digest_for s to now =
     (let window = digest_window (ge_config s);
          prev = fmlookup (ge_digest_peers s) to;
          visits = (case prev of None \<Rightarrow> 0 | Some p \<Rightarrow> pd_visits p);
          cursor = (case prev of None \<Rightarrow> 0 | Some p \<Rightarrow> pd_cursor p);
          resume = (case prev of None \<Rightarrow> None | Some p \<Rightarrow> pd_resume p);
          peer = \<lparr>pd_visits = visits + 1, pd_cursor = ge_change_clock s, pd_resume = resume\<rparr>;
          scheduled_full = (visits mod unat (full_digest_every (ge_config s)) = 0);
          delta = take (window + 1)
            (filter (\<lambda>n. should_gossip s now (the (fmlookup (ge_members s) n)))
               (changed_newest s cursor))
      in if \<not> scheduled_full \<and> length delta \<le> window then (sort delta, False, peer)
         else
           let lead = lead_list s now cursor (window div 2);
               walk = (case resume of Some after \<Rightarrow> resume_walk s now after
                       | None \<Rightarrow> first_walk s to now);
               (listed, resume) = fill_window lead window walk resume
           in (listed, True, peer\<lparr>pd_resume := resume\<rparr>))"


section \<open>Packing digests\<close>

fun take_budget :: "('a \<Rightarrow> nat) \<Rightarrow> nat \<Rightarrow> nat \<Rightarrow> bool \<Rightarrow> 'a list \<Rightarrow> 'a list \<times> 'a list" where
  "take_budget len budget used first [] = ([], [])"
| "take_budget len budget used first (d # rest) =
     (if used + len d > budget \<and> \<not> first then ([], d # rest)
      else
        let (part, rest) = take_budget len budget (used + len d) False rest
        in (d # part, rest))"

lemma take_budget_split: "take_budget len budget used first ds = (part, rest) \<Longrightarrow> ds = part @ rest"
  by (induction ds arbitrary: used first part) (auto split: if_splits prod.splits)

lemma take_budget_progress:
  "take_budget len budget used True ds = (part, rest) \<Longrightarrow> rest \<noteq> [] \<Longrightarrow> length rest < length ds"
  by (cases ds) (auto split: prod.splits dest!: take_budget_split)

declare take_budget.simps [simp del]

definition metadata_register :: "group_engine \<Rightarrow> meta_delta list" where
  "metadata_register s =
     map (\<lambda>(key, v). \<lparr>mt_key = key, mt_version = vv_version v, mt_writer = vv_writer v,
                      mt_value = vv_value v\<rparr>) (fentries (ge_metadata s))"

function digest_chunks ::
  "group_engine \<Rightarrow> meta_delta list \<Rightarrow> node_digest list \<Rightarrow> bytes list" where
  "digest_chunks s meta rest =
     (let budget = max_delta_frame_bytes (ge_config s);
          base = 1 + 1 + (4 + length (group_str (ge_group s))) + 1 + 4;
          meta_size = 4 + sum_list (map meta_len meta);
          (part, rest') = take_budget digest_len budget (base + meta_size) True rest
      in if part = [] \<and> meta = [] then []
         else encode (digest_frame s part meta)
           # (if rest' = [] then [] else digest_chunks s [] rest'))"
  by pat_completeness auto
termination
proof (relation "measure (\<lambda>(_, _, rest). length rest)", goal_cases)
  case (2 s meta rest budget base meta_size p part rest')
  then show ?case
    using take_budget_progress [of digest_len budget "base + meta_size" rest part rest'] by simp
qed simp

declare digest_chunks.simps [simp del]

definition build_digest_chunks :: "group_engine \<Rightarrow> node_digest list \<Rightarrow> bytes list" where
  "build_digest_chunks s summaries = digest_chunks s (metadata_register s) summaries"


section \<open>Packing deltas and requests\<close>

fun pack_entries ::
  "nat \<Rightarrow> nat \<Rightarrow> nat \<Rightarrow> bool \<Rightarrow> u64 \<Rightarrow> (str \<times> state_entry) list
     \<Rightarrow> entry_delta list \<times> nat \<times> u64 \<times> bool" where
  "pack_entries budget used member_size first hi [] = ([], member_size, hi, False)"
| "pack_entries budget used member_size first hi ((k, e) # rest) =
     (let ed = \<lparr>ed_key = k, ed_version = se_version e, ed_ttl_ms = se_ttl_ms e,
                ed_tombstone = se_tombstone e, ed_value = se_value e\<rparr>;
          elen = entry_len ed
      in if used + member_size + elen > budget \<and> \<not> first then ([], member_size, hi, True)
         else
           let (eds, member_size, hi, truncated) =
                 pack_entries budget used (member_size + elen) False (ed_version ed) rest
           in (ed # eds, member_size, hi, truncated))"

definition qualifying_entries :: "group_engine \<Rightarrow> time \<Rightarrow> u64 \<Rightarrow> member \<Rightarrow> (str \<times> state_entry) list" where
  "qualifying_entries s now have m =
     sort_key (\<lambda>(_, e). se_version e)
       (filter (\<lambda>(_, e). se_version e > have \<and> should_gossip_entry s now e) (fentries (m_entries m)))"

fun pack_members ::
  "group_engine \<Rightarrow> time \<Rightarrow> nat \<Rightarrow> nat \<Rightarrow> bool \<Rightarrow> (node_id \<times> u64) list \<Rightarrow> member_delta list" where
  "pack_members s now budget used none_yet [] = []"
| "pack_members s now budget used none_yet ((node, have) # wants) =
     (case fmlookup (ge_members s) node of
        None \<Rightarrow> pack_members s now budget used none_yet wants
      | Some m \<Rightarrow>
          let header = member_header_len node
          in if used + header > budget \<and> \<not> none_yet then []
             else
               let (eds, member_size, hi, truncated) =
                     pack_entries budget used header none_yet have (qualifying_entries s now have m);
                   max_version = (if truncated then hi else max (m_max_state_version m) hi);
                   md = \<lparr>md_node = node, md_incarnation = m_incarnation m,
                         md_status = status_to_wire (m_status m), md_max_version = max_version,
                         md_entries = eds\<rparr>
               in if eds \<noteq> [] \<or> max_version > have
                  then md # (if truncated then []
                             else pack_members s now budget (used + member_size) False wants)
                  else if truncated then []
                  else pack_members s now budget used none_yet wants)"

definition build_delta_frame :: "group_engine \<Rightarrow> (node_id \<times> u64) list \<Rightarrow> time \<Rightarrow> bytes option" where
  "build_delta_frame s wants now =
     (let members = pack_members s now (max_delta_frame_bytes (ge_config s))
                      (delta_frame_overhead (ge_group s)) True wants
      in if members = [] then None
         else Some (encode ((empty_frame Delta (ge_group s) None)\<lparr>fr_members := members\<rparr>)))"

definition count_delta_frames :: "nat \<Rightarrow> nat \<Rightarrow> group_engine \<Rightarrow> group_engine" where
  "count_delta_frames n len s = s\<lparr>ge_stats := (ge_stats s)
     \<lparr>ns_delta_frames_sent := ns_delta_frames_sent (ge_stats s) + n,
      ns_anti_entropy_bytes_sent := ns_anti_entropy_bytes_sent (ge_stats s) + len * n\<rparr>\<rparr>"

definition send_delta_request :: "node_id \<Rightarrow> node_want list \<Rightarrow> step" where
  "send_delta_request to wants s =
     (let budget = max_delta_frame_bytes (ge_config s);
          base = 1 + 1 + (4 + length (group_str (ge_group s))) + 1 + 4;
          kept = fst (take_budget want_len budget base True wants)
      in ([Send to (encode ((empty_frame DeltaRequest (ge_group s) None)\<lparr>fr_wants := kept\<rparr>))], s))"


section \<open>Rounds and answers\<close>

definition eager_push :: step where
  "eager_push s =
     (if \<not> eager_push_on (ge_config s) then ([], s)
      else
        let have = (case fmlookup (ge_members s) (ge_local s) of
                      None \<Rightarrow> 0 | Some m \<Rightarrow> sat_sub (m_max_state_version m) 1)
        in case build_delta_frame s [(ge_local s, have)] (ge_now_hint s) of
          None \<Rightarrow> ([], s)
        | Some delta \<Rightarrow>
            let (targets, s) = select_fanout_targets s;
                s = count_delta_frames (length targets) (length delta) s
            in (map (\<lambda>to. Send to delta) targets, s))"

definition count_digest :: "bool \<Rightarrow> nat \<Rightarrow> group_engine \<Rightarrow> group_engine" where
  "count_digest full listed s = s\<lparr>ge_stats := (ge_stats s)
     \<lparr>ns_digests_built := ns_digests_built (ge_stats s) + 1,
      ns_full_digests_built := ns_full_digests_built (ge_stats s) + (if full then 1 else 0),
      ns_digest_summaries_listed := ns_digest_summaries_listed (ge_stats s) + listed,
      ns_max_digest_summaries := max (ns_max_digest_summaries (ge_stats s)) listed\<rparr>\<rparr>"

definition digest_to :: "time \<Rightarrow> node_id \<Rightarrow> step" where
  "digest_to now to s =
     (let (listed, full, peer) = digest_for s to now;
          s = s\<lparr>ge_digest_peers := fmupd to peer (ge_digest_peers s)\<rparr>;
          s = fold (refresh_content_hash now) listed s;
          summaries = List.map_filter
            (\<lambda>node. map_option (\<lambda>m. summary s node m now) (fmlookup (ge_members s) node)) listed;
          chunks = build_digest_chunks s summaries;
          s = count_digest full (length summaries) s;
          s = fold (\<lambda>chunk. count_digest_frame (length chunk)) chunks s
      in (map (Send to) chunks, s))"

definition disseminate_digest :: "time \<Rightarrow> step" where
  "disseminate_digest now s =
     (let s = s\<lparr>ge_last_round := now\<rparr>;
          (targets, s) = select_fanout_targets s
      in for_each (digest_to now) targets s)"

definition reconcile ::
  "group_engine \<Rightarrow> time \<Rightarrow> node_digest \<Rightarrow> node_want list \<times> (node_id \<times> u64) list" where
  "reconcile s now d =
     (let (ours_max, ours_hash) =
            (case fmlookup (ge_members s) (nd_node d) of
               Some m \<Rightarrow> (m_max_state_version m, content_hash s m now)
             | None \<Rightarrow> (0, 0))
      in if nd_max_version d > ours_max
         then ([\<lparr>nw_node = nd_node d, nw_have_version = ours_max\<rparr>], [])
         else if nd_max_version d < ours_max then ([], [(nd_node d, nd_max_version d)])
         else if nd_content_hash d \<noteq> ours_hash
         then ([\<lparr>nw_node = nd_node d, nw_have_version = 0\<rparr>], [(nd_node d, 0)])
         else ([], []))"

definition answer_delta :: "node_id \<Rightarrow> (node_id \<times> u64) list \<Rightarrow> time \<Rightarrow> step" where
  "answer_delta to offers now s =
     (case build_delta_frame s offers now of
        None \<Rightarrow> ([], s)
      | Some delta \<Rightarrow> ([Send to delta], count_delta_frames 1 (length delta) s))"

definition exchange :: "node_id \<Rightarrow> node_digest list \<Rightarrow> time \<Rightarrow> step" where
  "exchange from digest now s =
     (let plans = map (reconcile s now) digest;
          wants = concat (map fst plans);
          offers = concat (map snd plans)
      in then_do (if wants \<noteq> [] then send_delta_request from wants else skip)
           (answer_delta from offers now) s)"

definition doubted :: "group_engine \<Rightarrow> node_digest list \<Rightarrow> bool" where
  "doubted s digest \<longleftrightarrow>
     (\<exists>d \<in> set digest. nd_node d = ge_local s \<and> status_from_wire (nd_status d) \<noteq> Some Alive)"

definition answer_doubt :: "node_id \<Rightarrow> bool \<Rightarrow> u64 \<Rightarrow> time \<Rightarrow> step" where
  "answer_doubt from doubt incarnation now s =
     (if (doubt \<and> \<not> ge_leaving s) \<or> ge_incarnation s > incarnation
      then liveness_notice from (ge_local s) now s
      else ([], s))"

definition on_digest :: "node_id \<Rightarrow> frame \<Rightarrow> time \<Rightarrow> step" where
  "on_digest from f now s =
     then_do (merge_digest_liveness (fr_digest f) now)
       (then_do (silently (fold (\<lambda>d. refresh_content_hash now (nd_node d)) (fr_digest f)))
         (then_do (answer_doubt from (doubted s (fr_digest f)) (ge_incarnation s) now)
           (then_do (merge_metadata (fr_metadata f))
             (exchange from (fr_digest f) now)))) s"

definition on_delta_request :: "node_id \<Rightarrow> frame \<Rightarrow> time \<Rightarrow> step" where
  "on_delta_request from f now s =
     answer_delta from (map (\<lambda>w. (nw_node w, nw_have_version w)) (fr_wants f)) now s"

end
