(* ===== verification/Liveness.thy ===== *)
theory Liveness
  imports Anti_Entropy
begin

text \<open>
  Failure detection and reaping (\<open>engine/liveness.rs\<close>): direct probes over a rotating ring,
  indirect probes through randomly drawn members, suspicion with its refutation window, and the
  reaping of dead members and due entries.
\<close>


section \<open>Probes\<close>

definition send_probe :: "group_engine \<Rightarrow> node_id \<Rightarrow> kind \<Rightarrow> node_id option \<Rightarrow> effect" where
  "send_probe s to kind target = Send to (encode (empty_frame kind (ge_group s) target))"

definition probe :: "time \<Rightarrow> step" where
  "probe now s =
     (if ge_pending s \<noteq> None then ([], s)
      else
        let cursor = ge_probe_cursor s;
            (ring, s) = probe_ring s
        in if ring = [] then ([], s)
           else
             let target = ring ! (unat cursor mod length ring);
                 s = s\<lparr>ge_probe_cursor := ge_probe_cursor s + 1,
                       ge_pending := Some \<lparr>pp_target = target,
                         pp_deadline = time_saturating_add now (probe_timeout_ms (ge_config s)),
                         pp_phase = Direct\<rparr>\<rparr>
             in ([send_probe s target Ping None], s))"

text \<open>
  The partial shuffle: the next \<open>n\<close> of the eligible slots, from slot \<open>i\<close> on, recording only the
  slots it swapped.
\<close>

fun draw_slots :: "nat \<Rightarrow> nat \<Rightarrow> nat \<Rightarrow> split_mix \<Rightarrow> (nat, nat) fmap \<Rightarrow> nat list \<times> split_mix" where
  "draw_slots elig i 0 rng swapped = ([], rng)"
| "draw_slots elig i (Suc n) rng swapped =
     (let (b, rng) = below (elig - i) rng;
          j = i + b;
          here = (case fmlookup swapped i of None \<Rightarrow> i | Some x \<Rightarrow> x);
          there = (case fmlookup swapped j of None \<Rightarrow> j | Some x \<Rightarrow> x);
          (slots, rng) = draw_slots elig (Suc i) n rng (fmupd j here swapped)
      in (there # slots, rng))"

definition skip_slot :: "node_id \<Rightarrow> node_id list \<Rightarrow> nat option" where
  "skip_slot target candidates =
     (if target \<in> set candidates then Some (length (takeWhile (\<lambda>n. n \<noteq> target) candidates)) else None)"

definition slot_at :: "node_id list \<Rightarrow> nat option \<Rightarrow> nat \<Rightarrow> node_id" where
  "slot_at candidates skipped slot =
     (case skipped of
        Some pos \<Rightarrow> if slot \<ge> pos then candidates ! (slot + 1) else candidates ! slot
      | None \<Rightarrow> candidates ! slot)"

definition draw_probers ::
  "node_id \<Rightarrow> nat \<Rightarrow> node_id list \<Rightarrow> split_mix \<Rightarrow> node_id list \<times> split_mix" where
  "draw_probers target indirect candidates rng =
     (let skipped = skip_slot target candidates;
          elig = length candidates - (if skipped = None then 0 else 1);
          k = min indirect elig;
          (slots, rng) = draw_slots elig 0 k rng fmempty
      in (map (slot_at candidates skipped) slots, rng))"

definition clear_pending_if :: "node_id \<Rightarrow> group_engine \<Rightarrow> group_engine" where
  "clear_pending_if target s =
     (case ge_pending s of
        Some p \<Rightarrow> if pp_target p = target then s\<lparr>ge_pending := None\<rparr> else s
      | None \<Rightarrow> s)"


section \<open>Suspicion\<close>

definition suspect :: "node_id \<Rightarrow> time \<Rightarrow> step" where
  "suspect target now s =
     (let window = suspect_timeout_ms (ge_config s);
          every = probe_timeout_ms (ge_config s)
      in case fmlookup (ge_members s) target of
        None \<Rightarrow> ([], s)
      | Some m \<Rightarrow>
          if m_status m = Alive
          then
            let m = suspect_here now window every (adopt_status Suspect now m);
                s = stamp target (s\<lparr>ge_members := fmupd target m (ge_members s)\<rparr>)
            in then_do (emit [MembershipChanged])
                 (then_do recompute_coordinator
                   (then_do (liveness_notice target target now) (silently nudge_anti_entropy))) s
          else if m_status m = Suspect \<and> \<not> m_suspected_here m
          then
            let due = min (m_suspect_due m) (time_saturating_add now window);
                m = (suspect_here now window every m)\<lparr>m_suspect_due := due\<rparr>;
                s = reindex target (s\<lparr>ge_members := fmupd target m (ge_members s)\<rparr>)
            in liveness_notice target target now s
          else ([], s))"

definition escalate_indirect :: "node_id \<Rightarrow> time \<Rightarrow> step" where
  "escalate_indirect target now s =
     (let indirect = indirect_probes (ge_config s);
          (candidates, s) = probe_ring s;
          (probers, rng) = draw_probers target indirect candidates (ge_rng s);
          s = s\<lparr>ge_rng := rng\<rparr>
      in if probers = [] then suspect target now (s\<lparr>ge_pending := None\<rparr>)
         else
           let s = s\<lparr>ge_pending := Some \<lparr>pp_target = target,
                 pp_deadline = time_saturating_add now (sat_mul (probe_timeout_ms (ge_config s)) 2),
                 pp_phase = Indirect\<rparr>\<rparr>
           in (map (\<lambda>p. send_probe s p PingReq (Some target)) probers, s))"

definition suspect_due_at :: "group_engine \<Rightarrow> time \<Rightarrow> node_id \<Rightarrow> bool" where
  "suspect_due_at s now node =
     (case fmlookup (ge_members s) node of
        None \<Rightarrow> False
      | Some m \<Rightarrow> node \<noteq> ge_local s \<and> m_status m = Suspect \<and> now \<ge> m_suspect_due m)"

definition accusation_due_at :: "group_engine \<Rightarrow> time \<Rightarrow> node_id \<Rightarrow> bool" where
  "accusation_due_at s now node =
     (case fmlookup (ge_members s) node of
        None \<Rightarrow> False
      | Some m \<Rightarrow> node \<noteq> ge_local s \<and> m_status m = Suspect
          \<and> now < m_suspect_due m \<and> now \<ge> m_accuse_at m)"

definition accuse :: "time \<Rightarrow> node_id \<Rightarrow> step" where
  "accuse now node s =
     (let s = (case fmlookup (ge_members s) node of
                 None \<Rightarrow> s
               | Some m \<Rightarrow>
                   let every = (if m_suspected_here m then probe_timeout_ms (ge_config s)
                                else gossip_interval_ms (ge_config s))
                   in s\<lparr>ge_members :=
                        fmupd node (m\<lparr>m_accuse_at := time_saturating_add now every\<rparr>) (ge_members s)\<rparr>)
      in liveness_notice node node now (reindex node s))"

definition declare_dead :: "time \<Rightarrow> node_id \<Rightarrow> group_engine \<Rightarrow> group_engine" where
  "declare_dead now node s =
     (let s = (case fmlookup (ge_members s) node of
                 None \<Rightarrow> s
               | Some m \<Rightarrow> s\<lparr>ge_members :=
                   fmupd node ((adopt_status Dead now m)\<lparr>m_dead_since := now\<rparr>) (ge_members s)\<rparr>)
      in stamp node s)"

definition reap_suspects :: "time \<Rightarrow> step" where
  "reap_suspects now s =
     (let due = due_members now s;
          dead = filter (suspect_due_at s now) due;
          accused = filter (accusation_due_at s now) due
      in then_do (for_each (accuse now) accused)
           (if dead = [] then skip
            else then_do (silently (fold (declare_dead now) dead))
              (then_do (emit [MembershipChanged])
                (then_do recompute_coordinator
                  (then_do (for_each (\<lambda>node. liveness_notice node node now) dead)
                    (silently nudge_anti_entropy))))) s)"


section \<open>Reaping\<close>

definition reap_dead :: "time \<Rightarrow> step" where
  "reap_dead now s =
     (let stale = filter (\<lambda>node. node \<noteq> ge_local s
            \<and> (case fmlookup (ge_members s) node of
                 None \<Rightarrow> False
               | Some m \<Rightarrow> m_status m = Dead
                   \<and> now \<ge> time_saturating_add (m_dead_since m) (reap_after s))) (due_members now s)
      in if stale = [] then ([], s) else ([MembershipChanged], fold forget stale s))"

definition reap_member_entries :: "time \<Rightarrow> node_id \<Rightarrow> step" where
  "reap_member_entries now node s =
     (case fmlookup (ge_members s) node of
        None \<Rightarrow> ([], s)
      | Some m \<Rightarrow>
          let (due, m) = take_due_entries now m;
              s = s\<lparr>ge_members := fmupd node m (ge_members s)\<rparr>
          in if due = [] then ([], s)
             else (map (\<lambda>(key, _). NodeStateChanged node key)
                     (filter (\<lambda>(_, e). \<not> se_tombstone e) due),
                   reindex node s))"

definition reap_entries :: "time \<Rightarrow> step" where
  "reap_entries now s = for_each (reap_member_entries now) (due_members now s) s"

end
