(* ===== verification/Election_Order.thy ===== *)
theory Election_Order
  imports Engine_State
begin

text \<open>
  The election's pure vocabulary (\<open>engine/election/order.rs\<close>, and the grant verdict of
  \<open>engine/election/quorum.rs\<close>): the fencing order over (epoch, host) pairs, the claim guard, and
  a voter's verdict on one claim. The fencing order is shown to be a total order that every node
  computes alike.
\<close>

datatype ordering = Less | Equal | Greater

definition cmp_pair ::
  "str \<Rightarrow> u64 \<times> node_id option \<Rightarrow> u64 \<times> node_id option \<Rightarrow> ordering" where
  "cmp_pair grp a b =
     (if fst a < fst b then Less
      else if fst b < fst a then Greater
      else case (snd a, snd b) of
        (None, None) \<Rightarrow> Equal
      | (None, Some _) \<Rightarrow> Less
      | (Some _, None) \<Rightarrow> Greater
      | (Some x, Some y) \<Rightarrow>
          if x = y then Equal
          else if owner grp {|x, y|} = Some x then Greater else Less)"

record claim_guard =
  cg_leaving :: bool
  cg_past_boot_guard :: bool
  cg_top_ranked :: bool
  cg_adopted_host_is_self :: bool

definition guard_opens :: "claim_guard \<Rightarrow> bool" where
  "guard_opens g \<longleftrightarrow> \<not> cg_leaving g \<and> cg_past_boot_guard g \<and> cg_top_ranked g
     \<and> \<not> cg_adopted_host_is_self g"

datatype verdict = Fresh | Repeat | Refuse

definition grant_verdict ::
  "bool \<Rightarrow> (u64 \<times> node_id) option \<Rightarrow> bool \<Rightarrow> time \<Rightarrow> time \<Rightarrow> u64 \<Rightarrow> node_id \<Rightarrow> verdict" where
  "grant_verdict leaving granted resigned grant_promise_until now epoch claimant =
     (if leaving then Refuse
      else case granted of
        None \<Rightarrow> if now \<ge> grant_promise_until then Fresh else Refuse
      | Some (granted_epoch, granted_claimant) \<Rightarrow>
          if granted_epoch = epoch \<and> granted_claimant = claimant
          then if resigned then Refuse else Repeat
          else if epoch \<le> granted_epoch then Refuse
          else if granted_claimant = claimant \<or> now \<ge> grant_promise_until then Fresh
          else Refuse)"


section \<open>The fencing order is total\<close>

text \<open>The pair order as a key: epoch first, then no host, then the host's placement rank.\<close>

definition host_key :: "str \<Rightarrow> node_id option \<Rightarrow> (u64 \<times> node_id reverse) option" where
  "host_key grp host = map_option (\<lambda>n. (owner_score grp n, Reverse n)) host"

lemma owner_pair:
  assumes "x \<noteq> y"
  shows "owner grp {|x, y|} = Some x \<longleftrightarrow>
    (owner_score grp y, Reverse y) < (owner_score grp x, Reverse x)"
proof -
  have inj: "inj_on (\<lambda>n. (owner_score grp n, Reverse n)) (set (fset_list {|x, y|}))"
    by (auto simp: inj_on_def)
  show ?thesis
    unfolding owner_def owner_among_def max_by_key_Some_iff [OF inj] set_fset_list
    using assms by (auto simp: order.strict_iff_order)
qed

definition pair_key ::
  "str \<Rightarrow> u64 \<times> node_id option \<Rightarrow> u64 \<times> bool \<times> (u64 \<times> node_id reverse)" where
  "pair_key grp p =
     (fst p, snd p \<noteq> None,
      (case snd p of None \<Rightarrow> (0, Reverse (NodeId [])) | Some n \<Rightarrow> (owner_score grp n, Reverse n)))"

lemma pair_key_inj: "pair_key grp a = pair_key grp b \<longleftrightarrow> a = b"
  by (cases a; cases b) (auto simp: pair_key_def split: option.splits)

lemma cmp_pair_key:
  "cmp_pair grp a b =
     (if pair_key grp a < pair_key grp b then Less
      else if pair_key grp b < pair_key grp a then Greater else Equal)"
proof (cases "fst a = fst b")
  case False
  then show ?thesis
    by (auto simp: cmp_pair_def pair_key_def)
next
  case True
  then show ?thesis
  proof (cases "snd a"; cases "snd b")
    fix x y
    assume xy: "snd a = Some x" "snd b = Some y"
    show ?thesis
    proof (cases "x = y")
      case False
      define kx ky where "kx = (owner_score grp x, Reverse x)" and "ky = (owner_score grp y, Reverse y)"
      from False have "kx \<noteq> ky" by (simp add: kx_def ky_def)
      moreover have "cmp_pair grp a b = (if ky < kx then Greater else Less)"
        using True False xy by (simp add: cmp_pair_def owner_pair kx_def ky_def del: less_prod_simp)
      moreover have "pair_key grp a = (fst b, True, kx)" "pair_key grp b = (fst b, True, ky)"
        using True xy by (simp_all add: pair_key_def kx_def ky_def)
      ultimately show ?thesis by auto
    qed (use True xy in \<open>auto simp: cmp_pair_def pair_key_def\<close>)
  qed (use True in \<open>auto simp: cmp_pair_def pair_key_def\<close>)
qed

text \<open>
  C35. The fencing order over (epoch, host) pairs is a total order computed from the group id and
  the two pairs alone: antisymmetric, transitive, equal only on equal pairs, epoch-major, and a
  hostless pair is the least of its epoch.
\<close>

theorem cmp_pair_total_order:
  "(cmp_pair grp a b = Equal \<longleftrightarrow> a = b)
   \<and> (cmp_pair grp a b = Greater \<longleftrightarrow> cmp_pair grp b a = Less)
   \<and> (cmp_pair grp a b = Greater \<longrightarrow> cmp_pair grp b c = Greater \<longrightarrow> cmp_pair grp a c = Greater)
   \<and> (fst b < fst a \<longrightarrow> cmp_pair grp a b = Greater)
   \<and> (fst a = fst b \<longrightarrow> snd a = None \<longrightarrow> cmp_pair grp a b \<noteq> Greater)"
proof (intro conjI)
  show "cmp_pair grp a b = Equal \<longleftrightarrow> a = b"
    unfolding cmp_pair_key using pair_key_inj [of grp a b] by auto
  show "cmp_pair grp a b = Greater \<longleftrightarrow> cmp_pair grp b a = Less"
    unfolding cmp_pair_key by auto
  show "cmp_pair grp a b = Greater \<longrightarrow> cmp_pair grp b c = Greater \<longrightarrow> cmp_pair grp a c = Greater"
    unfolding cmp_pair_key by auto
qed (auto simp: cmp_pair_def split: option.splits)

theorem cmp_pair_total_order_witness:
  "cmp_pair [103] (4, Some (NodeId [97])) (3, Some (NodeId [98])) = Greater
   \<and> cmp_pair [103] (4, None) (4, Some (NodeId [98])) \<noteq> Greater"
  using cmp_pair_total_order [of "[103]" "(4, Some (NodeId [97]))" "(3, Some (NodeId [98]))" "(0, None)"]
    cmp_pair_total_order [of "[103]" "(4, None)" "(4, Some (NodeId [98]))" "(0, None)"]
  by auto

end
