(* ===== verification/Election.thy ===== *)
theory Election
  imports Liveness Election_Order
begin

text \<open>
  The hosted-mode election (\<open>engine/election.rs\<close>, \<open>engine/election/quorum.rs\<close>,
  \<open>quorum/recovery.rs\<close>, \<open>quorum/resign.rs\<close>, \<open>engine/election/external.rs\<close>): claims, the settle
  window, grants by a voter roster, leases, resignation, and the external anchor's prompts and
  reports.
\<close>


section \<open>Construction and reads\<close>

definition quorum_for_activation :: "activation \<Rightarrow> quorum_state option" where
  "quorum_for_activation a =
     (case a of
        Settle _ \<Rightarrow> None
      | External _ \<Rightarrow> None
      | Quorum _ \<Rightarrow> Some \<lparr>q_granted = None, q_grant_promise_until = time_max,
          q_round_sent_at = time_zero, q_round_grants = {||}, q_round_refused = {||},
          q_resigned = False, q_resigning = None\<rparr>)"

definition election_new :: "hosted_config \<Rightarrow> election" where
  "election_new cfg =
     \<lparr>el_cfg = cfg, el_role = Follower, el_highest_seen = 0, el_epoch = 0, el_host = None,
      el_claim = None, el_lease_until = time_zero, el_no_claim_before = time_zero,
      el_beacon_cursor = 0, el_quorum = quorum_for_activation (hc_activation cfg)\<rparr>"

definition activation_window_ms :: "election \<Rightarrow> u64" where
  "activation_window_ms el =
     (case hc_activation (el_cfg el) of
        Settle claim_settle_ms \<Rightarrow> claim_settle_ms
      | Quorum _ \<Rightarrow> hc_lease_ms (el_cfg el)
      | External _ \<Rightarrow> hc_lease_ms (el_cfg el))"

definition closes_on_window :: "election \<Rightarrow> bool" where
  "closes_on_window el = (case hc_activation (el_cfg el) of Settle _ \<Rightarrow> True | _ \<Rightarrow> False)"

definition el_deadline :: "election \<Rightarrow> time option" where
  "el_deadline el =
     (case el_role el of
        Claimant \<Rightarrow> map_option cl_settle_at (el_claim el)
      | Host \<Rightarrow> Some (el_lease_until el)
      | Follower \<Rightarrow> None)"

definition el_voters :: "election \<Rightarrow> voter_roster option" where
  "el_voters el = (case hc_activation (el_cfg el) of Quorum vs \<Rightarrow> Some vs | _ \<Rightarrow> None)"

definition el_is_external :: "election \<Rightarrow> bool" where
  "el_is_external el = (case hc_activation (el_cfg el) of External _ \<Rightarrow> True | _ \<Rightarrow> False)"

definition quorum_start :: "time \<Rightarrow> election \<Rightarrow> election" where
  "quorum_start now el =
     (case el_quorum el of
        None \<Rightarrow> el
      | Some q \<Rightarrow>
          if q_grant_promise_until q = time_max
          then el\<lparr>el_quorum := Some (q\<lparr>q_grant_promise_until :=
                 time_saturating_add now (hc_lease_ms (el_cfg el))\<rparr>)\<rparr>
          else el)"

definition leadership :: "group_engine \<Rightarrow> u64 \<times> node_id option" where
  "leadership s = (case ge_election s of None \<Rightarrow> (0, None) | Some el \<Rightarrow> (el_epoch el, el_host el))"

definition engine_role :: "group_engine \<Rightarrow> role" where
  "engine_role s = (case ge_election s of None \<Rightarrow> Follower | Some el \<Rightarrow> el_role el)"

definition observed_epoch :: "group_engine \<Rightarrow> u64" where
  "observed_epoch s = (case ge_election s of None \<Rightarrow> 0 | Some el \<Rightarrow> el_highest_seen el)"

definition host_lease_until :: "group_engine \<Rightarrow> time option" where
  "host_lease_until s =
     (case ge_election s of
        None \<Rightarrow> None
      | Some el \<Rightarrow> if el_role el = Host then Some (el_lease_until el) else None)"

definition is_coordinator :: "group_engine \<Rightarrow> bool" where
  "is_coordinator s \<longleftrightarrow> ge_coordinator s = Some (ge_local s)"

definition is_settle :: "group_engine \<Rightarrow> bool" where
  "is_settle s = (case ge_election s of None \<Rightarrow> False | Some el \<Rightarrow> closes_on_window el)"

definition is_external :: "group_engine \<Rightarrow> bool" where
  "is_external s = (case ge_election s of None \<Rightarrow> False | Some el \<Rightarrow> el_is_external el)"

definition quorum_of :: "group_engine \<Rightarrow> quorum_state option" where
  "quorum_of s = Option.bind (ge_election s) el_quorum"

definition voter_grant :: "group_engine \<Rightarrow> (u64 \<times> node_id) option" where
  "voter_grant s = Option.bind (quorum_of s) q_granted"

definition quorum_voters :: "group_engine \<Rightarrow> voter_roster option" where
  "quorum_voters s = Option.bind (ge_election s) el_voters"

definition is_quorum :: "group_engine \<Rightarrow> bool" where
  "is_quorum s \<longleftrightarrow> quorum_voters s \<noteq> None"

definition is_voter :: "group_engine \<Rightarrow> bool" where
  "is_voter s = (case quorum_voters s of None \<Rightarrow> False | Some vs \<Rightarrow> roster_contains vs (ge_local s))"

definition lease_ms_of :: "group_engine \<Rightarrow> u64" where
  "lease_ms_of s = (case ge_election s of None \<Rightarrow> 0 | Some el \<Rightarrow> hc_lease_ms (el_cfg el))"

text \<open>In-place updates of the election and of its grant ledger; nothing where there is none.\<close>

definition upd_el :: "(election \<Rightarrow> election) \<Rightarrow> group_engine \<Rightarrow> group_engine" where
  "upd_el f s = s\<lparr>ge_election := map_option f (ge_election s)\<rparr>"

definition upd_q :: "(quorum_state \<Rightarrow> quorum_state) \<Rightarrow> group_engine \<Rightarrow> group_engine" where
  "upd_q f = upd_el (\<lambda>el. el\<lparr>el_quorum := map_option f (el_quorum el)\<rparr>)"

definition election_start :: "time \<Rightarrow> group_engine \<Rightarrow> group_engine" where
  "election_start now =
     upd_el (\<lambda>el. quorum_start now
       (el\<lparr>el_no_claim_before := time_saturating_add now (activation_window_ms el)\<rparr>))"


section \<open>Frames\<close>

definition lead_frame :: "group_engine \<Rightarrow> lead_body \<Rightarrow> frame" where
  "lead_frame s body = (empty_frame (lead_kind body) (ge_group s) None)\<lparr>fr_lead := Some body\<rparr>"

definition send_lead :: "group_engine \<Rightarrow> lead_body \<Rightarrow> node_id \<Rightarrow> effect" where
  "send_lead s body to = Send to (encode (lead_frame s body))"

definition state_body :: "group_engine \<Rightarrow> lead_body option" where
  "state_body s = map_option (\<lambda>el. State (el_epoch el) (el_host el)) (ge_election s)"

definition live_peers :: "group_engine \<Rightarrow> node_id list" where
  "live_peers s = probe_candidates s"

definition claim_targets :: "group_engine \<Rightarrow> node_id list" where
  "claim_targets s =
     (case quorum_voters s of
        None \<Rightarrow> live_peers s
      | Some vs \<Rightarrow> fset_list (fset_of_list (live_peers s)
          |\<union>| fset_of_list (filter (\<lambda>v. v \<noteq> ge_local s) (voters vs))))"

definition broadcast_claim :: "group_engine \<Rightarrow> u64 \<Rightarrow> effect list" where
  "broadcast_claim s epoch = map (send_lead s (Claim epoch (ge_local s))) (claim_targets s)"

definition broadcast_state :: "group_engine \<Rightarrow> effect list" where
  "broadcast_state s =
     (case state_body s of None \<Rightarrow> [] | Some body \<Rightarrow> map (send_lead s body) (live_peers s))"


section \<open>Role changes\<close>

definition activate :: "u64 \<Rightarrow> time \<Rightarrow> step" where
  "activate epoch lease_until s =
     (let s = upd_el (\<lambda>el. el\<lparr>el_role := Host, el_claim := None, el_epoch := epoch,
                el_host := Some (ge_local s), el_highest_seen := max (el_highest_seen el) epoch,
                el_lease_until := lease_until\<rparr>) s
      in (LeadershipChanged epoch (Some (ge_local s)) # broadcast_state s, s))"

definition abandon_claim :: "group_engine \<Rightarrow> group_engine" where
  "abandon_claim = upd_el (\<lambda>el. el\<lparr>el_claim := None, el_role := Follower\<rparr>)"

definition demote_host :: step where
  "demote_host s =
     (case ge_election s of
        None \<Rightarrow> ([], s)
      | Some el \<Rightarrow> ([LeadershipChanged (el_epoch el) None],
                    s\<lparr>ge_election := Some (el\<lparr>el_role := Follower, el_host := None\<rparr>)\<rparr>))"

definition adopt :: "u64 \<Rightarrow> node_id option \<Rightarrow> step" where
  "adopt epoch host s =
     (case ge_election s of
        None \<Rightarrow> ([], s)
      | Some el \<Rightarrow>
          let was_host = (el_role el = Host);
              outclaimed = (case el_claim el of None \<Rightarrow> False | Some c \<Rightarrow> cl_epoch c \<le> epoch);
              el = el\<lparr>el_epoch := epoch, el_host := host,
                      el_highest_seen := max (el_highest_seen el) epoch\<rparr>;
              el = (if was_host \<or> outclaimed then el\<lparr>el_role := Follower, el_claim := None\<rparr> else el)
          in ([LeadershipChanged epoch host], s\<lparr>ge_election := Some el\<rparr>))"

definition learn_self_named :: "u64 \<Rightarrow> step" where
  "learn_self_named epoch s =
     (case ge_election s of
        None \<Rightarrow> ([], s)
      | Some el0 \<Rightarrow>
          let el = el0\<lparr>el_highest_seen := max (el_highest_seen el0) epoch\<rparr>
          in if epoch \<le> el_epoch el then ([], s\<lparr>ge_election := Some el\<rparr>)
             else
               let was_host = (el_role el = Host);
                   outclaimed = (case el_claim el of None \<Rightarrow> False | Some c \<Rightarrow> cl_epoch c \<le> epoch);
                   el = el\<lparr>el_epoch := epoch, el_host := None\<rparr>;
                   el = (if was_host \<or> outclaimed
                         then el\<lparr>el_role := Follower, el_claim := None\<rparr> else el)
               in ([LeadershipChanged epoch None], s\<lparr>ge_election := Some el\<rparr>))"


section \<open>Grants\<close>

definition record_grant :: "u64 \<Rightarrow> node_id \<Rightarrow> time \<Rightarrow> group_engine \<Rightarrow> verdict \<times> group_engine" where
  "record_grant epoch claimant now s =
     (if \<not> is_voter s then (Refuse, s)
      else case quorum_of s of
        None \<Rightarrow> (Refuse, s)
      | Some q \<Rightarrow>
          let verdict = grant_verdict (ge_leaving s) (q_granted q) (q_resigned q)
                (q_grant_promise_until q) now epoch claimant;
              until = time_saturating_add now (lease_ms_of s)
          in case verdict of
               Refuse \<Rightarrow> (Refuse, s)
             | Fresh \<Rightarrow> (Fresh, upd_q (\<lambda>q. q\<lparr>q_granted := Some (epoch, claimant), q_resigned := False,
                          q_grant_promise_until := until\<rparr>) s)
             | Repeat \<Rightarrow> (Repeat, upd_q (\<lambda>q. q\<lparr>q_grant_promise_until := until\<rparr>) s))"

definition floor_answer :: "group_engine \<Rightarrow> u64 \<Rightarrow> node_id \<Rightarrow> effect list" where
  "floor_answer s epoch claimant =
     (if ge_leaving s \<or> \<not> is_voter s \<or> claimant = ge_local s then []
      else case voter_grant s of
        None \<Rightarrow> []
      | Some (granted_epoch, granted_claimant) \<Rightarrow>
          if epoch > granted_epoch then []
          else if epoch = granted_epoch \<and> claimant = granted_claimant then []
          else [send_lead s (Grant granted_epoch granted_claimant (ge_local s)) claimant])"

definition on_claim_as_voter :: "u64 \<Rightarrow> node_id \<Rightarrow> time \<Rightarrow> step" where
  "on_claim_as_voter epoch claimant now s =
     (let (verdict, s) = record_grant epoch claimant now s
      in if verdict = Refuse then (floor_answer s epoch claimant, s)
         else ((if verdict = Fresh then [PersistGrant epoch claimant] else [])
               @ [send_lead s (Grant epoch claimant (ge_local s)) claimant], s))"

definition self_in_round :: "group_engine \<Rightarrow> bool" where
  "self_in_round s =
     (case quorum_of s of None \<Rightarrow> False | Some q \<Rightarrow> ge_local s |\<in>| q_round_grants q)"

definition close_round_if_majority :: "u64 \<Rightarrow> step" where
  "close_round_if_majority epoch s =
     (case ge_election s of
        None \<Rightarrow> ([], s)
      | Some el \<Rightarrow>
          (case el_quorum el of
             None \<Rightarrow> ([], s)
           | Some q \<Rightarrow>
               if (case el_voters el of None \<Rightarrow> True | Some vs \<Rightarrow> fcard (q_round_grants q) < majority vs)
               then ([], s)
               else
                 let lease_until = time_saturating_add (q_round_sent_at q) (hc_lease_ms (el_cfg el))
                 in case el_role el of
                      Claimant \<Rightarrow> activate epoch lease_until s
                    | Host \<Rightarrow> ([], upd_el (\<lambda>el. el\<lparr>el_lease_until := max (el_lease_until el) lease_until\<rparr>) s)
                    | Follower \<Rightarrow> ([], s)))"

definition self_grant :: "u64 \<Rightarrow> time \<Rightarrow> step" where
  "self_grant epoch now s =
     (let me = ge_local s;
          (verdict, s) = record_grant epoch me now s
      in if verdict = Refuse then ([], s)
         else
           let s = upd_q (\<lambda>q. q\<lparr>q_round_grants := finsert me (q_round_grants q)\<rparr>) s
           in then_do (emit (if verdict = Fresh then [PersistGrant epoch me] else []))
                (close_round_if_majority epoch) s)"

definition quorum_retry_self_grant :: "u64 \<Rightarrow> time \<Rightarrow> step" where
  "quorum_retry_self_grant epoch now s =
     (if \<not> is_voter s \<or> self_in_round s then ([], s) else self_grant epoch now s)"

definition open_round :: "time \<Rightarrow> group_engine \<Rightarrow> group_engine" where
  "open_round now = upd_q (\<lambda>q. q\<lparr>q_round_sent_at := now, q_round_grants := {||}, q_round_refused := {||}\<rparr>)"

definition quorum_open_round :: "u64 \<Rightarrow> time \<Rightarrow> step" where
  "quorum_open_round epoch now s =
     (case quorum_of s of None \<Rightarrow> ([], s) | Some _ \<Rightarrow> self_grant epoch now (open_round now s))"

definition claim_is_renewal :: "group_engine \<Rightarrow> u64 \<Rightarrow> node_id \<Rightarrow> bool" where
  "claim_is_renewal s epoch claimant \<longleftrightarrow> is_quorum s
     \<and> (case ge_election s of None \<Rightarrow> False | Some el \<Rightarrow> el_epoch el = epoch \<and> el_host el = Some claimant)"

definition learn_granted_epoch :: "u64 \<Rightarrow> node_id \<Rightarrow> node_id \<Rightarrow> group_engine \<Rightarrow> group_engine" where
  "learn_granted_epoch epoch claimant granter s =
     (case ge_election s of
        None \<Rightarrow> s
      | Some el0 \<Rightarrow>
          let el = el0\<lparr>el_highest_seen := max (el_highest_seen el0) epoch\<rparr>;
              s1 = s\<lparr>ge_election := Some el\<rparr>;
              refuses = (el_role el = Claimant
                \<and> (case el_claim el of None \<Rightarrow> False
                   | Some c \<Rightarrow> cl_epoch c < epoch \<or> (cl_epoch c = epoch \<and> claimant \<noteq> ge_local s)))
          in if \<not> refuses then s1
             else case el_voters el of
               None \<Rightarrow> s1
             | Some vs \<Rightarrow>
                 (case el_quorum el of
                    None \<Rightarrow> s1
                  | Some q \<Rightarrow>
                      let q = (if granter |\<in>| q_round_grants q then q
                               else q\<lparr>q_round_refused := finsert granter (q_round_refused q)\<rparr>);
                          s2 = s1\<lparr>ge_election := Some (el\<lparr>el_quorum := Some q\<rparr>)\<rparr>
                      in if roster_len vs - fcard (q_round_refused q) < majority vs
                         then abandon_claim s2 else s2))"

definition standing :: "election \<Rightarrow> u64 \<Rightarrow> bool" where
  "standing el epoch =
     (case el_role el of
        Claimant \<Rightarrow> (case el_claim el of None \<Rightarrow> False | Some c \<Rightarrow> cl_epoch c = epoch)
      | Host \<Rightarrow> el_epoch el = epoch
      | Follower \<Rightarrow> False)"

definition on_lead_grant :: "u64 \<Rightarrow> node_id \<Rightarrow> node_id \<Rightarrow> step" where
  "on_lead_grant epoch claimant granter s =
     (if \<not> is_quorum s then ([], s)
      else if \<not> (case quorum_voters s of None \<Rightarrow> False | Some vs \<Rightarrow> roster_contains vs granter)
      then ([], s)
      else
        let s = learn_granted_epoch epoch claimant granter s
        in if claimant \<noteq> ge_local s then ([], s)
           else case ge_election s of
             None \<Rightarrow> ([], s)
           | Some el \<Rightarrow>
               if \<not> standing el epoch then ([], s)
               else close_round_if_majority epoch
                 (upd_q (\<lambda>q. q\<lparr>q_round_grants := finsert granter (q_round_grants q)\<rparr>) s))"

definition renewal_round :: "time \<Rightarrow> step" where
  "renewal_round now s =
     (if \<not> is_quorum s \<or> \<not> is_coordinator s then ([], s)
      else case ge_election s of
        None \<Rightarrow> ([], s)
      | Some el \<Rightarrow>
          if el_role el \<noteq> Host then ([], s)
          else
            let epoch = el_epoch el;
                targets = (case el_voters el of None \<Rightarrow> []
                           | Some vs \<Rightarrow> filter (\<lambda>v. v \<noteq> ge_local s) (voters vs));
                (effects, s) = self_grant epoch now (open_round now s)
            in (effects @ map (send_lead s (Claim epoch (ge_local s))) targets, s))"


section \<open>Resignation\<close>

definition resign_epoch :: "group_engine \<Rightarrow> u64 option" where
  "resign_epoch s =
     (if \<not> is_quorum s then None
      else case ge_election s of
        None \<Rightarrow> None
      | Some el \<Rightarrow>
          (case el_role el of
             Host \<Rightarrow> Some (el_epoch el)
           | Claimant \<Rightarrow> map_option cl_epoch (el_claim el)
           | Follower \<Rightarrow> None))"

definition broadcast_resign :: "u64 \<Rightarrow> step" where
  "broadcast_resign epoch s =
     (let me = ge_local s;
          pending = (case quorum_voters s of None \<Rightarrow> {||}
                     | Some vs \<Rightarrow> fset_of_list (filter (\<lambda>v. v \<noteq> me) (voters vs)));
          s = upd_q (\<lambda>q. q\<lparr>q_resigning := Some (epoch, pending)\<rparr>) s
      in (map (send_lead s (Resign epoch me)) (claim_targets s), s))"

definition resend_resign :: "bool \<Rightarrow> group_engine \<Rightarrow> effect list" where
  "resend_resign anti_entropy_due s =
     (case Option.bind (quorum_of s) q_resigning of
        None \<Rightarrow> []
      | Some (epoch, pending) \<Rightarrow>
          if \<not> anti_entropy_due \<or> pending = {||} then []
          else map (send_lead s (Resign epoch (ge_local s))) (fset_list pending))"

definition note_resign_receipt :: "node_id \<Rightarrow> u64 \<Rightarrow> node_id option \<Rightarrow> group_engine \<Rightarrow> group_engine" where
  "note_resign_receipt from epoch host s =
     upd_q (\<lambda>q. case q_resigning q of
         None \<Rightarrow> q
       | Some (resigned, pending) \<Rightarrow>
           if epoch > resigned \<or> (epoch = resigned \<and> host \<noteq> Some (ge_local s))
           then q\<lparr>q_resigning := Some (resigned, pending |-| {|from|})\<rparr> else q) s"

definition resign_pending :: "group_engine \<Rightarrow> nat" where
  "resign_pending s =
     (case Option.bind (quorum_of s) q_resigning of None \<Rightarrow> 0 | Some (_, pending) \<Rightarrow> fcard pending)"

definition on_lead_resign :: "node_id \<Rightarrow> u64 \<Rightarrow> node_id \<Rightarrow> time \<Rightarrow> step" where
  "on_lead_resign from epoch host now s =
     (if from \<noteq> host \<or> \<not> is_quorum s then ([], s)
      else
        let s = upd_q (\<lambda>q. if q_granted q = Some (epoch, host)
                  then q\<lparr>q_resigned := True, q_grant_promise_until := min (q_grant_promise_until q) now\<rparr>
                  else q) s;
            receipt = (if is_voter s then [send_lead s (State epoch None) from] else [])
        in case ge_election s of
          None \<Rightarrow> (receipt, s)
        | Some el \<Rightarrow>
            let el = el\<lparr>el_highest_seen := max (el_highest_seen el) epoch\<rparr>
            in if el_epoch el = epoch \<and> el_host el = Some host
               then (LeadershipChanged epoch None # receipt, s\<lparr>ge_election := Some (el\<lparr>el_host := None\<rparr>)\<rparr>)
               else (receipt, s\<lparr>ge_election := Some el\<rparr>))"

definition election_on_leave :: step where
  "election_on_leave s =
     (let resigned = resign_epoch s
      in then_do
           (case engine_role s of
              Host \<Rightarrow> demote_host
            | Claimant \<Rightarrow> silently abandon_claim
            | Follower \<Rightarrow> skip)
           (case resigned of None \<Rightarrow> skip | Some epoch \<Rightarrow> broadcast_resign epoch) s)"


section \<open>The external anchor\<close>

definition external_claim_prompt :: "group_engine \<Rightarrow> u64 \<Rightarrow> bool \<Rightarrow> effect list" where
  "external_claim_prompt s epoch_hint anti_entropy_due =
     (if \<not> is_external s \<or> \<not> anti_entropy_due then [] else [AnchorClaimDue epoch_hint])"

definition external_renewal_prompt :: "group_engine \<Rightarrow> effect list" where
  "external_renewal_prompt s =
     (if \<not> is_external s \<or> \<not> is_coordinator s then []
      else [AnchorClaimDue (case ge_election s of None \<Rightarrow> 0 | Some el \<Rightarrow> el_epoch el)])"

definition on_anchor_activated :: "u64 \<Rightarrow> time \<Rightarrow> step" where
  "on_anchor_activated epoch lease_until s =
     (if ge_leaving s then ([], s)
      else case ge_election s of
        None \<Rightarrow> ([], s)
      | Some el \<Rightarrow>
          if \<not> el_is_external el then ([], s)
          else if epoch < el_highest_seen el then ([], s)
          else if el_epoch el = epoch
            \<and> (case el_host el of None \<Rightarrow> False | Some host \<Rightarrow> host \<noteq> ge_local s) then ([], s)
          else if el_role el = Host \<and> el_epoch el = epoch
          then ([], upd_el (\<lambda>el. el\<lparr>el_lease_until := max (el_lease_until el) lease_until\<rparr>) s)
          else activate epoch lease_until s)"

definition on_anchor_observed :: "u64 \<Rightarrow> node_id \<Rightarrow> step" where
  "on_anchor_observed epoch host s =
     (case ge_election s of
        None \<Rightarrow> ([], s)
      | Some el \<Rightarrow>
          if \<not> el_is_external el then ([], s)
          else if cmp_pair (group_str (ge_group s)) (epoch, Some host) (el_epoch el, el_host el) = Greater
          then if host = ge_local s then learn_self_named epoch s else adopt epoch (Some host) s
          else ([], s))"


section \<open>Ticks\<close>

definition tick_follower :: "time \<Rightarrow> bool \<Rightarrow> step" where
  "tick_follower now anti_entropy_due s =
     (case ge_election s of
        None \<Rightarrow> ([], s)
      | Some el \<Rightarrow>
          let guard = \<lparr>cg_leaving = ge_leaving s, cg_past_boot_guard = (now \<ge> el_no_claim_before el),
                       cg_top_ranked = is_coordinator s,
                       cg_adopted_host_is_self = (el_host el = Some (ge_local s))\<rparr>
          in if \<not> guard_opens guard then ([], s)
             else
               let epoch = sat_add (el_highest_seen el) 1
               in if el_is_external el then (external_claim_prompt s epoch anti_entropy_due, s)
                  else
                    let settle_at = time_saturating_add now (activation_window_ms el);
                        s = upd_el (\<lambda>el. el\<lparr>el_highest_seen := epoch, el_role := Claimant,
                              el_claim := Some \<lparr>cl_epoch = epoch, cl_settle_at = settle_at\<rparr>\<rparr>) s;
                        (effects, s) = quorum_open_round epoch now s
                    in (effects @ (if engine_role s = Claimant then broadcast_claim s epoch else []), s))"

definition tick_claimant :: "time \<Rightarrow> bool \<Rightarrow> step" where
  "tick_claimant now anti_entropy_due s =
     (case Option.bind (ge_election s) el_claim of
        None \<Rightarrow> ([], abandon_claim s)
      | Some claim \<Rightarrow>
          if \<not> is_coordinator s then ([], abandon_claim s)
          else if now \<ge> cl_settle_at claim
          then if is_quorum s then ([], abandon_claim s)
               else activate (cl_epoch claim) (time_saturating_add now (lease_ms_of s)) s
          else
            let (effects, s) = quorum_retry_self_grant (cl_epoch claim) now s
            in if engine_role s \<noteq> Claimant then (effects, s)
               else (effects @ (if anti_entropy_due then broadcast_claim s (cl_epoch claim) else []), s))"

definition beacon_targets :: "group_engine \<Rightarrow> node_id list \<times> group_engine" where
  "beacon_targets s =
     (let start = (case ge_election s of None \<Rightarrow> 0 | Some el \<Rightarrow> el_beacon_cursor el);
          (out, s) = rotated_targets start (gossip_fanout (ge_config s)) s
      in (out, upd_el (\<lambda>el. el\<lparr>el_beacon_cursor := start + of_nat (length out)\<rparr>) s))"

definition beacon :: step where
  "beacon s =
     (let (targets, s) = beacon_targets s
      in (case state_body s of None \<Rightarrow> [] | Some body \<Rightarrow> map (send_lead s body) targets, s))"

definition tick_host :: "time \<Rightarrow> bool \<Rightarrow> step" where
  "tick_host now anti_entropy_due s =
     (let lease_ms = lease_ms_of s;
          s = (if is_coordinator s \<and> is_settle s
               then upd_el (\<lambda>el. el\<lparr>el_lease_until := time_saturating_add now lease_ms\<rparr>) s else s)
      in if (case ge_election s of None \<Rightarrow> False | Some el \<Rightarrow> now \<ge> el_lease_until el)
         then demote_host s
         else if \<not> anti_entropy_due then ([], s)
         else then_do (renewal_round now)
                (then_do (\<lambda>s. (external_renewal_prompt s, s)) beacon) s)"

definition election_tick :: "time \<Rightarrow> bool \<Rightarrow> step" where
  "election_tick now anti_entropy_due s =
     then_do
       (case ge_election s of
          None \<Rightarrow> skip
        | Some el \<Rightarrow>
            (case el_role el of
               Follower \<Rightarrow> tick_follower now anti_entropy_due
             | Claimant \<Rightarrow> tick_claimant now anti_entropy_due
             | Host \<Rightarrow> tick_host now anti_entropy_due))
       (\<lambda>s. (resend_resign anti_entropy_due s, s)) s"


section \<open>Inbound frames\<close>

definition learn_claimant :: "node_id \<Rightarrow> time \<Rightarrow> step" where
  "learn_claimant claimant now s =
     (if claimant = ge_local s \<or> claimant |\<in>| fmdom (ge_members s) then ([], s)
      else
        let s = stamp claimant (s\<lparr>ge_members :=
                  fmupd claimant (member_new 0 Alive now) (ge_members s)\<rparr>)
        in membership_effects True s)"

definition outranked :: "group_engine \<Rightarrow> u64 \<Rightarrow> node_id \<Rightarrow> bool" where
  "outranked s epoch claimant =
     (case ge_election s of
        None \<Rightarrow> False
      | Some el \<Rightarrow> el_role el = Claimant
          \<and> (case el_claim el of
               None \<Rightarrow> False
             | Some c \<Rightarrow> cmp_pair (group_str (ge_group s)) (epoch, Some claimant)
                 (cl_epoch c, Some (ge_local s)) = Greater))"

definition repair_claimant :: "node_id \<Rightarrow> u64 \<Rightarrow> node_id \<Rightarrow> step" where
  "repair_claimant from epoch claimant s =
     (let stale = (case ge_election s of
                     None \<Rightarrow> False
                   | Some el \<Rightarrow> epoch < el_epoch el \<or> (epoch = el_epoch el \<and> el_host el \<noteq> None))
                  \<and> \<not> claim_is_renewal s epoch claimant
      in (case state_body s of
            None \<Rightarrow> []
          | Some body \<Rightarrow> if stale then [send_lead s body from] else [], s))"

definition on_lead_claim :: "node_id \<Rightarrow> u64 \<Rightarrow> node_id \<Rightarrow> time \<Rightarrow> step" where
  "on_lead_claim from epoch claimant now s =
     then_do (silently (upd_el (\<lambda>el. el\<lparr>el_highest_seen := max (el_highest_seen el) epoch\<rparr>)))
       (then_do (learn_claimant claimant now)
         (then_do (repair_claimant from epoch claimant)
           (then_do (on_claim_as_voter epoch claimant now)
             (silently (\<lambda>s. if outranked s epoch claimant then abandon_claim s else s))))) s"

definition on_lead_state :: "node_id \<Rightarrow> u64 \<Rightarrow> node_id option \<Rightarrow> step" where
  "on_lead_state from epoch host s0 =
     (let s = note_resign_receipt from epoch host s0
      in case ge_election s of
        None \<Rightarrow> ([], s)
      | Some el \<Rightarrow>
          (case cmp_pair (group_str (ge_group s)) (epoch, host) (el_epoch el, el_host el) of
             Greater \<Rightarrow> if host = Some (ge_local s) then learn_self_named epoch s else adopt epoch host s
           | Less \<Rightarrow> (case state_body s of None \<Rightarrow> [] | Some body \<Rightarrow> [send_lead s body from], s)
           | Equal \<Rightarrow> ([], s)))"

definition on_lead :: "node_id \<Rightarrow> frame \<Rightarrow> time \<Rightarrow> step" where
  "on_lead from f now s =
     (if ge_election s = None then ([], s)
      else case fr_lead f of
        Some (Claim epoch claimant) \<Rightarrow> on_lead_claim from epoch claimant now s
      | Some (State epoch host) \<Rightarrow> on_lead_state from epoch host s
      | Some (Grant epoch claimant granter) \<Rightarrow> on_lead_grant epoch claimant granter s
      | Some (Resign epoch host) \<Rightarrow> on_lead_resign from epoch host now s
      | None \<Rightarrow> ([], s))"

end
