(* ===== verification/Anchor.thy ===== *)
theory Anchor
  imports Group_Config
begin

text \<open>
  The external compare-and-set anchor (\<open>crates/groupnet-core/src/anchor.rs\<close>): the record a
  claimant writes into a linearizable store to become host, and the pure rules that decide what
  to write.
\<close>

record anchor_record =
  ar_epoch :: u64
  ar_host :: node_id
  ar_expires_at_wall_ms :: u64

definition stealable :: "anchor_record \<Rightarrow> u64 \<Rightarrow> u64 \<Rightarrow> bool" where
  "stealable rec now_wall_ms steal_margin_ms \<longleftrightarrow>
     now_wall_ms \<ge> sat_add (ar_expires_at_wall_ms rec) steal_margin_ms"

datatype claim_plan =
    Create anchor_record
  | Supersede anchor_record
  | Yield u64

record anchor_terms =
  at_ttl_ms :: u64
  at_steal_margin_ms :: u64

definition anchor_terms_of :: "hosted_config \<Rightarrow> anchor_terms option" where
  "anchor_terms_of hosted =
     (case hc_activation hosted of
        External steal_margin_ms \<Rightarrow>
          Some \<lparr>at_ttl_ms = hc_lease_ms hosted, at_steal_margin_ms = steal_margin_ms\<rparr>
      | _ \<Rightarrow> None)"

definition plan_claim ::
  "anchor_terms \<Rightarrow> node_id \<Rightarrow> u64 \<Rightarrow> anchor_record option \<Rightarrow> u64 \<Rightarrow> claim_plan" where
  "plan_claim terms local epoch_hint loaded now_wall_ms =
     (let expires_at_wall_ms = sat_add now_wall_ms (at_ttl_ms terms)
      in case loaded of
        None \<Rightarrow> Create \<lparr>ar_epoch = max epoch_hint 1, ar_host = local,
                       ar_expires_at_wall_ms = expires_at_wall_ms\<rparr>
      | Some current \<Rightarrow>
          let entitled = ar_host current = local
                \<or> stealable current now_wall_ms (at_steal_margin_ms terms)
          in if \<not> entitled
             then Yield (sat_add (ar_expires_at_wall_ms current) (at_steal_margin_ms terms))
             else Supersede \<lparr>ar_epoch = max (sat_add (ar_epoch current) 1) epoch_hint,
                             ar_host = local, ar_expires_at_wall_ms = expires_at_wall_ms\<rparr>)"

definition renewal_record :: "anchor_terms \<Rightarrow> node_id \<Rightarrow> u64 \<Rightarrow> u64 \<Rightarrow> anchor_record" where
  "renewal_record terms local epoch now_wall_ms =
     \<lparr>ar_epoch = epoch, ar_host = local,
      ar_expires_at_wall_ms = sat_add now_wall_ms (at_ttl_ms terms)\<rparr>"

definition ambiguous_applied ::
  "node_id \<Rightarrow> anchor_record \<Rightarrow> anchor_record option \<Rightarrow> bool" where
  "ambiguous_applied local attempted reread =
     (case reread of Some rec \<Rightarrow> ar_host rec = local \<and> rec = attempted | None \<Rightarrow> False)"


section \<open>The claim rule\<close>

lemma plan_claim_Create:
  "plan_claim terms local hint None now = Create r \<Longrightarrow>
     1 \<le> ar_epoch r \<and> hint \<le> ar_epoch r \<and> ar_host r = local"
  by (auto simp: plan_claim_def Let_def)

lemma plan_claim_Supersede:
  assumes "plan_claim terms local hint (Some cur) now = Supersede r"
  shows "ar_host r = local \<and> hint \<le> ar_epoch r \<and> ar_epoch cur \<le> ar_epoch r
    \<and> (ar_epoch cur \<noteq> u64_max \<longrightarrow> ar_epoch cur < ar_epoch r)
    \<and> (ar_host cur = local \<or> stealable cur now (at_steal_margin_ms terms))"
proof -
  have "ar_epoch cur < max (sat_add (ar_epoch cur) 1) hint" if "ar_epoch cur \<noteq> u64_max"
    using that sat_add_1_less_iff [of "ar_epoch cur"] by (simp add: less_max_iff_disj)
  with assms show ?thesis
    by (auto simp: plan_claim_def Let_def le_max_iff_disj split: if_splits)
qed

lemma unat_max: "unat (max a b) = max (unat a) (unat b)" for a b :: u64
  by (simp add: max_def word_le_nat_alt)


end
