(* ===== verification/Engine.thy ===== *)
theory Engine
  imports Election Anchor
begin

text \<open>
  The engine's construction and event entry points (\<open>engine/state.rs\<close>, \<open>engine/command.rs\<close>,
  \<open>engine/discovery.rs\<close>, \<open>quorum/recovery.rs\<close>): \<open>new\<close>, \<open>start\<close>, \<open>on_message\<close>, \<open>on_tick\<close>,
  \<open>apply\<close>, and the read accessors. One call is one step on the engine state.
\<close>


section \<open>Construction\<close>

definition initial_engine :: "group_id \<Rightarrow> node_id \<Rightarrow> node_id list \<Rightarrow> config \<Rightarrow> group_engine" where
  "initial_engine grp local seeds config =
     (let seed = engine_seed grp local
      in \<lparr>ge_group = grp, ge_local = local, ge_incarnation = 0, ge_leaving = False,
          ge_members = fmupd local (member_new 0 Alive time_zero) fmempty,
          ge_seeds = fset_of_list (filter (\<lambda>p. p \<noteq> local) seeds),
          ge_bootstrap_contacts = {||}, ge_targets = None, ge_ring = None,
          ge_index = index_default, ge_metadata = fmempty, ge_coordinator = None,
          ge_config = config, ge_next_anti_entropy = time_zero, ge_last_round = time_zero,
          ge_next_probe = time_zero, ge_probe_cursor = spread_cursor seed,
          ge_gossip_cursor = spread_cursor (mix64 seed), ge_rng = SplitMix seed,
          ge_pending = None, ge_relaying = fmempty, ge_now_hint = time_zero, ge_authored = {||},
          ge_change_clock = 1, ge_digest_peers = fmempty,
          ge_election = (case mode config of Hosted hosted \<Rightarrow> Some (election_new hosted)
                         | Eventual \<Rightarrow> None),
          ge_stats = net_stats_default\<rparr>)"

definition engine_new ::
  "group_id \<Rightarrow> node_id \<Rightarrow> node_id list \<Rightarrow> config \<Rightarrow> config_error + group_engine" where
  "engine_new grp local seeds config =
     (case validate config of
        Inl err \<Rightarrow> Inl err
      | Inr _ \<Rightarrow>
          let s = reindex local (restamp local 1 (initial_engine grp local seeds config))
          in Inr (s\<lparr>ge_coordinator := compute_coordinator s\<rparr>))"

datatype recovered_grant = RecoveredGrant "(u64 \<times> node_id) option"

definition recovered_none :: recovered_grant where
  "recovered_none = RecoveredGrant None"

definition recovered_granted :: "u64 \<Rightarrow> node_id \<Rightarrow> recovered_grant" where
  "recovered_granted epoch claimant = RecoveredGrant (Some (epoch, claimant))"

datatype recovering_engine = RecoveringEngine group_engine

definition recovering ::
  "group_id \<Rightarrow> node_id \<Rightarrow> node_id list \<Rightarrow> config \<Rightarrow> config_error + recovering_engine" where
  "recovering grp local seeds config = map_sum id RecoveringEngine (engine_new grp local seeds config)"

fun restore :: "recovering_engine \<Rightarrow> recovered_grant \<Rightarrow> group_engine" where
  "restore (RecoveringEngine s) (RecoveredGrant None) =
     upd_q (\<lambda>q. q\<lparr>q_grant_promise_until := time_zero\<rparr>) s"
| "restore (RecoveringEngine s) (RecoveredGrant (Some pair)) =
     upd_el (\<lambda>el. case el_quorum el of
         None \<Rightarrow> el
       | Some q \<Rightarrow> el\<lparr>el_highest_seen := max (el_highest_seen el) (fst pair),
                      el_quorum := Some (q\<lparr>q_granted := Some pair\<rparr>)\<rparr>) s"


section \<open>Reads\<close>

definition members_live :: "group_engine \<Rightarrow> node_id list" where
  "members_live s = map fst (filter (\<lambda>(_, m). m_status m \<noteq> Dead) (fentries (ge_members s)))"

definition member_status :: "group_engine \<Rightarrow> node_id \<Rightarrow> status option" where
  "member_status s node = map_option m_status (fmlookup (ge_members s) node)"

definition member_incarnation :: "group_engine \<Rightarrow> node_id \<Rightarrow> u64 option" where
  "member_incarnation s node = map_option m_incarnation (fmlookup (ge_members s) node)"

definition member_state_version :: "group_engine \<Rightarrow> node_id \<Rightarrow> u64 option" where
  "member_state_version s node = map_option m_max_state_version (fmlookup (ge_members s) node)"

definition node_entry_version :: "group_engine \<Rightarrow> node_id \<Rightarrow> str \<Rightarrow> u64 option" where
  "node_entry_version s node key = do {
     m \<leftarrow> fmlookup (ge_members s) node;
     e \<leftarrow> fmlookup (m_entries m) key;
     Some (se_version e)
   }"

definition member_statuses :: "group_engine \<Rightarrow> (node_id \<times> status) list" where
  "member_statuses s = map (\<lambda>(node, m). (node, m_status m)) (fentries (ge_members s))"

definition member_status_since :: "group_engine \<Rightarrow> node_id \<Rightarrow> (status \<times> time) option" where
  "member_status_since s node =
     map_option (\<lambda>m. (m_status m, m_status_since m)) (fmlookup (ge_members s) node)"

definition live_entry :: "group_engine \<Rightarrow> node_id \<Rightarrow> str \<Rightarrow> state_entry option" where
  "live_entry s node key = do {
     m \<leftarrow> fmlookup (ge_members s) node;
     e \<leftarrow> fmlookup (m_entries m) key;
     if se_tombstone e then None else Some e
   }"

definition node_entry :: "group_engine \<Rightarrow> node_id \<Rightarrow> str \<Rightarrow> bytes option" where
  "node_entry s node key = map_option se_value (live_entry s node key)"

definition node_entries :: "group_engine \<Rightarrow> node_id \<Rightarrow> (str \<times> bytes) list" where
  "node_entries s node =
     (case fmlookup (ge_members s) node of
        None \<Rightarrow> []
      | Some m \<Rightarrow> map (\<lambda>(k, e). (k, se_value e))
          (filter (\<lambda>(_, e). \<not> se_tombstone e) (fentries (m_entries m))))"

definition node_entry_expires_at :: "group_engine \<Rightarrow> node_id \<Rightarrow> str \<Rightarrow> time option" where
  "node_entry_expires_at s node key =
     (case live_entry s node key of
        None \<Rightarrow> None
      | Some e \<Rightarrow> if se_expires_at e \<noteq> time_max then Some (se_expires_at e) else None)"

definition BLOB_KEY :: str where
  "BLOB_KEY = ascii ''~blob''"

definition node_state :: "group_engine \<Rightarrow> node_id \<Rightarrow> bytes option" where
  "node_state s node = node_entry s node BLOB_KEY"

definition local_state :: "group_engine \<Rightarrow> bytes" where
  "local_state s = (case node_entry s (ge_local s) BLOB_KEY of None \<Rightarrow> [] | Some v \<Rightarrow> v)"

definition metadata_value :: "group_engine \<Rightarrow> str \<Rightarrow> str option" where
  "metadata_value s key = map_option vv_value (fmlookup (ge_metadata s) key)"


section \<open>Deadlines\<close>

definition next_deadline :: "group_engine \<Rightarrow> time" where
  "next_deadline s =
     (let at = min (min (ge_next_anti_entropy s) (ge_next_probe s)) (slow_deadline s);
          at = (case ge_pending s of None \<Rightarrow> at | Some p \<Rightarrow> min at (pp_deadline p))
      in case Option.bind (ge_election s) el_deadline of None \<Rightarrow> at | Some d \<Rightarrow> min at d)"

definition arm_timer :: step where
  "arm_timer s = ([ArmTimer (next_deadline s)], s)"

definition hear_time :: "time \<Rightarrow> group_engine \<Rightarrow> group_engine" where
  "hear_time now s = s\<lparr>ge_now_hint := max (ge_now_hint s) now\<rparr>"

definition start :: "time \<Rightarrow> step" where
  "start now s =
     (let s = hear_time now s;
          s = s\<lparr>ge_next_anti_entropy := time_saturating_add now (gossip_interval_ms (ge_config s)),
                ge_next_probe := time_saturating_add now (probe_interval_ms (ge_config s))\<rparr>;
          s = election_start now s
      in then_do (disseminate_digest now) arm_timer s)"


section \<open>Inbound frames\<close>

definition statuses_known :: "frame \<Rightarrow> bool" where
  "statuses_known f \<longleftrightarrow>
     (\<forall>code \<in> set (map nd_status (fr_digest f) @ map md_status (fr_members f)).
        status_from_wire code \<noteq> None)"

definition on_delta :: "node_id \<Rightarrow> frame \<Rightarrow> time \<Rightarrow> step" where
  "on_delta from f now s =
     (let carried = map (\<lambda>md. (md_node md, md_max_version md, md_entries md \<noteq> [])) (fr_members f);
          (effects, s) = merge_members (fr_members f) now s;
          wants = map (\<lambda>(node, advertised, _). \<lparr>nw_node = node, nw_have_version = advertised\<rparr>)
            (filter (\<lambda>(node, advertised, had_entries).
               had_entries \<and> node \<noteq> ge_local s
               \<and> (case fmlookup (ge_members s) node of None \<Rightarrow> False
                  | Some m \<Rightarrow> m_max_state_version m > advertised)) carried)
      in then_do (emit effects) (if wants \<noteq> [] then send_delta_request from wants else skip) s)"

definition on_ack :: "node_id \<Rightarrow> step" where
  "on_ack from s =
     (let s = clear_pending_if from s
      in case fmlookup (ge_relaying s) from of
        None \<Rightarrow> ([], s)
      | Some origins \<Rightarrow>
          let s = s\<lparr>ge_relaying := fmdrop from (ge_relaying s)\<rparr>
          in (map (\<lambda>origin. send_probe s origin IndirectAck (Some from)) (fset_list origins), s))"

definition on_ping_req :: "node_id \<Rightarrow> node_id option \<Rightarrow> step" where
  "on_ping_req from tgt s =
     (case tgt of
        None \<Rightarrow> ([], s)
      | Some target \<Rightarrow>
          if target = ge_local s then ([], s)
          else
            let origins = (case fmlookup (ge_relaying s) target of None \<Rightarrow> {||} | Some os \<Rightarrow> os);
                s = s\<lparr>ge_relaying := fmupd target (finsert from origins) (ge_relaying s)\<rparr>
            in ([send_probe s target Ping None], s))"

definition dispatch :: "node_id \<Rightarrow> frame \<Rightarrow> time \<Rightarrow> step" where
  "dispatch from f now s =
     (case fr_kind f of
        Digest \<Rightarrow> on_digest from f now s
      | DeltaRequest \<Rightarrow> on_delta_request from f now s
      | Delta \<Rightarrow> on_delta from f now s
      | Ping \<Rightarrow> ([send_probe s from Ack None], s)
      | Ack \<Rightarrow> on_ack from s
      | PingReq \<Rightarrow> on_ping_req from (fr_target f) s
      | IndirectAck \<Rightarrow>
          ([], case fr_target f of None \<Rightarrow> s | Some target \<Rightarrow> clear_pending_if target s)
      | _ \<Rightarrow> on_lead from f now s)"

definition on_message :: "node_id \<Rightarrow> bytes \<Rightarrow> time \<Rightarrow> step" where
  "on_message from bytes now s0 =
     (let s = hear_time now s0
      in case decode bytes of
        None \<Rightarrow> ([], s)
      | Some f \<Rightarrow>
          if fr_group f \<noteq> ge_group s then ([], s)
          else if \<not> statuses_known f then ([], s)
          else dispatch from f now s)"


section \<open>Ticks\<close>

definition expire_probe :: "time \<Rightarrow> step" where
  "expire_probe now s =
     (case ge_pending s of
        None \<Rightarrow> ([], s)
      | Some p \<Rightarrow>
          if \<not> now \<ge> pp_deadline p then ([], s)
          else case pp_phase p of
            Direct \<Rightarrow> escalate_indirect (pp_target p) now s
          | Indirect \<Rightarrow> suspect (pp_target p) now (s\<lparr>ge_pending := None\<rparr>))"

definition probe_round :: "time \<Rightarrow> step" where
  "probe_round now s =
     (if now \<ge> ge_next_probe s
      then probe now (s\<lparr>ge_next_probe := time_saturating_add now (probe_interval_ms (ge_config s))\<rparr>)
      else ([], s))"

definition gossip_and_election :: "time \<Rightarrow> step" where
  "gossip_and_election now s =
     (let anti_entropy_due = (now \<ge> ge_next_anti_entropy s)
      in then_do
           (if anti_entropy_due
            then (\<lambda>s. disseminate_digest now (s\<lparr>ge_next_anti_entropy :=
                   time_saturating_add now (gossip_interval_ms (ge_config s))\<rparr>))
            else skip)
           (election_tick now anti_entropy_due) s)"

definition on_tick :: "time \<Rightarrow> step" where
  "on_tick now s =
     (let s = hear_time now s;
          s = s\<lparr>ge_stats := (ge_stats s)\<lparr>ns_ticks := ns_ticks (ge_stats s) + 1\<rparr>\<rparr>
      in then_do (expire_probe now)
           (then_do (reap_suspects now)
             (then_do (reap_dead now)
               (then_do (reap_entries now)
                 (then_do (probe_round now)
                   (then_do (gossip_and_election now) arm_timer))))) s)"


section \<open>Commands\<close>

datatype command =
    UpdateMetadata str str
  | SetLocalState bytes
  | SetLocalEntry str bytes "u64 option"
  | DeleteLocalEntry str
  | Leave
  | AddPeer node_id
  | SetBootstrapContacts "node_id list"
  | AnchorActivated u64 time
  | AnchorObserved u64 node_id

definition author_entry :: "str \<Rightarrow> bytes \<Rightarrow> u64 \<Rightarrow> bool \<Rightarrow> step" where
  "author_entry key value ttl tombstone s =
     (case fmlookup (ge_members s) (ge_local s) of
        None \<Rightarrow> ([], s)
      | Some m \<Rightarrow>
          let version = sat_add (m_max_state_version m) 1;
              m = put_entry_due key (entry_adopted version value ttl tombstone (ge_now_hint s))
                    (reap_after s) (m\<lparr>m_max_state_version := version\<rparr>);
              s = s\<lparr>ge_members := fmupd (ge_local s) m (ge_members s),
                    ge_authored := finsert key (ge_authored s)\<rparr>;
              s = nudge_anti_entropy_now (stamp_self s)
          in then_do (emit [NodeStateChanged (ge_local s) key]) eager_push s)"

definition set_local_entry :: "str \<Rightarrow> bytes \<Rightarrow> u64 option \<Rightarrow> step" where
  "set_local_entry key value ttl_ms =
     author_entry key value (case ttl_ms of None \<Rightarrow> 0 | Some t \<Rightarrow> t) False"

definition delete_local_entry :: "str \<Rightarrow> step" where
  "delete_local_entry key = author_entry key [] 0 True"

definition update_metadata :: "str \<Rightarrow> str \<Rightarrow> step" where
  "update_metadata key value s =
     (let version = (case fmlookup (ge_metadata s) key of None \<Rightarrow> 1 | Some v \<Rightarrow> vv_version v + 1);
          s = s\<lparr>ge_metadata := fmupd key
                \<lparr>vv_value = value, vv_version = version, vv_writer = ge_local s\<rparr> (ge_metadata s)\<rparr>
      in ([MetadataChanged key value], nudge_anti_entropy_now s))"

definition leave :: step where
  "leave =
     then_do election_on_leave
       (then_do (silently (\<lambda>s.
           let s = s\<lparr>ge_leaving := True\<rparr>
           in stamp_self (case fmlookup (ge_members s) (ge_local s) of
                None \<Rightarrow> s
              | Some m \<Rightarrow> s\<lparr>ge_members := fmupd (ge_local s)
                  ((adopt_status Dead (ge_now_hint s) m)\<lparr>m_dead_since := ge_now_hint s\<rparr>)
                  (ge_members s)\<rparr>)))
         (then_do (emit [MembershipChanged])
           (then_do recompute_coordinator (silently nudge_anti_entropy_now))))"

definition add_peer :: "node_id \<Rightarrow> step" where
  "add_peer node s =
     (if node = ge_local s \<or> node |\<in>| fmdom (ge_members s) then ([], s)
      else
        let s = stamp node (s\<lparr>ge_members :=
                  fmupd node (member_new 0 Alive (ge_now_hint s)) (ge_members s)\<rparr>)
        in then_do (emit [MembershipChanged])
             (then_do recompute_coordinator (silently nudge_anti_entropy_now)) s)"

definition set_bootstrap_contacts :: "node_id list \<Rightarrow> group_engine \<Rightarrow> group_engine" where
  "set_bootstrap_contacts contacts s =
     (if length contacts > 4096 then s
      else
        let new = fset_of_list (filter (\<lambda>n. n \<noteq> ge_local s) contacts);
            old = ge_bootstrap_contacts s
        in if new = old then s
           else
             let gone = ffilter (\<lambda>n. n |\<notin>| ge_seeds s \<and> n |\<notin>| fmdom (ge_members s)) (old |-| new);
                 added = new |-| old;
                 peers = fmdrop_fset gone (ge_digest_peers s);
                 peers = fmmap_keys (\<lambda>n p. if n |\<in>| added then p\<lparr>pd_visits := 0, pd_cursor := 0\<rparr> else p) peers
             in nudge_anti_entropy
                  (s\<lparr>ge_digest_peers := peers, ge_bootstrap_contacts := new, ge_targets := None\<rparr>))"

fun apply_cmd :: "command \<Rightarrow> step" where
  "apply_cmd (UpdateMetadata key value) = update_metadata key value"
| "apply_cmd (SetLocalState state) = set_local_entry BLOB_KEY state None"
| "apply_cmd (SetLocalEntry key value ttl_ms) = set_local_entry key value ttl_ms"
| "apply_cmd (DeleteLocalEntry key) = delete_local_entry key"
| "apply_cmd Leave = leave"
| "apply_cmd (SetBootstrapContacts contacts) = silently (set_bootstrap_contacts contacts)"
| "apply_cmd (AddPeer node) = add_peer node"
| "apply_cmd (AnchorActivated epoch lease_until) = on_anchor_activated epoch lease_until"
| "apply_cmd (AnchorObserved epoch host) = on_anchor_observed epoch host"

end
