(* ===== verification/Step_Frame.thy ===== *)
theory Step_Frame
  imports Engine
begin

text \<open>
  What a step leaves alone. A property of steps that holds of doing nothing and of one step after
  another is the interface \<open>step_frame\<close>; its lemmas carry such a property through the
  sequencing every engine operation is built from. The first instance: gossip, merging and
  failure detection touch neither the election nor the ledger and put no election frame on the
  wire.
\<close>


section \<open>The interface\<close>

definition keeps :: "(group_engine \<Rightarrow> effect list \<Rightarrow> group_engine \<Rightarrow> bool) \<Rightarrow> step \<Rightarrow> bool" where
  "keeps R f \<longleftrightarrow> (\<forall>s. R s (fst (f s)) (snd (f s)))"

locale step_frame =
  fixes R :: "group_engine \<Rightarrow> effect list \<Rightarrow> group_engine \<Rightarrow> bool"
  assumes frame_refl: "R s [] s"
    and frame_trans: "\<lbrakk>R s e t; R t e' u\<rbrakk> \<Longrightarrow> R s (e @ e') u"
begin

lemma keepsD: "keeps R f \<Longrightarrow> f s = (e, t) \<Longrightarrow> R s e t"
  by (metis fst_conv keeps_def snd_conv)

lemma keeps_skip: "keeps R skip"
  by (simp add: keeps_def skip_def frame_refl)

lemma keeps_then_do: "\<lbrakk>keeps R f; keeps R g\<rbrakk> \<Longrightarrow> keeps R (then_do f g)"
  by (auto simp: keeps_def then_do_def case_prod_beta Let_def intro: frame_trans)

lemma keeps_for_each: "(\<And>x. keeps R (f x)) \<Longrightarrow> keeps R (for_each f xs)"
  by (induction xs) (auto intro: keeps_skip keeps_then_do)

lemma keeps_if: "\<lbrakk>keeps R f; keeps R g\<rbrakk> \<Longrightarrow> keeps R (if b then f else g)"
  by simp

lemma frame_then_do:
  "\<lbrakk>R s (fst (f s)) (snd (f s)); R (snd (f s)) (fst (g (snd (f s)))) (snd (g (snd (f s))))\<rbrakk>
     \<Longrightarrow> R s (fst (then_do f g s)) (snd (then_do f g s))"
  by (auto simp: then_do_def case_prod_beta Let_def intro: frame_trans)

lemma fold_frame:
  assumes "\<And>x s. R s [] (f x s)"
  shows "R s [] (fold f xs s)"
proof (induction xs arbitrary: s)
  case (Cons x xs)
  have "R s [] (f x s)" by (rule assms)
  from frame_trans [OF this Cons.IH] show ?case by simp
qed (simp add: frame_refl)

end


section \<open>Quiet steps\<close>

text \<open>The part of the state no gossip, merge or probe changes.\<close>

definition core :: "group_engine \<Rightarrow> group_id \<times> node_id \<times> config \<times> election option" where
  "core s = (ge_group s, ge_local s, ge_config s, ge_election s)"

text \<open>An effect that neither tells of the election nor carries an election frame.\<close>

fun quiet_effect :: "effect \<Rightarrow> bool" where
  "quiet_effect (Send to b) = (\<forall>f. decode b = Some f \<longrightarrow> fr_lead f = None)"
| "quiet_effect (LeadershipChanged _ _) = False"
| "quiet_effect (PersistGrant _ _) = False"
| "quiet_effect (AnchorClaimDue _) = False"
| "quiet_effect _ = True"

declare quiet_effect.simps(1) [simp del]

definition quiet :: "group_engine \<Rightarrow> effect list \<Rightarrow> group_engine \<Rightarrow> bool" where
  "quiet s e t \<longleftrightarrow> core t = core s \<and> (\<forall>x \<in> set e. quiet_effect x)"

interpretation qt: step_frame quiet
  by unfold_locales (auto simp: quiet_def)

lemma quietI: "core t = core s \<Longrightarrow> (\<And>x. x \<in> set e \<Longrightarrow> quiet_effect x) \<Longrightarrow> quiet s e t"
  by (simp add: quiet_def)

text \<open>A frame of another kind never decodes to an election frame, whatever it carries.\<close>

lemma decode_encode_kind:
  assumes "decode (encode f0) = Some f"
  shows "fr_kind f = fr_kind f0"
proof -
  from assms have "kind_to_u8 (fr_kind f) = kind_to_u8 (fr_kind f0)"
    by (auto simp: decode_Some_iff encode_def)
  then show ?thesis
    by (metis kind_from_u8_iff option.inject)
qed

lemma decoded_lead_None:
  "decode b = Some f \<Longrightarrow> fr_kind f \<notin> {LeadClaim, LeadGrant, LeadState, LeadResign} \<Longrightarrow> fr_lead f = None"
  by (auto simp: decode_Some_iff frame_ok_def body_ok_def split: kind.splits)

lemma quiet_Send_encode:
  "fr_kind f0 \<notin> {LeadClaim, LeadGrant, LeadState, LeadResign} \<Longrightarrow> quiet_effect (Send to (encode f0))"
  by (metis decode_encode_kind decoded_lead_None quiet_effect.simps(1))

lemma quiet_Send_empty_frame [simp]:
  "k \<notin> {LeadClaim, LeadGrant, LeadState, LeadResign} \<Longrightarrow> quiet_effect (Send to (encode (empty_frame k g t)))"
  by (rule quiet_Send_encode) (simp add: empty_frame_def)

lemma quiet_Send_digest [simp]: "quiet_effect (Send to (encode (digest_frame s ds ms)))"
  by (rule quiet_Send_encode) (simp add: digest_frame_def empty_frame_def)

lemma quiet_Send_members [simp]:
  "quiet_effect (Send to (encode ((empty_frame Delta g t)\<lparr>fr_members := ms\<rparr>)))"
  by (rule quiet_Send_encode) (simp add: empty_frame_def)

lemma quiet_Send_wants [simp]:
  "quiet_effect (Send to (encode ((empty_frame DeltaRequest g t)\<lparr>fr_wants := ws\<rparr>)))"
  by (rule quiet_Send_encode) (simp add: empty_frame_def)


section \<open>The index keeps the core\<close>

lemma core_update [simp]:
  "core (s\<lparr>ge_members := a\<rparr>) = core s"
  "core (s\<lparr>ge_index := b\<rparr>) = core s"
  "core (s\<lparr>ge_ring := c\<rparr>) = core s"
  "core (s\<lparr>ge_targets := d\<rparr>) = core s"
  "core (s\<lparr>ge_change_clock := e\<rparr>) = core s"
  "core (s\<lparr>ge_digest_peers := f\<rparr>) = core s"
  "core (s\<lparr>ge_coordinator := g\<rparr>) = core s"
  "core (s\<lparr>ge_next_anti_entropy := h\<rparr>) = core s"
  "core (s\<lparr>ge_last_round := h\<rparr>) = core s"
  "core (s\<lparr>ge_next_probe := h\<rparr>) = core s"
  "core (s\<lparr>ge_probe_cursor := i\<rparr>) = core s"
  "core (s\<lparr>ge_gossip_cursor := i\<rparr>) = core s"
  "core (s\<lparr>ge_rng := j\<rparr>) = core s"
  "core (s\<lparr>ge_pending := k\<rparr>) = core s"
  "core (s\<lparr>ge_relaying := l\<rparr>) = core s"
  "core (s\<lparr>ge_now_hint := h\<rparr>) = core s"
  "core (s\<lparr>ge_authored := m\<rparr>) = core s"
  "core (s\<lparr>ge_metadata := n\<rparr>) = core s"
  "core (s\<lparr>ge_incarnation := i\<rparr>) = core s"
  "core (s\<lparr>ge_leaving := p\<rparr>) = core s"
  "core (s\<lparr>ge_bootstrap_contacts := q\<rparr>) = core s"
  "core (s\<lparr>ge_stats := r\<rparr>) = core s"
  by (simp_all add: core_def)

lemma core_live_set_changed [simp]: "core (live_set_changed n b s) = core s"
  by (simp add: live_set_changed_def Let_def core_def)

lemma core_file_due [simp]: "core (file_due n a b s) = core s"
  by (simp add: file_due_def Let_def)

lemma core_file_score [simp]: "core (snd (file_score n w l s)) = core s"
  by (auto simp: file_score_def Let_def split: option.splits bool.splits)

lemma core_reindex [simp]: "core (reindex n s) = core s"
  by (simp add: reindex_def Let_def case_prod_beta split: option.splits)

lemma core_restamp [simp]: "core (restamp n k s) = core s"
  by (simp add: restamp_def Let_def core_def split: option.splits)

lemma core_stamp [simp]: "core (stamp n s) = core s" "core (stamp_self s) = core s"
  by (simp_all add: stamp_def stamp_self_def Let_def)

lemma core_forget [simp]: "core (forget n s) = core s"
  by (simp add: forget_def Let_def split: option.splits)


lemma core_fold: "(\<And>x s. core (f x s) = core s) \<Longrightarrow> core (fold f xs s) = core s"
  by (induction xs arbitrary: s) auto

lemma core_probe_ring [simp]: "core (snd (probe_ring s)) = core s"
  by (simp add: probe_ring_def split: option.splits)

lemma core_nudge [simp]: "core (nudge_anti_entropy s) = core s" "core (nudge_anti_entropy_now s) = core s"
  by (simp_all add: nudge_anti_entropy_def nudge_anti_entropy_now_def Let_def)


section \<open>Merging is quiet\<close>

lemma core_refresh_content_hash [simp]: "core (refresh_content_hash now n s) = core s"
  by (simp add: refresh_content_hash_def split: option.splits)

lemma core_apply_refutation [simp]: "core (snd (apply_refutation r s)) = core s"
  by (simp add: apply_refutation_def Let_def split: option.splits)

lemma core_merge_remote_liveness [simp]: "core (snd (merge_remote_liveness n i st now s)) = core s"
  by (simp add: merge_remote_liveness_def Let_def split: option.splits)

lemma core_merge_digest_line [simp]: "core (snd (snd (merge_digest_line now d acc))) = core (snd (snd acc))"
  by (simp add: merge_digest_line_def Let_def split: option.splits prod.splits)
     (metis core_merge_remote_liveness snd_conv)

lemma core_merge_digest_lines [simp]:
  "core (snd (snd (fold (merge_digest_line now) ds acc))) = core (snd (snd acc))"
  by (induction ds arbitrary: acc) auto

lemma keeps_quiet_silently: "(\<And>s. core (f s) = core s) \<Longrightarrow> keeps quiet (silently f)"
  by (simp add: keeps_def silently_def quiet_def)

lemma keeps_quiet_emit: "(\<And>x. x \<in> set es \<Longrightarrow> quiet_effect x) \<Longrightarrow> keeps quiet (emit es)"
  by (simp add: keeps_def emit_def quiet_def)

lemma keeps_quiet_recompute: "keeps quiet recompute_coordinator"
  by (simp add: keeps_def recompute_coordinator_def quiet_def Let_def)

lemmas quiet_rules =
  qt.keeps_skip qt.keeps_then_do qt.keeps_for_each qt.keeps_if keeps_quiet_silently
  keeps_quiet_emit keeps_quiet_recompute

lemma keeps_quiet_membership_effects: "keeps quiet (membership_effects b)"
  unfolding membership_effects_def by (auto intro!: quiet_rules)

lemma keeps_quietD: "keeps quiet f \<Longrightarrow> quiet s (fst (f s)) (snd (f s))"
  by (simp add: keeps_def)

lemma quiet_at:
  "\<lbrakk>keeps quiet f; core t = core s; r = f t\<rbrakk> \<Longrightarrow> quiet s (fst r) (snd r)"
  by (simp add: keeps_def quiet_def)

lemma keeps_quiet_merge_digest_liveness: "keeps quiet (merge_digest_liveness ds now)"
  unfolding keeps_def
proof
  fix s
  obtain c r t where f: "fold (merge_digest_line now) ds (False, None, s) = (c, r, t)"
    by (metis prod_cases3)
  with core_merge_digest_lines [of now ds "(False, None, s)"] have t: "core t = core s"
    by simp
  obtain b u where a: "apply_refutation r t = (b, u)" by fastforce
  with core_apply_refutation [of r t] t have "core u = core s" by simp
  moreover have "merge_digest_liveness ds now s = membership_effects (c \<or> b) u"
    by (simp add: merge_digest_liveness_def f a)
  ultimately show "quiet s (fst (merge_digest_liveness ds now s)) (snd (merge_digest_liveness ds now s))"
    by (rule quiet_at [OF keeps_quiet_membership_effects])
qed

lemma core_merge_own_entry [simp]: "core (snd (merge_own_entry now e acc)) = core (snd acc)"
  by (simp add: merge_own_entry_def Let_def split: option.splits prod.splits)

lemma core_merge_own_echo [simp]: "core (snd (merge_own_echo es now acc)) = core (snd acc)"
  unfolding merge_own_echo_def by (induction es arbitrary: acc) auto

lemma core_merge_peer_delta [simp]: "core (snd (snd (merge_peer_delta d st now s))) = core s"
  by (simp add: merge_peer_delta_def Let_def split: option.splits prod.splits)

lemma core_merge_delta [simp]: "core (snd (snd (snd (merge_delta now d acc)))) = core (snd (snd (snd acc)))"
proof -
  obtain c sc r s where acc: "acc = (c, sc, r, s)" by (cases acc) auto
  show ?thesis
    by (simp add: acc merge_delta_def Let_def split: option.splits prod.splits)
      (metis core_merge_own_echo core_merge_peer_delta snd_conv)
qed

lemma core_merge_deltas [simp]:
  "core (snd (snd (snd (fold (merge_delta now) ds acc)))) = core (snd (snd (snd acc)))"
  by (induction ds arbitrary: acc) auto

lemma keeps_quiet_merge_members: "keeps quiet (merge_members ds now)"
  unfolding keeps_def
proof
  fix s
  obtain c sc r t where f: "fold (merge_delta now) ds (False, [], None, s) = (c, sc, r, t)"
    by (metis prod_cases4)
  with core_merge_deltas [of now ds "(False, [], None, s)"] have t: "core t = core s"
    by simp
  obtain b u where a: "apply_refutation r t = (b, u)" by fastforce
  with core_apply_refutation [of r t] t have u: "core u = core s" by simp
  define g where "g = then_do (membership_effects (c \<or> b))
      (emit (map (\<lambda>(node, key). NodeStateChanged node key) sc))"
  have "keeps quiet g"
    unfolding g_def by (auto intro!: quiet_rules keeps_quiet_membership_effects)
  moreover have "merge_members ds now s = g u"
    by (simp add: merge_members_def f a g_def)
  ultimately show "quiet s (fst (merge_members ds now s)) (snd (merge_members ds now s))"
    using u by (metis quiet_at)
qed

lemma keeps_quiet_merge_metadata: "keeps quiet (merge_metadata ms)"
  unfolding merge_metadata_def
  by (rule qt.keeps_for_each) (simp add: keeps_def merge_meta_def quiet_def)



section \<open>Anti-entropy is quiet\<close>

lemma core_count [simp]:
  "core (count_digest_frame k s) = core s"
  "core (count_digest b k s) = core s"
  "core (count_delta_frames k l s) = core s"
  by (simp_all add: count_digest_frame_def count_digest_def count_delta_frames_def)

lemma core_rotated_targets [simp]: "core (snd (rotated_targets c k s)) = core s"
  by (simp add: rotated_targets_def cached_targets_def split: option.splits prod.splits)

lemma core_select_fanout_targets [simp]: "core (snd (select_fanout_targets s)) = core s"
  by (simp add: select_fanout_targets_def split: prod.splits) (metis core_rotated_targets snd_conv)

lemma keeps_quiet_liveness_notice: "keeps quiet (liveness_notice to about now)"
  by (simp add: keeps_def liveness_notice_def quiet_def Let_def split: option.splits)

lemma quiet_digest_chunks: "b \<in> set (digest_chunks s ms ds) \<Longrightarrow> quiet_effect (Send to b)"
proof (induction s ms ds arbitrary: b rule: digest_chunks.induct)
  case (1 s ms ds)
  then show ?case
    by (subst (asm) digest_chunks.simps)
       (auto simp: Let_def split: if_splits prod.splits)
qed

lemma core_digest_to [simp]: "core (snd (digest_to now to s)) = core s"
  by (simp add: digest_to_def Let_def core_fold split: prod.splits)

lemma keeps_quiet_digest_to: "keeps quiet (digest_to now to)"
  unfolding keeps_def quiet_def
  by (auto simp: digest_to_def Let_def build_digest_chunks_def core_fold quiet_digest_chunks
      split: prod.splits)

lemma keeps_quiet_disseminate_digest: "keeps quiet (disseminate_digest now)"
  unfolding keeps_def
proof
  fix s
  obtain ts t where f: "select_fanout_targets (s\<lparr>ge_last_round := now\<rparr>) = (ts, t)" by fastforce
  with core_select_fanout_targets [of "s\<lparr>ge_last_round := now\<rparr>"] have "core t = core s" by simp
  moreover have "disseminate_digest now s = for_each (digest_to now) ts t"
    by (simp add: disseminate_digest_def f)
  ultimately show "quiet s (fst (disseminate_digest now s)) (snd (disseminate_digest now s))"
    by (rule quiet_at [OF qt.keeps_for_each [OF keeps_quiet_digest_to]])
qed

lemma quiet_build_delta_frame: "build_delta_frame s ws now = Some b \<Longrightarrow> quiet_effect (Send to b)"
  by (auto simp: build_delta_frame_def Let_def split: if_splits)

lemma keeps_quiet_answer_delta: "keeps quiet (answer_delta to ws now)"
  by (auto simp: keeps_def answer_delta_def quiet_def quiet_build_delta_frame
      split: option.splits)

lemma keeps_quiet_send_delta_request: "keeps quiet (send_delta_request to ws)"
  by (simp add: keeps_def send_delta_request_def quiet_def Let_def)

lemma keeps_quiet_eager_push: "keeps quiet eager_push"
  unfolding keeps_def
proof
  fix s
  obtain ts t where f: "select_fanout_targets s = (ts, t)" by fastforce
  with core_select_fanout_targets [of s] have "core t = core s" by simp
  then show "quiet s (fst (eager_push s)) (snd (eager_push s))"
    by (auto simp: eager_push_def quiet_def Let_def f quiet_build_delta_frame
        split: option.splits)
qed

lemma keeps_quiet_exchange: "keeps quiet (exchange from ds now)"
proof -
  have "quiet s (fst (exchange from ds now s)) (snd (exchange from ds now s))" for s
    unfolding exchange_def Let_def
    by (rule keeps_quietD) (intro quiet_rules keeps_quiet_send_delta_request keeps_quiet_answer_delta)
  then show ?thesis by (simp add: keeps_def)
qed

lemma keeps_quiet_answer_doubt: "keeps quiet (answer_doubt from b i now)"
  using keeps_quietD [OF keeps_quiet_liveness_notice]
  by (auto simp: keeps_def answer_doubt_def qt.frame_refl)

lemma keeps_quiet_on_digest: "keeps quiet (on_digest from f now)"
proof -
  have "quiet s (fst (on_digest from f now s)) (snd (on_digest from f now s))" for s
    unfolding on_digest_def
    by (rule keeps_quietD)
       (intro quiet_rules keeps_quiet_merge_digest_liveness keeps_quiet_answer_doubt
         keeps_quiet_merge_metadata keeps_quiet_exchange core_fold core_refresh_content_hash)
  then show ?thesis by (simp add: keeps_def)
qed


section \<open>Failure detection is quiet\<close>

lemma quiet_send_probe [simp]:
  "k \<notin> {LeadClaim, LeadGrant, LeadState, LeadResign} \<Longrightarrow> quiet_effect (send_probe s to k t)"
  by (simp add: send_probe_def)

lemma keeps_quiet_probe: "keeps quiet (probe now)"
  by (simp add: keeps_def probe_def quiet_def Let_def split: prod.splits) (metis core_probe_ring snd_conv)

lemma quiet_suspect_tail:
  "keeps quiet (then_do (emit [MembershipChanged])
     (then_do recompute_coordinator
       (then_do (liveness_notice target target now) (silently nudge_anti_entropy))))"
  by (auto intro!: quiet_rules keeps_quiet_liveness_notice)

lemma keeps_quiet_suspect: "keeps quiet (suspect target now)"
  unfolding keeps_def
proof
  fix s
  show "quiet s (fst (suspect target now s)) (snd (suspect target now s))"
  proof (cases "fmlookup (ge_members s) target")
    case (Some m)
    show ?thesis
      unfolding suspect_def Let_def Some option.case
      by (auto intro!: qt.frame_refl quiet_at [OF quiet_suspect_tail _ refl]
          quiet_at [OF keeps_quiet_liveness_notice _ refl])
  qed (simp add: suspect_def Let_def qt.frame_refl)
qed

lemma keeps_quiet_escalate_indirect: "keeps quiet (escalate_indirect target now)"
  unfolding keeps_def
proof
  fix s
  obtain cs t where r: "probe_ring s = (cs, t)" by fastforce
  with core_probe_ring [of s] have t: "core t = core s" by simp
  show "quiet s (fst (escalate_indirect target now s)) (snd (escalate_indirect target now s))"
    unfolding escalate_indirect_def Let_def r prod.case
    by (auto simp: t quiet_def [of _ "map _ _"] split: prod.splits
        intro!: quiet_at [OF keeps_quiet_suspect _ refl])
qed

lemma keeps_quiet_accuse: "keeps quiet (accuse now node)"
  unfolding keeps_def accuse_def Let_def
  by (auto intro!: quiet_at [OF keeps_quiet_liveness_notice _ refl] split: option.splits)

lemma core_declare_dead [simp]: "core (declare_dead now n s) = core s"
  by (simp add: declare_dead_def Let_def split: option.splits)

lemma keeps_quiet_reap_suspects: "keeps quiet (reap_suspects now)"
proof -
  have "quiet s (fst (reap_suspects now s)) (snd (reap_suspects now s))" for s
    unfolding reap_suspects_def Let_def
    by (rule keeps_quietD)
       (auto intro!: quiet_rules keeps_quiet_accuse keeps_quiet_liveness_notice core_fold)
  then show ?thesis by (simp add: keeps_def)
qed

lemma keeps_quiet_reap_dead: "keeps quiet (reap_dead now)"
  by (simp add: keeps_def reap_dead_def Let_def quiet_def core_fold)

lemma keeps_quiet_reap_entries: "keeps quiet (reap_entries now)"
proof -
  have "keeps quiet (reap_member_entries now n)" for n
    by (auto simp: keeps_def reap_member_entries_def Let_def quiet_def split: option.splits prod.splits)
  then have "quiet s (fst (reap_entries now s)) (snd (reap_entries now s))" for s
    unfolding reap_entries_def by (intro keeps_quietD qt.keeps_for_each)
  then show ?thesis by (simp add: keeps_def)
qed



section \<open>Entry points\<close>

lemma core_hear_time [simp]: "core (hear_time now s) = core s"
  by (simp add: hear_time_def)

lemma core_clear_pending_if [simp]: "core (clear_pending_if n s) = core s"
  by (simp add: clear_pending_if_def split: option.splits)

lemma keeps_quiet_arm_timer: "keeps quiet arm_timer"
  by (simp add: keeps_def arm_timer_def quiet_def)

lemma keeps_quiet_expire_probe: "keeps quiet (expire_probe now)"
  unfolding keeps_def expire_probe_def
  by (auto intro!: qt.frame_refl quiet_at [OF keeps_quiet_escalate_indirect _ refl]
      quiet_at [OF keeps_quiet_suspect _ refl] split: option.splits probe_phase.splits)

lemma keeps_quiet_probe_round: "keeps quiet (probe_round now)"
  unfolding keeps_def probe_round_def
  by (auto intro!: qt.frame_refl quiet_at [OF keeps_quiet_probe _ refl])

text \<open>The part of a tick before the election's.\<close>

definition tick_gossip :: "time \<Rightarrow> bool \<Rightarrow> step" where
  "tick_gossip now due =
     (if due
      then (\<lambda>s. disseminate_digest now (s\<lparr>ge_next_anti_entropy :=
             time_saturating_add now (gossip_interval_ms (ge_config s))\<rparr>))
      else skip)"

lemma keeps_quiet_tick_gossip: "keeps quiet (tick_gossip now due)"
  unfolding keeps_def tick_gossip_def
  by (auto intro!: keeps_quietD [OF qt.keeps_skip] quiet_at [OF keeps_quiet_disseminate_digest _ refl])

lemma keeps_quiet_on_delta: "keeps quiet (on_delta from f now)"
  unfolding keeps_def
proof
  fix s
  obtain es t where m: "merge_members (fr_members f) now s = (es, t)" by fastforce
  with keeps_quiet_merge_members have q: "quiet s es t" by (metis qt.keepsD)
  have "quiet t (fst ((if ws \<noteq> [] then send_delta_request from ws else skip) t))
      (snd ((if ws \<noteq> [] then send_delta_request from ws else skip) t))" for ws
    by (intro keeps_quietD quiet_rules keeps_quiet_send_delta_request)
  from qt.frame_trans [OF q this]
  show "quiet s (fst (on_delta from f now s)) (snd (on_delta from f now s))"
    unfolding on_delta_def m prod.case Let_def then_do_def emit_def fst_conv snd_conv case_prod_beta .
qed

lemma keeps_quiet_on_ack: "keeps quiet (on_ack from)"
  by (auto simp: keeps_def on_ack_def Let_def quiet_def split: option.splits)

lemma keeps_quiet_on_ping_req: "keeps quiet (on_ping_req from tgt)"
  by (auto simp: keeps_def on_ping_req_def Let_def quiet_def split: option.splits)

lemma keeps_quiet_on_delta_request: "keeps quiet (on_delta_request from f now)"
  unfolding keeps_def on_delta_request_def
  by (simp add: keeps_quietD [OF keeps_quiet_answer_delta])

lemma on_lead_no_body: "fr_lead f = None \<Longrightarrow> on_lead from f now s = ([], s)"
  by (simp add: on_lead_def)

lemma dispatch_cases:
  "quiet s (fst (dispatch from f now s)) (snd (dispatch from f now s))
   \<or> fr_kind f \<in> {LeadClaim, LeadGrant, LeadState, LeadResign} \<and> dispatch from f now s = on_lead from f now s"
  unfolding dispatch_def
  by (auto split: kind.split option.splits
      intro!: keeps_quietD [OF keeps_quiet_on_digest] keeps_quietD [OF keeps_quiet_on_delta]
        keeps_quietD [OF keeps_quiet_on_ack] keeps_quietD [OF keeps_quiet_on_ping_req]
        keeps_quietD [OF keeps_quiet_on_delta_request]
        quietI)

text \<open>An inbound frame either is handed to the election or leaves it untouched.\<close>

lemma on_message_cases:
  obtains "quiet s (fst (on_message from b now s)) (snd (on_message from b now s))"
  | f where "decode b = Some f" "fr_group f = ge_group s"
      "on_message from b now s = on_lead from f now (hear_time now s)"
proof -
  have frame: "quiet s e t" if "quiet (hear_time now s) e t" for e t
    using that by (simp add: quiet_def)
  show ?thesis
  proof (cases "decode b")
    case None
    then show ?thesis by (intro that(1)) (simp add: on_message_def quiet_def)
  next
    case (Some f)
    show ?thesis
    proof (cases "fr_group f = ge_group s \<and> statuses_known f")
      case False
      with Some show ?thesis
        by (intro that(1)) (auto simp: on_message_def quiet_def hear_time_def core_def Let_def)
    next
      case True
      with Some have d: "on_message from b now s = dispatch from f now (hear_time now s)"
        by (auto simp: on_message_def hear_time_def Let_def)
      from dispatch_cases [of "hear_time now s" "from" f now] show ?thesis
        using that d frame Some True by metis
    qed
  qed
qed

lemma keeps_quiet_author_entry: "keeps quiet (author_entry k v ttl b)"
  unfolding keeps_def
proof
  fix s
  have tail: "keeps quiet (then_do (emit [NodeStateChanged n k]) eager_push)" for n
    by (auto intro!: quiet_rules keeps_quiet_eager_push)
  show "quiet s (fst (author_entry k v ttl b s)) (snd (author_entry k v ttl b s))"
    unfolding author_entry_def Let_def
    by (auto intro!: qt.frame_refl quiet_at [OF tail _ refl] split: option.splits)
qed

lemma keeps_quiet_update_metadata: "keeps quiet (update_metadata k v)"
  by (simp add: keeps_def update_metadata_def Let_def quiet_def)

lemma keeps_quiet_add_peer: "keeps quiet (add_peer n)"
  unfolding keeps_def
proof
  fix s
  have tail: "keeps quiet (then_do (emit [MembershipChanged])
      (then_do recompute_coordinator (silently nudge_anti_entropy_now)))"
    by (auto intro!: quiet_rules)
  show "quiet s (fst (add_peer n s)) (snd (add_peer n s))"
    unfolding add_peer_def Let_def
    by (auto intro!: qt.frame_refl quiet_at [OF tail _ refl])
qed

lemma keeps_quiet_learn_claimant: "keeps quiet (learn_claimant n now)"
  unfolding keeps_def learn_claimant_def Let_def
  by (auto intro!: qt.frame_refl quiet_at [OF keeps_quiet_membership_effects _ refl])

lemma core_set_bootstrap_contacts [simp]: "core (set_bootstrap_contacts ns s) = core s"
  by (simp add: set_bootstrap_contacts_def Let_def)

definition election_command :: "command \<Rightarrow> bool" where
  "election_command c = (case c of Leave \<Rightarrow> True | AnchorActivated _ _ \<Rightarrow> True
     | AnchorObserved _ _ \<Rightarrow> True | _ \<Rightarrow> False)"

lemma keeps_quiet_apply_cmd: "\<not> election_command c \<Longrightarrow> keeps quiet (apply_cmd c)"
  by (cases c)
     (auto simp: election_command_def set_local_entry_def delete_local_entry_def
       intro!: keeps_quiet_author_entry keeps_quiet_update_metadata keeps_quiet_add_peer
         keeps_quiet_silently)

text \<open>What \<open>leave\<close> does after it has resigned.\<close>

definition leave_tail :: step where
  "leave_tail =
     then_do (silently (\<lambda>s.
         let s = s\<lparr>ge_leaving := True\<rparr>
         in stamp_self (case fmlookup (ge_members s) (ge_local s) of
              None \<Rightarrow> s
            | Some m \<Rightarrow> s\<lparr>ge_members := fmupd (ge_local s)
                ((adopt_status Dead (ge_now_hint s) m)\<lparr>m_dead_since := ge_now_hint s\<rparr>)
                (ge_members s)\<rparr>)))
       (then_do (emit [MembershipChanged])
         (then_do recompute_coordinator (silently nudge_anti_entropy_now)))"

lemma leave_split: "leave = then_do election_on_leave leave_tail"
  by (simp add: leave_def leave_tail_def)

lemma keeps_quiet_leave_tail: "keeps quiet leave_tail"
  unfolding leave_tail_def
  by (auto intro!: quiet_rules simp: Let_def split: option.splits)

end
