(* ===== verification/Election_Frame.thy ===== *)
theory Election_Frame
  imports Step_Frame
begin

text \<open>
  What it takes to carry a property of one step over the entry points of the engine: everything
  outside the election is quiet, so a frame that holds of quiet steps only needs the election's
  own steps to be shown.
\<close>

locale election_frame = step_frame R for R :: "group_engine \<Rightarrow> effect list \<Rightarrow> group_engine \<Rightarrow> bool" +
  assumes frame_quiet: "quiet s e t \<Longrightarrow> R s e t"
begin

lemma keeps_quiet_frame: "keeps quiet f \<Longrightarrow> keeps R f"
  by (simp add: keeps_def frame_quiet)

lemma keeps_on_tick:
  assumes "\<And>due. keeps R (election_tick now due)"
  shows "keeps R (on_tick now)"
proof -
  have "keeps R (then_do (tick_gossip now b) (election_tick now b))" for b
    by (intro keeps_then_do keeps_quiet_frame [OF keeps_quiet_tick_gossip] assms)
  then have ge: "keeps R (gossip_and_election now)"
    by (simp add: keeps_def gossip_and_election_def tick_gossip_def Let_def)
  have "keeps R (then_do (silently (\<lambda>s. (hear_time now s)\<lparr>ge_stats := (ge_stats (hear_time now s))
        \<lparr>ns_ticks := ns_ticks (ge_stats (hear_time now s)) + 1\<rparr>\<rparr>))
      (then_do (expire_probe now) (then_do (reap_suspects now) (then_do (reap_dead now)
        (then_do (reap_entries now) (then_do (probe_round now)
          (then_do (gossip_and_election now) arm_timer)))))))"
    by (intro keeps_then_do ge keeps_quiet_frame keeps_quiet_expire_probe keeps_quiet_reap_suspects
        keeps_quiet_reap_dead keeps_quiet_reap_entries keeps_quiet_probe_round keeps_quiet_arm_timer
        keeps_quiet_silently) simp
  then show ?thesis
    by (simp add: keeps_def on_tick_def Let_def then_do_def [of "silently _"] silently_def case_prod_beta)
qed

lemma keeps_start:
  assumes "keeps R (silently (election_start now))"
  shows "keeps R (start now)"
proof -
  have "keeps R (then_do (silently (\<lambda>s. (hear_time now s)
        \<lparr>ge_next_anti_entropy := time_saturating_add now (gossip_interval_ms (ge_config s)),
         ge_next_probe := time_saturating_add now (probe_interval_ms (ge_config s))\<rparr>))
      (then_do (silently (election_start now)) (then_do (disseminate_digest now) arm_timer)))"
    by (intro keeps_then_do assms keeps_quiet_frame keeps_quiet_disseminate_digest keeps_quiet_arm_timer
        keeps_quiet_silently) simp
  then show ?thesis
    by (simp add: keeps_def start_def Let_def then_do_def [of "silently _"] silently_def case_prod_beta hear_time_def)
qed

lemma keeps_on_message:
  assumes "\<And>f. decode b = Some f \<Longrightarrow> keeps R (on_lead from f now)"
  shows "keeps R (on_message from b now)"
  unfolding keeps_def
proof
  fix s
  show "R s (fst (on_message from b now s)) (snd (on_message from b now s))"
  proof (cases rule: on_message_cases [of s "from" b now])
    case 1
    then show ?thesis by (rule frame_quiet)
  next
    case (2 f)
    have "R s [] (hear_time now s)" by (rule frame_quiet) (simp add: quiet_def)
    moreover have "R (hear_time now s) (fst (on_lead from f now (hear_time now s)))
        (snd (on_lead from f now (hear_time now s)))"
      using assms [OF 2(1)] by (simp add: keeps_def)
    ultimately have "R s ([] @ fst (on_lead from f now (hear_time now s)))
        (snd (on_lead from f now (hear_time now s)))"
      by (rule frame_trans)
    with 2(3) show ?thesis by simp
  qed
qed

lemma keeps_apply_cmd:
  assumes "keeps R election_on_leave"
    and "\<And>e l. c = AnchorActivated e l \<Longrightarrow> keeps R (on_anchor_activated e l)"
    and "\<And>e h. c = AnchorObserved e h \<Longrightarrow> keeps R (on_anchor_observed e h)"
  shows "keeps R (apply_cmd c)"
proof (cases "election_command c")
  case False
  then show ?thesis by (intro keeps_quiet_frame keeps_quiet_apply_cmd)
next
  case True
  have "keeps R leave"
    unfolding leave_split by (intro keeps_then_do assms keeps_quiet_frame keeps_quiet_leave_tail)
  with assms True show ?thesis by (cases c) (auto simp: election_command_def)
qed

end

end
