(* ===== verification/Quorum_Safety.thy ===== *)
theory Quorum_Safety
  imports Election_Frame
begin

text \<open>
  Why one quorum epoch has one host. Voters write every grant down before they answer
  (\<open>quorum.rs\<close>), a claimant activates only on a majority of the roster, and two majorities share a
  voter. The argument is carried out over whole engines: over every call of every engine of a
  group, over a network that loses, repeats and reorders frames, and over crashes that lose
  everything but the persisted grant.
\<close>


section \<open>What a batch of effects leaves on record\<close>

text \<open>
  The record of a run: every grant a voter persisted, as (voter, epoch, claimant), and every
  activation a node announced, as (epoch, node).
\<close>

record ledger_log =
  lg_grants :: "(node_id \<times> u64 \<times> node_id) set"
  lg_hosts :: "(u64 \<times> node_id) set"

fun log_effect :: "node_id \<Rightarrow> effect \<Rightarrow> ledger_log \<Rightarrow> ledger_log" where
  "log_effect n (PersistGrant e c) lg = lg\<lparr>lg_grants := insert (n, e, c) (lg_grants lg)\<rparr>"
| "log_effect n (LeadershipChanged e (Some m)) lg =
     (if m = n then lg\<lparr>lg_hosts := insert (e, n) (lg_hosts lg)\<rparr> else lg)"
| "log_effect n _ lg = lg"

definition log_effects :: "node_id \<Rightarrow> effect list \<Rightarrow> ledger_log \<Rightarrow> ledger_log" where
  "log_effects n es = fold (log_effect n) es"

lemma log_effects_simps [simp]:
  "log_effects n [] lg = lg"
  "log_effects n (x # xs) lg = log_effects n xs (log_effect n x lg)"
  "log_effects n (xs @ ys) lg = log_effects n ys (log_effects n xs lg)"
  by (simp_all add: log_effects_def)

text \<open>A majority of the roster stands behind \<open>n\<close> as host of epoch \<open>e\<close>.\<close>

definition backed :: "voter_roster \<Rightarrow> (node_id \<times> u64 \<times> node_id) set \<Rightarrow> u64 \<Rightarrow> node_id \<Rightarrow> bool" where
  "backed r H e n \<longleftrightarrow>
     (\<exists>Q \<subseteq> set (voters r). majority r \<le> card Q \<and> (\<forall>v \<in> Q. (v, e, n) \<in> H))"

lemma backed_mono: "backed r H e n \<Longrightarrow> H \<subseteq> H' \<Longrightarrow> backed r H' e n"
  unfolding backed_def by blast

lemma backed_unique:
  assumes one: "\<And>v e c c'. (v, e, c) \<in> H \<Longrightarrow> (v, e, c') \<in> H \<Longrightarrow> c = c'"
    and "backed r H e a" "backed r H e b"
  shows "a = b"
proof -
  from assms(2,3) obtain A B where
    A: "A \<subseteq> set (voters r)" "majority r \<le> card A" "\<And>v. v \<in> A \<Longrightarrow> (v, e, a) \<in> H" and
    B: "B \<subseteq> set (voters r)" "majority r \<le> card B" "\<And>v. v \<in> B \<Longrightarrow> (v, e, b) \<in> H"
    unfolding backed_def by blast
  from majorities_share_voter [OF A(1) B(1) A(2) B(2)] obtain v where "v \<in> A" "v \<in> B" by blast
  with A(3) B(3) one show ?thesis by blast
qed

text \<open>
  What every effect must respect: a grant frame repeats a persisted grant, and its own sender's newest
  one; a grant is persisted only above every epoch granted before; and an activation has its majority
  on record.
\<close>

definition newest :: "node_id \<Rightarrow> u64 \<Rightarrow> (node_id \<times> u64 \<times> node_id) set \<Rightarrow> bool" where
  "newest n e H \<longleftrightarrow> (\<forall>e' c'. (n, e', c') \<in> H \<longrightarrow> e' \<le> e)"

fun lawful :: "voter_roster \<Rightarrow> node_id \<Rightarrow> ledger_log \<Rightarrow> effect \<Rightarrow> bool" where
  "lawful r n lg (Send to b) =
     (\<forall>f e c g. decode b = Some f \<longrightarrow> fr_lead f = Some (Grant e c g) \<longrightarrow>
        (g, e, c) \<in> lg_grants lg \<and> (g = n \<longrightarrow> newest n e (lg_grants lg)))"
| "lawful r n lg (PersistGrant e c) = (node_ok c \<and> (\<forall>e' c'. (n, e', c') \<in> lg_grants lg \<longrightarrow> e' < e))"
| "lawful r n lg (LeadershipChanged e (Some m)) = (m = n \<longrightarrow> backed r (lg_grants lg) e n)"
| "lawful r n lg _ = True"

fun lawful_batch :: "voter_roster \<Rightarrow> node_id \<Rightarrow> ledger_log \<Rightarrow> effect list \<Rightarrow> bool" where
  "lawful_batch r n lg [] = True"
| "lawful_batch r n lg (x # xs) = (lawful r n lg x \<and> lawful_batch r n (log_effect n x lg) xs)"

declare lawful.simps(1) [simp del]

lemma lawful_batch_append [simp]:
  "lawful_batch r n lg (xs @ ys) \<longleftrightarrow> lawful_batch r n lg xs \<and> lawful_batch r n (log_effects n xs lg) ys"
  by (induction xs arbitrary: lg) auto

text \<open>Effects that only send frames other than grants.\<close>

definition mute :: "effect \<Rightarrow> bool" where
  "mute x = (case x of
     Send _ b \<Rightarrow> \<forall>f e c g. decode b = Some f \<longrightarrow> fr_lead f \<noteq> Some (Grant e c g)
   | PersistGrant _ _ \<Rightarrow> False
   | LeadershipChanged _ h \<Rightarrow> h = None
   | _ \<Rightarrow> True)"

lemma mute_lawful: "mute x \<Longrightarrow> lawful r n lg x \<and> log_effect n x lg = lg"
  by (cases x) (auto simp: mute_def lawful.simps(1))

lemma mute_batch:
  "(\<And>x. x \<in> set es \<Longrightarrow> mute x) \<Longrightarrow> lawful_batch r n lg es \<and> log_effects n es lg = lg"
  by (induction es) (auto simp: mute_lawful)

lemma quiet_effect_mute: "quiet_effect x \<Longrightarrow> mute x"
  by (cases x) (auto simp: mute_def quiet_effect.simps(1))

lemma mute_send_lead:
  assumes "lead_kind body \<noteq> LeadGrant"
  shows "mute (send_lead s body to)"
proof -
  have "fr_lead f \<noteq> Some (Grant e c g)" if "decode (encode (lead_frame s body)) = Some f" for f e c g
  proof
    assume "fr_lead f = Some (Grant e c g)"
    with that have "fr_kind f = LeadGrant"
      by (auto simp: decode_Some_iff frame_ok_def body_ok_def split: kind.splits if_splits)
    with decode_encode_kind [OF that] assms show False
      by (simp add: lead_frame_def empty_frame_def)
  qed
  then show ?thesis by (simp add: mute_def send_lead_def)
qed

lemma lawful_send_grant:
  assumes "group_ok (ge_group s)" "node_ok c" "node_ok g" "(g, e, c) \<in> lg_grants lg" "newest n e (lg_grants lg)"
  shows "lawful r n lg (send_lead s (Grant e c g) to)"
proof -
  have "frame_ok (lead_frame s (Grant e c g))"
    using assms(1-3) by (simp add: lead_frame_def empty_frame_def frame_ok_def body_ok_def opt_node_ok_def)
  from decode_encode [OF this] assms(4,5) show ?thesis
    by (auto simp: send_lead_def lawful.simps(1)) (simp_all add: lead_frame_def)
qed


section \<open>What an engine knows of the record\<close>

definition ledger_ok :: "node_id \<Rightarrow> ledger_log \<Rightarrow> (u64 \<times> node_id) option \<Rightarrow> bool" where
  "ledger_ok n lg granted =
     (case granted of
        None \<Rightarrow> \<forall>e c. (n, e, c) \<notin> lg_grants lg
      | Some (e0, c0) \<Rightarrow> (n, e0, c0) \<in> lg_grants lg \<and> node_ok c0
          \<and> (\<forall>e c. (n, e, c) \<in> lg_grants lg \<longrightarrow> e \<le> e0))"

definition round_ok :: "voter_roster \<Rightarrow> node_id \<Rightarrow> ledger_log \<Rightarrow> election \<Rightarrow> quorum_state \<Rightarrow> bool" where
  "round_ok r n lg el q \<longleftrightarrow>
     (\<forall>c. el_role el = Claimant \<longrightarrow> el_claim el = Some c \<longrightarrow>
        fset (q_round_grants q) \<subseteq> {v \<in> set (voters r). (v, cl_epoch c, n) \<in> lg_grants lg})"

definition host_ok :: "node_id \<Rightarrow> ledger_log \<Rightarrow> election \<Rightarrow> bool" where
  "host_ok n lg el \<longleftrightarrow> (el_role el = Host \<longrightarrow> (el_epoch el, n) \<in> lg_hosts lg)"

definition election_ok :: "voter_roster \<Rightarrow> node_id \<Rightarrow> ledger_log \<Rightarrow> election \<Rightarrow> bool" where
  "election_ok r n lg el \<longleftrightarrow> el_voters el = Some r \<and> host_ok n lg el
     \<and> (case el_quorum el of None \<Rightarrow> False
        | Some q \<Rightarrow> ledger_ok n lg (q_granted q) \<and> round_ok r n lg el q)"

lemma ledger_ok_hosts [simp]: "ledger_ok n (lg\<lparr>lg_hosts := K\<rparr>) g = ledger_ok n lg g"
  by (simp add: ledger_ok_def split: option.splits)

definition engine_ok :: "voter_roster \<Rightarrow> group_id \<Rightarrow> node_id \<Rightarrow> ledger_log \<Rightarrow> group_engine \<Rightarrow> bool" where
  "engine_ok r grp n lg s \<longleftrightarrow> ge_group s = grp \<and> ge_local s = n
     \<and> (\<exists>el. ge_election s = Some el \<and> election_ok r n lg el)"

definition safe :: "voter_roster \<Rightarrow> group_id \<Rightarrow> node_id
    \<Rightarrow> group_engine \<Rightarrow> effect list \<Rightarrow> group_engine \<Rightarrow> bool" where
  "safe r grp n s es t \<longleftrightarrow>
     (\<forall>lg. engine_ok r grp n lg s \<longrightarrow>
        lawful_batch r n lg es \<and> engine_ok r grp n (log_effects n es lg) t)"

lemma engine_ok_core: "core t = core s \<Longrightarrow> engine_ok r grp n lg t \<longleftrightarrow> engine_ok r grp n lg s"
  by (simp add: engine_ok_def core_def)

lemma quiet_safe: "quiet s es t \<Longrightarrow> safe r grp n s es t"
  unfolding safe_def quiet_def
  using mute_batch [of es] quiet_effect_mute engine_ok_core [of t s] by auto

interpretation sf: election_frame "safe r grp n" for r grp n
proof
  show "quiet s e t \<Longrightarrow> safe r grp n s e t" for s e t by (rule quiet_safe)
qed (simp_all add: safe_def)

lemma mute_safe:
  assumes "\<And>x. x \<in> set es \<Longrightarrow> mute x"
    and "\<And>lg. engine_ok r grp n lg s \<Longrightarrow> engine_ok r grp n lg t"
  shows "safe r grp n s es t"
  unfolding safe_def using assms mute_batch [of es] by auto


text \<open>The same for one given record.\<close>

definition safe_at :: "voter_roster \<Rightarrow> group_id \<Rightarrow> node_id \<Rightarrow> ledger_log
    \<Rightarrow> effect list \<times> group_engine \<Rightarrow> bool" where
  "safe_at r grp n lg res \<longleftrightarrow>
     lawful_batch r n lg (fst res) \<and> engine_ok r grp n (log_effects n (fst res) lg) (snd res)"

lemma keeps_safe_iff:
  "keeps (safe r grp n) f \<longleftrightarrow> (\<forall>lg s. engine_ok r grp n lg s \<longrightarrow> safe_at r grp n lg (f s))"
  by (auto simp: keeps_def safe_def safe_at_def)

lemma safe_at_then_do:
  assumes "safe_at r grp n lg (f s)"
    and "safe_at r grp n (log_effects n (fst (f s)) lg) (g (snd (f s)))"
  shows "safe_at r grp n lg (then_do f g s)"
  using assms by (simp add: safe_at_def then_do_def case_prod_beta Let_def)

lemma safe_at_keeps: "keeps (safe r grp n) f \<Longrightarrow> engine_ok r grp n lg s \<Longrightarrow> safe_at r grp n lg (f s)"
  by (simp add: keeps_safe_iff)

lemma safe_at_mute:
  "engine_ok r grp n lg t \<Longrightarrow> (\<And>x. x \<in> set es \<Longrightarrow> mute x) \<Longrightarrow> safe_at r grp n lg (es, t)"
  using mute_batch [of es r n lg] by (simp add: safe_at_def)

lemma safe_at_append:
  "\<lbrakk>safe_at r grp n lg (es, t); \<And>x. x \<in> set es' \<Longrightarrow> mute x\<rbrakk> \<Longrightarrow> safe_at r grp n lg (es @ es', t)"
  using mute_batch [of es' r n] by (simp add: safe_at_def)


section \<open>Election updates\<close>

lemmas ok_defs = election_ok_def host_ok_def round_ok_def el_voters_def

lemma engine_okE:
  assumes "engine_ok r grp n lg s"
  obtains el q where "ge_group s = grp" "ge_local s = n" "ge_election s = Some el"
    "el_quorum el = Some q" "el_voters el = Some r" "election_ok r n lg el"
    "ledger_ok n lg (q_granted q)" "round_ok r n lg el q"
    "quorum_of s = Some q" "quorum_voters s = Some r" "is_quorum s"
    "\<not> el_is_external el" "\<not> closes_on_window el"
proof -
  from assms obtain el where el: "ge_group s = grp" "ge_local s = n" "ge_election s = Some el"
    "election_ok r n lg el"
    by (auto simp: engine_ok_def)
  then obtain q where q: "el_quorum el = Some q" "el_voters el = Some r"
    "ledger_ok n lg (q_granted q)" "round_ok r n lg el q"
    by (auto simp: election_ok_def split: option.splits)
  moreover from el q have "quorum_of s = Some q" "quorum_voters s = Some r" "is_quorum s"
    by (simp_all add: quorum_of_def quorum_voters_def is_quorum_def)
  moreover from q(2) have "\<not> el_is_external el" "\<not> closes_on_window el"
    by (simp_all add: el_voters_def el_is_external_def closes_on_window_def split: activation.splits)
  ultimately show thesis using that el by blast
qed

lemma engine_ok_not_external: "engine_ok r grp n lg s \<Longrightarrow> ge_election s = Some el \<Longrightarrow> \<not> el_is_external el"
  by (auto elim!: engine_okE)

lemma engine_ok_upd_el:
  "\<lbrakk>engine_ok r grp n lg s; \<And>el. ge_election s = Some el \<Longrightarrow> election_ok r n lg el \<Longrightarrow> election_ok r n lg (f el)\<rbrakk>
     \<Longrightarrow> engine_ok r grp n lg (upd_el f s)"
  by (auto simp: engine_ok_def upd_el_def)

lemma engine_ok_Some:
  "\<lbrakk>engine_ok r grp n lg s; election_ok r n lg el\<rbrakk> \<Longrightarrow> engine_ok r grp n lg (s\<lparr>ge_election := Some el\<rparr>)"
  by (simp add: engine_ok_def)

lemma engine_ok_abandon: "engine_ok r grp n lg s \<Longrightarrow> engine_ok r grp n lg (abandon_claim s)"
  unfolding abandon_claim_def by (rule engine_ok_upd_el) (auto simp: ok_defs split: option.splits)

lemma keeps_safe_demote_host: "keeps (safe r grp n) demote_host"
  unfolding keeps_safe_iff
proof (intro allI impI)
  fix lg s
  assume ok: "engine_ok r grp n lg s"
  then obtain el where el: "ge_election s = Some el" "election_ok r n lg el" by (auto elim: engine_okE)
  then have "election_ok r n lg (el\<lparr>el_role := Follower, el_host := None\<rparr>)"
    by (auto simp: ok_defs split: option.splits)
  with ok el(1) show "safe_at r grp n lg (demote_host s)"
    by (auto simp: demote_host_def intro!: safe_at_mute engine_ok_Some) (simp add: mute_def)
qed

lemma safe_at_adopt:
  assumes ok: "engine_ok r grp n lg s" and "host \<noteq> Some n"
  shows "safe_at r grp n lg (adopt epoch host s)"
proof -
  from ok obtain el where el: "ge_election s = Some el" "election_ok r n lg el" by (auto elim: engine_okE)
  have host: "lawful_batch r n lg [LeadershipChanged epoch host]
      \<and> log_effects n [LeadershipChanged epoch host] lg = lg"
    using assms(2) by (cases host) auto
  have "engine_ok r grp n lg (snd (adopt epoch host s))"
    using el ok by (auto simp: adopt_def Let_def ok_defs intro!: engine_ok_Some split: option.splits)
  with host el(1) show ?thesis
    by (auto simp: safe_at_def adopt_def Let_def)
qed

lemma keeps_safe_learn_self_named: "keeps (safe r grp n) (learn_self_named epoch)"
  unfolding keeps_safe_iff
proof (intro allI impI)
  fix lg s
  assume ok: "engine_ok r grp n lg s"
  then obtain el where el: "ge_election s = Some el" "election_ok r n lg el" by (auto elim: engine_okE)
  then have "engine_ok r grp n lg (snd (learn_self_named epoch s))"
    using ok by (auto simp: learn_self_named_def Let_def ok_defs intro!: engine_ok_Some split: option.splits)
  moreover have "mute x" if "x \<in> set (fst (learn_self_named epoch s))" for x
    using that el by (auto simp: learn_self_named_def Let_def mute_def split: if_splits)
  ultimately show "safe_at r grp n lg (learn_self_named epoch s)"
    by (metis prod.collapse safe_at_mute)
qed

lemma safe_at_activate:
  assumes ok: "engine_ok r grp n lg s" and "backed r (lg_grants lg) epoch n"
  shows "safe_at r grp n lg (activate epoch lease s)"
proof -
  from ok obtain el where el: "ge_election s = Some el" "election_ok r n lg el" "ge_local s = n"
    by (auto elim: engine_okE)
  define lg' where "lg' = log_effect n (LeadershipChanged epoch (Some n)) lg"
  let ?t = "snd (activate epoch lease s)"
  have t: "engine_ok r grp n lg' ?t"
    using ok el by (auto simp: activate_def Let_def upd_el_def engine_ok_def lg'_def ok_defs
        split: option.splits)
  have "fst (activate epoch lease s) = LeadershipChanged epoch (Some n) # broadcast_state ?t"
    using el(3) by (simp add: activate_def Let_def upd_el_def)
  moreover have "mute x" if "x \<in> set (broadcast_state ?t)" for x
    using that by (auto simp: broadcast_state_def state_body_def mute_send_lead split: option.splits)
  ultimately show ?thesis
    using t assms(2) mute_batch [of "broadcast_state ?t" r n lg'] by (auto simp: safe_at_def lg'_def)
qed



section \<open>Grants\<close>

definition log_grant :: "verdict \<Rightarrow> u64 \<Rightarrow> node_id \<Rightarrow> effect list" where
  "log_grant v epoch c = (if v = Fresh then [PersistGrant epoch c] else [])"

lemma election_ok_persist:
  assumes "election_ok r n lg el" "el_quorum el = Some q" "node_ok c"
    and above: "\<And>e c. (n, e, c) \<in> lg_grants lg \<Longrightarrow> e < epoch"
  shows "election_ok r n (log_effect n (PersistGrant epoch c) lg)
    (el\<lparr>el_quorum := Some (q\<lparr>q_granted := Some (epoch, c), q_resigned := b, q_grant_promise_until := u\<rparr>)\<rparr>)"
proof -
  from above have "ledger_ok n (log_effect n (PersistGrant epoch c) lg) (Some (epoch, c))"
    using assms(3) by (auto simp: ledger_ok_def intro: less_imp_le)
  with assms(1,2) show ?thesis by (auto simp: ok_defs)
qed

lemma ledger_ok_above:
  assumes "ledger_ok n lg granted"
    and "grant_verdict leaving granted resigned until now epoch c = Fresh"
    and "(n, e', c') \<in> lg_grants lg"
  shows "e' < epoch"
  using assms by (fastforce simp: ledger_ok_def grant_verdict_def split: option.splits if_splits prod.splits)

lemma ledger_ok_repeat:
  assumes "ledger_ok n lg granted"
    and "grant_verdict leaving granted resigned until now epoch c = Repeat"
  shows "(n, epoch, c) \<in> lg_grants lg \<and> newest n epoch (lg_grants lg)"
  using assms by (auto simp: ledger_ok_def grant_verdict_def newest_def split: option.splits if_splits)

text \<open>The role and claim of an engine: what a ledger update leaves alone.\<close>

definition seat :: "group_engine \<Rightarrow> (role \<times> claim option \<times> u64) option" where
  "seat s = map_option (\<lambda>el. (el_role el, el_claim el, el_epoch el)) (ge_election s)"

lemma seat_upd_q [simp]: "seat (upd_q f s) = seat s"
  by (simp add: seat_def upd_q_def upd_el_def option.map_comp comp_def)

lemma ge_upd_el [simp]: "ge_local (upd_el f s) = ge_local s" "ge_group (upd_el f s) = ge_group s"
  "ge_local (upd_q g s) = ge_local s" "ge_group (upd_q g s) = ge_group s"
  by (simp_all add: upd_el_def upd_q_def)

lemma record_grant_ok:
  assumes ok: "engine_ok r grp n lg s" and c: "node_ok c"
    and g: "record_grant epoch c now s = (v, t)"
  shows "seat t = seat s"
    and "v = Refuse \<Longrightarrow> t = s"
    and "v \<noteq> Refuse \<Longrightarrow> n \<in> set (voters r) \<and> safe_at r grp n lg (log_grant v epoch c, t)
      \<and> (n, epoch, c) \<in> lg_grants (log_effects n (log_grant v epoch c) lg)
      \<and> newest n epoch (lg_grants (log_effects n (log_grant v epoch c) lg))"
proof -
  from ok obtain el q where el: "ge_election s = Some el" "el_quorum el = Some q" "quorum_of s = Some q"
    "ledger_ok n lg (q_granted q)" "election_ok r n lg el" "ge_local s = n" "quorum_voters s = Some r"
    by (rule engine_okE)
  define w where "w = grant_verdict (ge_leaving s) (q_granted q) (q_resigned q)
    (q_grant_promise_until q) now epoch c"
  define until where "until = time_saturating_add now (lease_ms_of s)"
  show "seat t = seat s" "v = Refuse \<Longrightarrow> t = s"
    using g el(3) by (auto simp: record_grant_def Let_def split: if_splits verdict.splits)
  assume v: "v \<noteq> Refuse"
  with g el(3) have voter: "is_voter s" and wv: "w = v"
    and t: "t = upd_q (if v = Fresh then (\<lambda>q. q\<lparr>q_granted := Some (epoch, c), q_resigned := False,
              q_grant_promise_until := until\<rparr>) else (\<lambda>q. q\<lparr>q_grant_promise_until := until\<rparr>)) s"
    by (auto simp: record_grant_def Let_def w_def until_def split: if_splits verdict.splits)
  from voter el have n: "n \<in> set (voters r)"
    by (simp add: is_voter_def roster_contains_def)
  show "n \<in> set (voters r) \<and> safe_at r grp n lg (log_grant v epoch c, t)
      \<and> (n, epoch, c) \<in> lg_grants (log_effects n (log_grant v epoch c) lg)
      \<and> newest n epoch (lg_grants (log_effects n (log_grant v epoch c) lg))"
  proof (cases "v = Fresh")
    case True
    with wv have above: "\<And>e c'. (n, e, c') \<in> lg_grants lg \<Longrightarrow> e < epoch"
      unfolding w_def by (intro ledger_ok_above [OF el(4)]) auto
    from election_ok_persist [OF el(5,2) c above] ok el True
    have "engine_ok r grp n (log_effect n (PersistGrant epoch c) lg) t"
      by (simp add: engine_ok_def t upd_q_def upd_el_def)
    with above n c True show ?thesis
      by (auto simp: safe_at_def log_grant_def newest_def intro: less_imp_le)
  next
    case False
    with v have "v = Repeat" by (cases v) auto
    with wv have "(n, epoch, c) \<in> lg_grants lg \<and> newest n epoch (lg_grants lg)"
      unfolding w_def by (intro ledger_ok_repeat [OF el(4)]) auto
    moreover have "engine_ok r grp n lg t"
      using ok el False unfolding t upd_q_def
      by (intro engine_ok_upd_el) (auto simp: ok_defs)
    ultimately show ?thesis
      using n False by (simp add: safe_at_def log_grant_def)
  qed
qed


lemma floor_answer_lawful:
  assumes ok: "engine_ok r grp n lg s" and "group_ok grp" "node_ok n"
  shows "safe_at r grp n lg (floor_answer s epoch c, s)"
proof -
  from ok obtain el q where el: "quorum_of s = Some q" "ledger_ok n lg (q_granted q)" "ge_local s = n"
    "ge_group s = grp"
    by (rule engine_okE)
  have "lawful r n lg (send_lead s (Grant ge gc n) c)" if "q_granted q = Some (ge, gc)" for ge gc
    using that el assms(2,3) by (intro lawful_send_grant) (auto simp: ledger_ok_def newest_def)
  moreover have "log_effect n (send_lead s b c) lg = lg" for b
    by (simp add: send_lead_def)
  ultimately show ?thesis
    using ok el by (auto simp: safe_at_def floor_answer_def voter_grant_def split: option.splits)
qed

lemma keeps_safe_on_claim_as_voter:
  assumes "group_ok grp" "node_ok n" "node_ok c"
  shows "keeps (safe r grp n) (on_claim_as_voter epoch c now)"
  unfolding keeps_safe_iff
proof (intro allI impI)
  fix lg s
  assume ok: "engine_ok r grp n lg s"
  obtain v t where g: "record_grant epoch c now s = (v, t)" by fastforce
  note rg = record_grant_ok [OF ok assms(3) g]
  show "safe_at r grp n lg (on_claim_as_voter epoch c now s)"
  proof (cases "v = Refuse")
    case True
    with rg floor_answer_lawful [OF ok assms(1,2)] show ?thesis
      by (simp add: on_claim_as_voter_def g)
  next
    case False
    define lg' where "lg' = log_effects n (log_grant v epoch c) lg"
    from rg(3) [OF False] have t: "engine_ok r grp n lg' t" "(n, epoch, c) \<in> lg_grants lg'"
      "newest n epoch (lg_grants lg')" "lawful_batch r n lg (log_grant v epoch c)"
      by (auto simp: safe_at_def lg'_def)
    then have "ge_local t = n" "ge_group t = grp" by (auto simp: engine_ok_def)
    with t assms have "lawful r n lg' (send_lead t (Grant epoch c (ge_local t)) c)"
      by (intro lawful_send_grant) auto
    moreover have "log_effect n (send_lead t b c) lg' = lg'" for b
      by (simp add: send_lead_def)
    moreover have "on_claim_as_voter epoch c now s =
        (log_grant v epoch c @ [send_lead t (Grant epoch c (ge_local t)) c], t)"
      using False by (simp add: on_claim_as_voter_def g log_grant_def)
    ultimately show ?thesis
      using t by (simp add: safe_at_def lg'_def)
  qed
qed

text \<open>A claim stands for exactly the epoch whose round is counted.\<close>

definition counts_for :: "u64 \<Rightarrow> group_engine \<Rightarrow> bool" where
  "counts_for epoch s \<longleftrightarrow>
     (\<forall>rl cl e. seat s = Some (rl, cl, e) \<longrightarrow> rl = Claimant \<longrightarrow> (\<exists>c. cl = Some c \<and> cl_epoch c = epoch))"

lemma safe_at_close_round:
  assumes ok: "engine_ok r grp n lg s" and stand: "counts_for epoch s"
  shows "safe_at r grp n lg (close_round_if_majority epoch s)"
proof -
  from ok obtain el q where el: "ge_election s = Some el" "el_quorum el = Some q" "el_voters el = Some r"
    "round_ok r n lg el q"
    by (rule engine_okE)
  have stay: "safe_at r grp n lg ([], t)" if "engine_ok r grp n lg t" for t
    using that by (simp add: safe_at_def)
  show ?thesis
  proof (cases "fcard (q_round_grants q) < majority r")
    case True
    with el stay ok show ?thesis by (simp add: close_round_if_majority_def)
  next
    case False
    show ?thesis
    proof (cases "el_role el")
      case Claimant
      with stand el obtain c where c: "el_claim el = Some c" "cl_epoch c = epoch"
        by (auto simp: counts_for_def seat_def)
      with el(4) Claimant have "fset (q_round_grants q) \<subseteq> {v \<in> set (voters r). (v, epoch, n) \<in> lg_grants lg}"
        by (simp add: round_ok_def)
      with False have "backed r (lg_grants lg) epoch n"
        unfolding backed_def by (intro exI [of _ "fset (q_round_grants q)"]) (auto simp: fcard.rep_eq)
      from safe_at_activate [OF ok this] False Claimant el show ?thesis
        by (simp add: close_round_if_majority_def Let_def)
    next
      case Host
      have "engine_ok r grp n lg (upd_el (\<lambda>el. el\<lparr>el_lease_until := max (el_lease_until el) u\<rparr>) s)" for u
        using ok by (rule engine_ok_upd_el) (auto simp: ok_defs split: option.splits)
      with Host el False stay show ?thesis by (simp add: close_round_if_majority_def Let_def)
    qed (use el False stay ok in \<open>simp add: close_round_if_majority_def Let_def\<close>)
  qed
qed

lemma engine_ok_add_grant:
  assumes "engine_ok r grp n lg s" "counts_for epoch s"
    and "g \<in> set (voters r)" "(g, epoch, n) \<in> lg_grants lg"
  shows "engine_ok r grp n lg (upd_q (\<lambda>q. q\<lparr>q_round_grants := finsert g (q_round_grants q)\<rparr>) s)"
  unfolding upd_q_def
  by (rule engine_ok_upd_el [OF assms(1)])
     (use assms(2-4) in \<open>auto simp: ok_defs counts_for_def seat_def split: option.splits\<close>)

lemma safe_at_self_grant:
  assumes ok: "engine_ok r grp n lg s" and stand: "counts_for epoch s" and n: "node_ok n"
  shows "safe_at r grp n lg (self_grant epoch now s)"
proof -
  obtain v t where g: "record_grant epoch n now s = (v, t)" by fastforce
  note rg = record_grant_ok [OF ok n g]
  from ok have me: "ge_local s = n" by (simp add: engine_ok_def)
  show ?thesis
  proof (cases "v = Refuse")
    case True
    with rg ok show ?thesis by (simp add: self_grant_def me g safe_at_def)
  next
    case False
    define lg' where "lg' = log_effects n (log_grant v epoch n) lg"
    define u where "u = upd_q (\<lambda>q. q\<lparr>q_round_grants := finsert n (q_round_grants q)\<rparr>) t"
    from rg(3) [OF False] have t: "engine_ok r grp n lg' t" "(n, epoch, n) \<in> lg_grants lg'"
      "n \<in> set (voters r)" and l: "lawful_batch r n lg (log_grant v epoch n)"
      by (auto simp: safe_at_def lg'_def)
    from stand rg(1) have ct: "counts_for epoch t" "counts_for epoch u"
      by (simp_all add: counts_for_def u_def)
    from engine_ok_add_grant [OF t(1) ct(1) t(3,2)] have u: "engine_ok r grp n lg' u"
      by (simp add: u_def)
    have "self_grant epoch now s = then_do (emit (log_grant v epoch n)) (close_round_if_majority epoch) u"
      using False by (simp add: self_grant_def me g u_def log_grant_def)
    with safe_at_close_round [OF u ct(2)] l show ?thesis
      by (simp add: then_do_def emit_def safe_at_def lg'_def case_prod_beta)
  qed
qed

lemma engine_ok_open_round: "engine_ok r grp n lg s \<Longrightarrow> engine_ok r grp n lg (open_round now s)"
  unfolding open_round_def upd_q_def by (rule engine_ok_upd_el) (auto simp: ok_defs split: option.splits)

lemma counts_for_open_round [simp]: "counts_for epoch (open_round now s) = counts_for epoch s"
  by (simp add: counts_for_def open_round_def)


lemma keeps_safe_retry_self_grant:
  assumes "engine_ok r grp n lg s" "counts_for epoch s" "node_ok n"
  shows "safe_at r grp n lg (quorum_retry_self_grant epoch now s)"
  using safe_at_self_grant [OF assms] assms(1) by (simp add: quorum_retry_self_grant_def safe_at_def)

lemma safe_at_open_and_grant:
  assumes "engine_ok r grp n lg s" "counts_for epoch s" "node_ok n"
  shows "safe_at r grp n lg (self_grant epoch now (open_round now s))"
  by (rule safe_at_self_grant) (simp_all add: assms engine_ok_open_round)

lemma engine_ok_learn_granted:
  assumes ok: "engine_ok r grp n lg s"
  shows "engine_ok r grp n lg (learn_granted_epoch epoch c g s)"
proof -
  from ok obtain el q where el: "ge_election s = Some el" "el_quorum el = Some q" "election_ok r n lg el"
    by (rule engine_okE)
  have "election_ok r n lg (el\<lparr>el_highest_seen := h\<rparr>)"
    and "election_ok r n lg (el\<lparr>el_highest_seen := h, el_quorum := Some (q\<lparr>q_round_refused := R\<rparr>)\<rparr>)"
    and "election_ok r n lg (el\<lparr>el_highest_seen := h, el_quorum := Some q\<rparr>)" for h R
    using el by (auto simp: ok_defs)
  with ok el(1,2) show ?thesis
    by (auto simp: learn_granted_epoch_def Let_def intro!: engine_ok_abandon engine_ok_Some split: option.splits)
qed

lemma safe_at_on_lead_grant:
  assumes ok: "engine_ok r grp n lg s" and g: "(g, epoch, c) \<in> lg_grants lg"
  shows "safe_at r grp n lg (on_lead_grant epoch c g s)"
proof -
  define t where "t = learn_granted_epoch epoch c g s"
  have t: "engine_ok r grp n lg t" unfolding t_def by (rule engine_ok_learn_granted [OF ok])
  then obtain el q where el: "ge_election t = Some el" "ge_local t = n" by (rule engine_okE)
  from ok have qv: "quorum_voters s = Some r" "is_quorum s" by (auto elim: engine_okE)
  have stay: "safe_at r grp n lg ([], u)" if "engine_ok r grp n lg u" for u
    using that by (simp add: safe_at_def)
  show ?thesis
  proof (cases "g \<in> set (voters r) \<and> c = n \<and> standing el epoch")
    case False
    with qv el stay [OF ok] stay [OF t] show ?thesis
      by (auto simp: on_lead_grant_def t_def [symmetric] roster_contains_def)
  next
    case True
    define u where "u = upd_q (\<lambda>q. q\<lparr>q_round_grants := finsert g (q_round_grants q)\<rparr>) t"
    from True el have ct: "counts_for epoch t" "counts_for epoch u"
      by (auto simp: counts_for_def seat_def standing_def u_def upd_q_def upd_el_def split: option.splits)
    have "engine_ok r grp n lg u"
      unfolding u_def using t ct(1) g True by (intro engine_ok_add_grant) auto
    moreover from True have "learn_granted_epoch epoch n g s = t" by (simp add: t_def)
    ultimately show ?thesis
      using safe_at_close_round [OF _ ct(2)] True qv el
      by (simp add: on_lead_grant_def u_def roster_contains_def Let_def)
  qed
qed

lemma mute_claims:
  "x \<in> set (broadcast_claim s epoch) \<Longrightarrow> mute x"
  "x \<in> set (map (send_lead s (Claim epoch c)) ts) \<Longrightarrow> mute x"
  by (auto simp: broadcast_claim_def mute_send_lead)

lemma keeps_safe_renewal_round:
  assumes "node_ok n"
  shows "keeps (safe r grp n) (renewal_round now)"
  unfolding keeps_safe_iff
proof (intro allI impI)
  fix lg s
  assume ok: "engine_ok r grp n lg s"
  then obtain el q where el: "ge_election s = Some el" "el_voters el = Some r" "is_quorum s"
    by (rule engine_okE)
  show "safe_at r grp n lg (renewal_round now s)"
  proof (cases "is_coordinator s \<and> el_role el = Host")
    case False
    with el ok show ?thesis by (auto simp: renewal_round_def safe_at_def)
  next
    case True
    obtain es t where sg: "self_grant (el_epoch el) now (open_round now s) = (es, t)" by fastforce
    from True el have "counts_for (el_epoch el) s" by (simp add: counts_for_def seat_def)
    from safe_at_open_and_grant [OF ok this assms] sg have "safe_at r grp n lg (es, t)" by metis
    then have "safe_at r grp n lg (es @ map (send_lead t (Claim (el_epoch el) (ge_local t))) ts, t)" for ts
      by (rule safe_at_append) (auto simp: mute_claims(2))
    with True el show ?thesis by (simp add: renewal_round_def sg)
  qed
qed



section \<open>Resignation, reports and ticks\<close>

lemma engine_ok_upd_q:
  assumes "engine_ok r grp n lg s"
    and "\<And>q. q_granted (f q) = q_granted q \<and> q_round_grants (f q) = q_round_grants q"
  shows "engine_ok r grp n lg (upd_q f s)"
  unfolding upd_q_def
  by (rule engine_ok_upd_el [OF assms(1)]) (use assms(2) in \<open>auto simp: ok_defs split: option.splits\<close>)

lemma keeps_safe_broadcast_resign: "keeps (safe r grp n) (broadcast_resign epoch)"
  unfolding keeps_safe_iff broadcast_resign_def Let_def
  by (auto intro!: safe_at_mute engine_ok_upd_q mute_send_lead)

lemma mute_resend_resign: "x \<in> set (resend_resign due s) \<Longrightarrow> mute x"
  by (auto simp: resend_resign_def mute_send_lead split: option.splits if_splits)

lemma engine_ok_note_resign_receipt:
  "engine_ok r grp n lg s \<Longrightarrow> engine_ok r grp n lg (note_resign_receipt from epoch host s)"
  unfolding note_resign_receipt_def by (rule engine_ok_upd_q) (auto split: option.splits)

lemma keeps_safe_on_lead_resign: "keeps (safe r grp n) (on_lead_resign from epoch host now)"
  unfolding keeps_safe_iff
proof (intro allI impI)
  fix lg s
  assume ok: "engine_ok r grp n lg s"
  define t where "t = upd_q (\<lambda>q. if q_granted q = Some (epoch, host)
      then q\<lparr>q_resigned := True, q_grant_promise_until := min (q_grant_promise_until q) now\<rparr> else q) s"
  have t: "engine_ok r grp n lg t" unfolding t_def by (rule engine_ok_upd_q [OF ok]) auto
  then obtain el where el: "ge_election t = Some el" "election_ok r n lg el" by (auto elim: engine_okE)
  then have upd: "election_ok r n lg (el\<lparr>el_highest_seen := h\<rparr>)"
    "election_ok r n lg (el\<lparr>el_highest_seen := h, el_host := None\<rparr>)" for h
    by (auto simp: ok_defs split: option.splits)
  have "mute (send_lead t (State epoch None) from)" by (simp add: mute_send_lead)
  moreover have "mute (LeadershipChanged epoch None)" by (simp add: mute_def)
  ultimately show "safe_at r grp n lg (on_lead_resign from epoch host now s)"
    using ok t el(1) upd
    by (auto simp: on_lead_resign_def t_def [symmetric] Let_def safe_at_mute intro!: safe_at_mute engine_ok_Some)
qed

lemma keeps_safe_election_on_leave: "keeps (safe r grp n) election_on_leave"
proof -
  have "keeps (safe r grp n) (silently abandon_claim)"
    by (auto simp: keeps_safe_iff silently_def safe_at_def engine_ok_abandon)
  then have "safe_at r grp n lg (election_on_leave s)" if "engine_ok r grp n lg s" for lg s
    using that unfolding election_on_leave_def Let_def
    by (intro safe_at_keeps sf.keeps_then_do)
       (auto split: role.split option.split intro: keeps_safe_demote_host sf.keeps_skip keeps_safe_broadcast_resign)
  then show ?thesis by (simp add: keeps_safe_iff)
qed

lemma safe_at_on_lead_state:
  assumes ok: "engine_ok r grp n lg s"
  shows "safe_at r grp n lg (on_lead_state from epoch host s)"
proof -
  define t where "t = note_resign_receipt from epoch host s"
  have t: "engine_ok r grp n lg t" unfolding t_def by (rule engine_ok_note_resign_receipt [OF ok])
  then obtain el where el: "ge_election t = Some el" "ge_local t = n" by (auto elim: engine_okE)
  have "mute (send_lead t (State e h) from)" for e h by (simp add: mute_send_lead)
  with t el safe_at_adopt [OF t] safe_at_keeps [OF keeps_safe_learn_self_named t] show ?thesis
    by (auto simp: on_lead_state_def t_def [symmetric] Let_def state_body_def intro!: safe_at_mute
        split: ordering.split)
qed

lemma keeps_safe_on_lead_claim:
  assumes "group_ok grp" "node_ok n" "node_ok c"
  shows "keeps (safe r grp n) (on_lead_claim from epoch c now)"
proof -
  have seen: "keeps (safe r grp n) (silently (upd_el (\<lambda>el. el\<lparr>el_highest_seen := max (el_highest_seen el) epoch\<rparr>)))"
    by (auto simp: keeps_safe_iff silently_def safe_at_def ok_defs intro!: engine_ok_upd_el split: option.splits)
  have repair: "keeps (safe r grp n) (repair_claimant from epoch c)"
    by (auto simp: keeps_safe_iff repair_claimant_def Let_def state_body_def mute_send_lead
        intro!: safe_at_mute split: option.splits)
  have out: "keeps (safe r grp n) (silently (\<lambda>s. if outranked s epoch c then abandon_claim s else s))"
    by (auto simp: keeps_safe_iff silently_def safe_at_def engine_ok_abandon)
  show ?thesis
    unfolding on_lead_claim_def [abs_def]
    by (intro sf.keeps_then_do seen repair out keeps_safe_on_claim_as_voter [OF assms]
        sf.keeps_quiet_frame [OF keeps_quiet_learn_claimant])
qed


lemma safe_at_tick_follower:
  assumes ok: "engine_ok r grp n lg s" and n: "node_ok n"
  shows "safe_at r grp n lg (tick_follower now due s)"
proof -
  from ok obtain el q where el: "ge_election s = Some el" "el_quorum el = Some q" "\<not> el_is_external el"
    "election_ok r n lg el" "quorum_of s = Some q"
    by (rule engine_okE)
  define epoch where "epoch = sat_add (el_highest_seen el) 1"
  define c where "c = \<lparr>cl_epoch = epoch, cl_settle_at = time_saturating_add now (activation_window_ms el)\<rparr>"
  define s1 where "s1 = upd_el (\<lambda>el. el\<lparr>el_highest_seen := epoch, el_role := Claimant, el_claim := Some c\<rparr>) s"
  obtain es t where sg: "self_grant epoch now (open_round now s1) = (es, t)" by fastforce
  have "engine_ok r grp n lg (open_round now s1)"
    using ok el by (auto simp: engine_ok_def s1_def open_round_def upd_q_def upd_el_def ok_defs)
  moreover have "counts_for epoch s1"
    by (auto simp: counts_for_def seat_def s1_def upd_el_def c_def)
  then have "counts_for epoch (open_round now s1)" by simp
  ultimately have "safe_at r grp n lg (es, t)"
    using safe_at_self_grant n sg by metis
  then have "safe_at r grp n lg (es @ (if engine_role t = Claimant then broadcast_claim t epoch else []), t)"
    by (rule safe_at_append) (auto simp: mute_claims(1) split: if_splits)
  moreover have "quorum_open_round epoch now s1 = (es, t)"
    using el sg by (simp add: quorum_open_round_def s1_def quorum_of_def upd_el_def)
  moreover have "safe_at r grp n lg ([], s)" using ok by (simp add: safe_at_def)
  ultimately show ?thesis
    using el(1,3) unfolding s1_def c_def by (simp add: tick_follower_def Let_def epoch_def [symmetric])
qed

lemma safe_at_tick_claimant:
  assumes ok: "engine_ok r grp n lg s" and n: "node_ok n"
  shows "safe_at r grp n lg (tick_claimant now due s)"
proof -
  from ok obtain el where el: "ge_election s = Some el" "is_quorum s" by (auto elim: engine_okE)
  have ab: "safe_at r grp n lg ([], abandon_claim s)"
    by (simp add: safe_at_def engine_ok_abandon ok)
  show ?thesis
  proof (cases "el_claim el")
    case None
    with el ab show ?thesis by (simp add: tick_claimant_def)
  next
    case (Some c)
    obtain es t where rt: "quorum_retry_self_grant (cl_epoch c) now s = (es, t)" by fastforce
    from Some el have "counts_for (cl_epoch c) s" by (simp add: counts_for_def seat_def)
    from keeps_safe_retry_self_grant [OF ok this n] rt have st: "safe_at r grp n lg (es, t)" by metis
    then have "safe_at r grp n lg (es @ (if due then broadcast_claim t (cl_epoch c) else []), t)"
      by (rule safe_at_append) (auto simp: mute_claims(1) split: if_splits)
    with st el ab Some show ?thesis
      by (simp add: tick_claimant_def rt)
  qed
qed

lemma keeps_safe_beacon: "keeps (safe r grp n) beacon"
  unfolding keeps_safe_iff
proof (intro allI impI)
  fix lg s
  assume ok: "engine_ok r grp n lg s"
  obtain ts t where rot: "rotated_targets (case ge_election s of None \<Rightarrow> 0 | Some el \<Rightarrow> el_beacon_cursor el)
      (gossip_fanout (ge_config s)) s = (ts, t)" by fastforce
  with core_rotated_targets have "core t = core s" by (metis snd_conv)
  with ok have "engine_ok r grp n lg t" by (simp add: engine_ok_core [of t s])
  then have u: "engine_ok r grp n lg (upd_el (\<lambda>el. el\<lparr>el_beacon_cursor := k\<rparr>) t)" for k
    by (rule engine_ok_upd_el) (auto simp: ok_defs split: option.splits)
  show "safe_at r grp n lg (beacon s)"
    unfolding beacon_def beacon_targets_def Let_def rot prod.case
    by (rule safe_at_mute [OF u]) (auto simp: state_body_def mute_send_lead split: option.splits)
qed

lemma safe_at_tick_host:
  assumes ok: "engine_ok r grp n lg s" and n: "node_ok n"
  shows "safe_at r grp n lg (tick_host now due s)"
proof -
  from ok obtain el where "ge_election s = Some el" "\<not> closes_on_window el" by (rule engine_okE)
  then have settle: "\<not> is_settle s" by (simp add: is_settle_def)
  have prompt: "keeps (safe r grp n) (\<lambda>s. (external_renewal_prompt s, s))"
    by (auto simp: keeps_safe_iff external_renewal_prompt_def safe_at_def)
  have "keeps (safe r grp n) (then_do (renewal_round now) (then_do (\<lambda>s. (external_renewal_prompt s, s)) beacon))"
    by (intro sf.keeps_then_do keeps_safe_renewal_round [OF n] prompt keeps_safe_beacon)
  from safe_at_keeps [OF this ok] safe_at_keeps [OF keeps_safe_demote_host ok] ok settle show ?thesis
    by (simp add: tick_host_def Let_def safe_at_def)
qed

lemma keeps_safe_election_tick:
  assumes "node_ok n"
  shows "keeps (safe r grp n) (election_tick now due)"
  unfolding keeps_safe_iff
proof (intro allI impI)
  fix lg s
  assume ok: "engine_ok r grp n lg s"
  have resend: "keeps (safe r grp n) (\<lambda>s. (resend_resign due s, s))"
    unfolding keeps_safe_iff by (intro allI impI safe_at_mute) (auto simp: mute_resend_resign)
  have first: "safe_at r grp n lg ((case ge_election s of None \<Rightarrow> skip
      | Some el \<Rightarrow> (case el_role el of Follower \<Rightarrow> tick_follower now due
          | Claimant \<Rightarrow> tick_claimant now due | Host \<Rightarrow> tick_host now due)) s)"
    using ok assms safe_at_keeps [OF sf.keeps_skip ok]
    by (auto split: option.split role.split
        intro: safe_at_tick_follower safe_at_tick_claimant safe_at_tick_host)
  then show "safe_at r grp n lg (election_tick now due s)"
    unfolding election_tick_def
    by (rule safe_at_then_do) (rule safe_at_keeps [OF resend], use first in \<open>simp add: safe_at_def\<close>)
qed


section \<open>Entry points\<close>

lemma keeps_safe_on_tick: "node_ok n \<Longrightarrow> keeps (safe r grp n) (on_tick now)"
  by (rule sf.keeps_on_tick) (rule keeps_safe_election_tick)

lemma keeps_safe_apply_cmd: "keeps (safe r grp n) (apply_cmd c)"
proof (rule sf.keeps_apply_cmd)
  show "keeps (safe r grp n) (on_anchor_activated e u)" "keeps (safe r grp n) (on_anchor_observed e h)" for e u h
    using engine_ok_not_external
    by (fastforce simp: keeps_safe_iff on_anchor_activated_def on_anchor_observed_def safe_at_def
        split: option.split)+
qed (rule keeps_safe_election_on_leave)

text \<open>A delivered frame is safe when every grant it carries is on record.\<close>

definition authentic :: "ledger_log \<Rightarrow> bytes \<Rightarrow> bool" where
  "authentic lg b \<longleftrightarrow>
     (\<forall>f e c g. decode b = Some f \<longrightarrow> fr_lead f = Some (Grant e c g) \<longrightarrow> (g, e, c) \<in> lg_grants lg)"

lemma safe_at_on_message:
  assumes ok: "engine_ok r grp n lg s" and "group_ok grp" "node_ok n" and auth: "authentic lg b"
  shows "safe_at r grp n lg (on_message from b now s)"
proof (cases rule: on_message_cases [of s "from" b now])
  case 1
  from quiet_safe [OF this] ok show ?thesis by (simp add: safe_def safe_at_def)
next
  case (2 f)
  define t where "t = hear_time now s"
  have t: "engine_ok r grp n lg t" using ok engine_ok_core [of t s] by (simp add: t_def)
  have lead: "lead_ok x" if "fr_lead f = Some x" for x
    using 2(1) that by (auto simp: decode_Some_iff frame_ok_def body_ok_def split: kind.splits if_splits)
  have "safe_at r grp n lg (on_lead from f now t)"
  proof (cases "fr_lead f")
    case None
    with t show ?thesis by (simp add: on_lead_def safe_at_def)
  next
    case (Some x)
    from t obtain el0 where el: "ge_election t = Some el0" by (auto simp: engine_ok_def)
    show ?thesis
    proof (cases x)
      case (Claim e c)
      with lead [OF Some] have "node_ok c" by simp
      from safe_at_keeps [OF keeps_safe_on_lead_claim [OF assms(2,3) this] t] Claim Some el
      show ?thesis by (simp add: on_lead_def)
    next
      case (Grant e c g)
      with auth 2(1) Some have "(g, e, c) \<in> lg_grants lg" by (simp add: authentic_def)
      from safe_at_on_lead_grant [OF t this] Grant Some el show ?thesis by (simp add: on_lead_def)
    next
      case (State e h)
      with safe_at_on_lead_state [OF t] Some el show ?thesis by (simp add: on_lead_def)
    next
      case (Resign e h)
      with safe_at_keeps [OF keeps_safe_on_lead_resign t] Some el show ?thesis by (simp add: on_lead_def)
    qed
  qed
  with 2(3) show ?thesis by (simp add: t_def)
qed



section \<open>A group of engines\<close>

text \<open>
  The engines that are up, the grant each node has persisted, every frame ever sent (a frame may
  be delivered any number of times, late, or never), and the record of the run.
\<close>

record world =
  w_up :: "node_id \<Rightarrow> group_engine option"
  w_store :: "node_id \<Rightarrow> (u64 \<times> node_id) option"
  w_net :: "(node_id \<times> node_id \<times> bytes) set"
  w_log :: ledger_log

definition init_world :: world where
  "init_world = \<lparr>w_up = (\<lambda>_. None), w_store = (\<lambda>_. None), w_net = {},
     w_log = \<lparr>lg_grants = {}, lg_hosts = {}\<rparr>\<rparr>"

text \<open>The driver carries effects out in order: a grant is durable before a later frame leaves.\<close>

fun exec :: "node_id \<Rightarrow> effect \<Rightarrow> world \<Rightarrow> world" where
  "exec n (Send to b) w = w\<lparr>w_net := insert (n, to, b) (w_net w)\<rparr>"
| "exec n (PersistGrant e c) w =
     w\<lparr>w_store := (w_store w)(n := Some (e, c)), w_log := log_effect n (PersistGrant e c) (w_log w)\<rparr>"
| "exec n x w = w\<lparr>w_log := log_effect n x (w_log w)\<rparr>"

definition execs :: "node_id \<Rightarrow> effect list \<Rightarrow> world \<Rightarrow> world" where
  "execs n es = fold (exec n) es"

datatype event = Deliver node_id bytes time | Tick time | Issue command

fun handle :: "event \<Rightarrow> step" where
  "handle (Deliver from b now) = on_message from b now"
| "handle (Tick now) = on_tick now"
| "handle (Issue c) = apply_cmd c"

fun possible :: "world \<Rightarrow> node_id \<Rightarrow> event \<Rightarrow> bool" where
  "possible w n (Deliver from b now) = ((from, n, b) \<in> w_net w)"
| "possible w n _ = True"

definition quorum_config :: "voter_roster \<Rightarrow> config \<Rightarrow> bool" where
  "quorum_config r cfg = (case mode cfg of Hosted h \<Rightarrow> hc_activation h = Quorum r | Eventual \<Rightarrow> False)"

text \<open>
  A node boots from its persisted grant, handles an event, or crashes: between events, or in the
  middle of carrying a batch of effects out.
\<close>

inductive w_step :: "voter_roster \<Rightarrow> group_id \<Rightarrow> world \<Rightarrow> world \<Rightarrow> bool"
  for r :: voter_roster and grp :: group_id where
  boot: "\<lbrakk>w_up w n = None; node_ok n; quorum_config r cfg;
      recovering grp n seeds cfg = Inr rec;
      start now (restore rec (RecoveredGrant (w_store w n))) = (es, s)\<rbrakk>
      \<Longrightarrow> w_step r grp w (execs n es (w\<lparr>w_up := (w_up w)(n := Some s)\<rparr>))"
| event: "\<lbrakk>w_up w n = Some s; possible w n ev; handle ev s = (es, t)\<rbrakk>
      \<Longrightarrow> w_step r grp w (execs n es (w\<lparr>w_up := (w_up w)(n := Some t)\<rparr>))"
| crash: "w_step r grp w (w\<lparr>w_up := (w_up w)(n := None)\<rparr>)"
| crash_in_batch: "\<lbrakk>w_up w n = Some s; possible w n ev; handle ev s = (es, t)\<rbrakk>
      \<Longrightarrow> w_step r grp w (execs n (take k es) (w\<lparr>w_up := (w_up w)(n := None)\<rparr>))"

inductive reachable :: "voter_roster \<Rightarrow> group_id \<Rightarrow> world \<Rightarrow> bool"
  for r :: voter_roster and grp :: group_id where
  init: "reachable r grp init_world"
| step: "\<lbrakk>reachable r grp w; w_step r grp w w'\<rbrakk> \<Longrightarrow> reachable r grp w'"

inductive_cases w_stepE: "w_step r grp w w'"


section \<open>The invariant of a run\<close>

lemma ledger_ok_other:
  assumes "\<And>e c. (n, e, c) \<in> lg_grants lg' \<longleftrightarrow> (n, e, c) \<in> lg_grants lg"
  shows "ledger_ok n lg' g = ledger_ok n lg g"
  using assms by (simp add: ledger_ok_def split: option.split)

lemma round_ok_mono:
  "round_ok r n lg el q \<Longrightarrow> lg_grants lg \<subseteq> lg_grants lg' \<Longrightarrow> round_ok r n lg' el q"
  unfolding round_ok_def by blast

lemma engine_ok_other:
  assumes "engine_ok r grp n lg s"
    and same: "\<And>e c. (n, e, c) \<in> lg_grants lg' \<longleftrightarrow> (n, e, c) \<in> lg_grants lg"
    and sub: "lg_grants lg \<subseteq> lg_grants lg'" "lg_hosts lg \<subseteq> lg_hosts lg'"
  shows "engine_ok r grp n lg' s"
proof -
  from assms(1) obtain el q where el: "ge_group s = grp" "ge_local s = n" "ge_election s = Some el"
    "el_quorum el = Some q" "el_voters el = Some r" "election_ok r n lg el"
    "ledger_ok n lg (q_granted q)" "round_ok r n lg el q"
    by (rule engine_okE)
  have "ledger_ok n lg' (q_granted q)" using el(7) ledger_ok_other [OF same] by simp
  moreover have "host_ok n lg' el" using el(6) sub(2) by (auto simp: election_ok_def host_ok_def)
  ultimately show ?thesis
    using el round_ok_mono [OF el(8) sub(1)] by (simp add: engine_ok_def election_ok_def)
qed

definition run_ok :: "voter_roster \<Rightarrow> world \<Rightarrow> bool" where
  "run_ok r w \<longleftrightarrow>
     (\<forall>v. ledger_ok v (w_log w) (w_store w v))
     \<and> (\<forall>v e c c'. (v, e, c) \<in> lg_grants (w_log w) \<longrightarrow> (v, e, c') \<in> lg_grants (w_log w) \<longrightarrow> c = c')
     \<and> (\<forall>e n. (e, n) \<in> lg_hosts (w_log w) \<longrightarrow> backed r (lg_grants (w_log w)) e n)
     \<and> (\<forall>a b bs. (a, b, bs) \<in> w_net w \<longrightarrow> authentic (w_log w) bs)"

definition world_ok :: "voter_roster \<Rightarrow> group_id \<Rightarrow> world \<Rightarrow> bool" where
  "world_ok r grp w \<longleftrightarrow> run_ok r w
     \<and> (\<forall>n s. w_up w n = Some s \<longrightarrow> node_ok n \<and> engine_ok r grp n (w_log w) s)"

lemma run_okD:
  assumes "run_ok r w"
  shows "ledger_ok v (w_log w) (w_store w v)"
    and "(v, e, c) \<in> lg_grants (w_log w) \<Longrightarrow> (v, e, c') \<in> lg_grants (w_log w) \<Longrightarrow> c = c'"
    and "(e, n) \<in> lg_hosts (w_log w) \<Longrightarrow> backed r (lg_grants (w_log w)) e n"
    and "(a, b, bs) \<in> w_net w \<Longrightarrow> authentic (w_log w) bs"
  using assms by (auto simp: run_ok_def)

lemma authentic_mono: "authentic lg b \<Longrightarrow> lg_grants lg \<subseteq> lg_grants lg' \<Longrightarrow> authentic lg' b"
  by (fastforce simp: authentic_def)

lemma w_log_exec [simp]: "w_log (exec n x w) = log_effect n x (w_log w)"
  by (cases x) auto

lemma w_log_execs [simp]: "w_log (execs n es w) = log_effects n es (w_log w)"
  unfolding execs_def log_effects_def by (induction es arbitrary: w) auto

lemma w_up_execs [simp]: "w_up (execs n es w) = w_up w"
proof -
  have "w_up (exec n x w) = w_up w" for x w by (cases x) auto
  then show ?thesis unfolding execs_def by (induction es arbitrary: w) auto
qed

lemma log_effect_grows:
  "lg_grants lg \<subseteq> lg_grants (log_effect n x lg)" "lg_hosts lg \<subseteq> lg_hosts (log_effect n x lg)"
  by (cases "(n, x, lg)" rule: log_effect.cases; auto)+

lemma log_effects_grow:
  "lg_grants lg \<subseteq> lg_grants (log_effects n es lg)" "lg_hosts lg \<subseteq> lg_hosts (log_effects n es lg)"
  by (induction es arbitrary: lg) (use log_effect_grows in fastforce)+

lemma log_effect_own: "m \<noteq> n \<Longrightarrow> (m, e, c) \<in> lg_grants (log_effect n x lg) \<longleftrightarrow> (m, e, c) \<in> lg_grants lg"
  by (cases "(n, x, lg)" rule: log_effect.cases) auto

lemma log_effects_own: "m \<noteq> n \<Longrightarrow> (m, e, c) \<in> lg_grants (log_effects n es lg) \<longleftrightarrow> (m, e, c) \<in> lg_grants lg"
  by (induction es arbitrary: lg) (simp_all add: log_effect_own)

lemma run_ok_persist:
  assumes ok: "run_ok r w" and l: "lawful r n (w_log w) (PersistGrant e c)"
  shows "run_ok r (exec n (PersistGrant e c) w)"
proof -
  let ?lg = "log_effect n (PersistGrant e c) (w_log w)"
  have "ledger_ok n ?lg (Some (e, c))" using l by (auto simp: ledger_ok_def intro: less_imp_le)
  moreover have "ledger_ok v ?lg g = ledger_ok v (w_log w) g" if "v \<noteq> n" for v g
    by (intro ledger_ok_other log_effect_own that)
  ultimately have "ledger_ok v ?lg (w_store (exec n (PersistGrant e c) w) v)" for v
    using run_okD(1) [OF ok] by auto
  moreover have "c1 = c2" if "(v, e', c1) \<in> lg_grants ?lg" "(v, e', c2) \<in> lg_grants ?lg" for v e' c1 c2
    using that run_okD(2) [OF ok] l by auto
  moreover have "backed r (lg_grants ?lg) e' m" if "(e', m) \<in> lg_hosts ?lg" for e' m
    using that by (intro backed_mono [OF run_okD(3) [OF ok]] log_effect_grows) simp
  moreover have "authentic ?lg bs" if "(a, b, bs) \<in> w_net w" for a b bs
    using that by (intro authentic_mono [OF run_okD(4) [OF ok]] log_effect_grows)
  moreover have "w_net (exec n (PersistGrant e c) w) = w_net w" by simp
  ultimately show ?thesis
    unfolding run_ok_def w_log_exec by metis
qed


lemma run_ok_exec:
  assumes ok: "run_ok r w" and l: "lawful r n (w_log w) x"
  shows "run_ok r (exec n x w)"
proof (cases x)
  case (Send to b)
  with l have "authentic (w_log w) b" by (simp add: authentic_def lawful.simps(1))
  with ok Send show ?thesis by (auto simp: run_ok_def)
next
  case (PersistGrant e c)
  with run_ok_persist [OF ok] l show ?thesis by simp
next
  case (LeadershipChanged e h)
  have "ledger_ok v (log_effect n x lg) g = ledger_ok v lg g" for v lg g
    using LeadershipChanged by (cases h) auto
  moreover have "lg_grants (log_effect n x lg) = lg_grants lg" for lg
    using LeadershipChanged by (cases h) auto
  moreover have "authentic (log_effect n x lg) b = authentic lg b" for lg b
    using LeadershipChanged by (cases h) (auto simp: authentic_def)
  moreover have "backed r (lg_grants (w_log w)) e' m" if "(e', m) \<in> lg_hosts (log_effect n x (w_log w))" for e' m
    using that LeadershipChanged l run_okD(3) [OF ok] by (cases h) (auto split: if_splits)
  ultimately show ?thesis
    using ok LeadershipChanged by (simp add: run_ok_def)
qed (use ok in \<open>simp_all add: run_ok_def\<close>)

lemma run_ok_execs:
  "run_ok r w \<Longrightarrow> lawful_batch r n (w_log w) es \<Longrightarrow> run_ok r (execs n es w)"
  unfolding execs_def by (induction es arbitrary: w) (auto simp: run_ok_exec)

lemma run_ok_up [simp]: "run_ok r (w\<lparr>w_up := u\<rparr>) = run_ok r w"
  by (simp add: run_ok_def)

lemma lawful_batch_take: "lawful_batch r n lg es \<Longrightarrow> lawful_batch r n lg (take k es)"
  by (metis append_take_drop_id lawful_batch_append)

lemma world_ok_batch:
  assumes ok: "world_ok r grp w" and l: "lawful_batch r n (w_log w) es"
    and up: "\<And>s. u = Some s \<Longrightarrow> node_ok n \<and> engine_ok r grp n (log_effects n es (w_log w)) s"
  shows "world_ok r grp (execs n es (w\<lparr>w_up := (w_up w)(n := u)\<rparr>))"
proof -
  have "run_ok r (execs n es (w\<lparr>w_up := (w_up w)(n := u)\<rparr>))"
    using ok l by (intro run_ok_execs) (auto simp: world_ok_def)
  moreover have "engine_ok r grp m (log_effects n es (w_log w)) s" if "m \<noteq> n" "w_up w m = Some s" for m s
    by (rule engine_ok_other [OF _ log_effects_own [OF that(1)] log_effects_grow])
       (use ok that(2) in \<open>simp add: world_ok_def\<close>)
  ultimately show ?thesis
    using ok up by (auto simp: world_ok_def)
qed

lemma restore_engine_ok:
  assumes "quorum_config r cfg" "recovering grp n seeds cfg = Inr rec" "ledger_ok n lg g"
  shows "engine_ok r grp n lg (restore rec (RecoveredGrant g))"
proof -
  from assms(2) obtain s where s: "engine_new grp n seeds cfg = Inr s" "rec = RecoveringEngine s"
    by (auto simp: recovering_def map_sum_def split: sum.splits)
  then obtain s0 where s0: "core s = core s0" "s0 = initial_engine grp n seeds cfg"
    by (auto simp: engine_new_def Let_def split: sum.splits)
  obtain h where h: "mode cfg = Hosted h" "hc_activation h = Quorum r"
    using assms(1) by (auto simp: quorum_config_def split: group_mode.splits)
  with s0 have "ge_group s = grp" "ge_local s = n" "ge_election s = Some (election_new h)"
    by (auto simp: core_def initial_engine_def Let_def)
  with assms(3) h s show ?thesis
    by (cases g)
       (auto simp: engine_ok_def upd_q_def upd_el_def election_new_def quorum_for_activation_def ok_defs)
qed

lemma keeps_safe_start: "keeps (safe r grp n) (start now)"
proof (rule sf.keeps_start)
  have es: "election_ok r n lg el \<Longrightarrow> election_ok r n lg
      (quorum_start now (el\<lparr>el_no_claim_before := x\<rparr>))" for lg el x
    by (auto simp: ok_defs quorum_start_def split: option.splits)
  have "engine_ok r grp n lg (election_start now t)" if "engine_ok r grp n lg t" for lg t
    unfolding election_start_def using that es by (rule engine_ok_upd_el)
  then show "keeps (safe r grp n) (silently (election_start now))"
    by (simp add: keeps_safe_iff silently_def safe_at_def)
qed

lemma handle_safe:
  assumes ok: "world_ok r grp w" and "group_ok grp" "w_up w n = Some s" "possible w n ev"
  shows "node_ok n \<and> safe_at r grp n (w_log w) (handle ev s)"
proof -
  from ok assms(3) have n: "node_ok n" "engine_ok r grp n (w_log w) s" by (auto simp: world_ok_def)
  show ?thesis
  proof (cases ev)
    case (Deliver src b now)
    with assms(4) ok have "authentic (w_log w) b" by (auto simp: world_ok_def dest: run_okD(4))
    with Deliver n assms(2) show ?thesis by (simp add: safe_at_on_message)
  qed (use n in \<open>auto intro: safe_at_keeps keeps_safe_on_tick keeps_safe_apply_cmd\<close>)
qed

lemma w_step_ok:
  assumes "w_step r grp w w'" "world_ok r grp w" "group_ok grp"
  shows "world_ok r grp w'"
  using assms(1)
proof cases
  case (boot n cfg seeds rec now es s)
  from assms(2) have "ledger_ok n (w_log w) (w_store w n)" by (auto simp: world_ok_def dest: run_okD(1))
  from safe_at_keeps [OF keeps_safe_start restore_engine_ok [OF boot(4,5) this]] boot(6)
  have "safe_at r grp n (w_log w) (es, s)" by metis
  with boot assms(2) show ?thesis by (auto simp: safe_at_def intro!: world_ok_batch)
next
  case (event n s ev es t)
  with handle_safe [OF assms(2,3) event(2,3)] have "node_ok n" "safe_at r grp n (w_log w) (es, t)" by auto
  with event assms(2) show ?thesis by (auto simp: safe_at_def intro!: world_ok_batch)
next
  case (crash n)
  with assms(2) show ?thesis by (auto simp: world_ok_def)
next
  case (crash_in_batch n s ev es t k)
  with handle_safe [OF assms(2,3) crash_in_batch(2,3)] have "lawful_batch r n (w_log w) (take k es)"
    by (auto simp: safe_at_def intro: lawful_batch_take)
  with crash_in_batch assms(2) show ?thesis by (auto intro!: world_ok_batch)
qed

lemma reachable_ok: "reachable r grp w \<Longrightarrow> group_ok grp \<Longrightarrow> world_ok r grp w"
proof (induction rule: reachable.induct)
  case init
  then show ?case by (simp add: world_ok_def run_ok_def init_world_def ledger_ok_def)
next
  case (step w w')
  then show ?case by (blast intro: w_step_ok)
qed

end
