(* ===== verification/Lone_Run.thy ===== *)
theory Lone_Run
  imports Step_Frame
begin

text \<open>
  Concrete runs of one real engine with nobody to talk to: its start, and a tick of it, evaluated
  through the real entry points for any hosted configuration. The safety theories use them to
  show that what they promise happens.
\<close>


section \<open>A lone engine\<close>

definition lone_node :: node_id where
  "lone_node = NodeId [97]"

definition lone_group :: group_id where
  "lone_group = GroupId [103]"

definition lone_config :: "hosted_config \<Rightarrow> config" where
  "lone_config h = config_default\<lparr>mode := Hosted h\<rparr>"

definition lone_engine :: "hosted_config \<Rightarrow> group_engine" where
  "lone_engine h =
     (let s = reindex lone_node (restamp lone_node 1 (initial_engine lone_group lone_node [] (lone_config h)))
      in s\<lparr>ge_coordinator := compute_coordinator s\<rparr>)"

text \<open>What the evaluation of the run needs of a state with no peer to talk to.\<close>

definition lonely :: "hosted_config \<Rightarrow> group_engine \<Rightarrow> bool" where
  "lonely h s \<longleftrightarrow> fmdom (ge_members s) = {|lone_node|} \<and> ge_seeds s = {||} \<and> ge_bootstrap_contacts s = {||}
     \<and> ge_local s = lone_node \<and> ge_group s = lone_group \<and> ge_config s = lone_config h
     \<and> ge_coordinator s = Some lone_node \<and> ge_pending s = None \<and> ix_due (ge_index s) = {||}
     \<and> ge_ring s \<in> {None, Some []} \<and> ge_targets s \<in> {None, Some []} \<and> \<not> ge_leaving s"

lemma validate_lone: "validate (lone_config h) = Inr ()"
  by (simp add: validate_def lone_config_def config_default_def)

lemma engine_new_lone: "engine_new lone_group lone_node [] (lone_config h) = Inr (lone_engine h)"
  by (simp add: engine_new_def validate_lone lone_engine_def Let_def)

lemma lonely_lone_engine: "lonely h (lone_engine h)" "ge_election (lone_engine h) = Some (election_new h)"
  by (simp_all add: lonely_def lone_engine_def initial_engine_def Let_def restamp_def member_new_def
      unstamp_def reindex_def file_due_def file_score_def liveness_due_def next_entry_due_def
      index_default_def live_set_changed_def filed_none_def compute_coordinator_def fset_last_def
      keys_list_def fset_list_def)
     (simp add: lone_config_def)

lemma lonely_targets:
  assumes "lonely h s"
  shows "dissemination_targets s = []" "probe_candidates s = []"
proof -
  show p: "probe_candidates s = []"
    using assms fmdomI [of "ge_members s"]
    by (fastforce simp: probe_candidates_def filter_empty_conv in_fentries_iff lonely_def)
  from assms p show "dissemination_targets s = []"
    by (simp add: dissemination_targets_def lonely_def)
qed

lemma lonely_fanout:
  assumes "lonely h s"
  shows "\<exists>t. disseminate_digest now s = ([], t) \<and> lonely h t \<and> ge_election t = ge_election s
    \<and> ge_next_anti_entropy t = ge_next_anti_entropy s"
  using assms lonely_targets [of h "s\<lparr>ge_last_round := now\<rparr>"]
  by (auto simp: disseminate_digest_def select_fanout_targets_def rotated_targets_def cached_targets_def
      rotate_from_def skip_def lonely_def Let_def split: option.splits)


lemma lonely_upd [simp]:
  "lonely h (s\<lparr>ge_now_hint := a\<rparr>) = lonely h s"
  "lonely h (s\<lparr>ge_next_anti_entropy := a\<rparr>) = lonely h s"
  "lonely h (s\<lparr>ge_next_probe := a\<rparr>) = lonely h s"
  "lonely h (s\<lparr>ge_stats := b\<rparr>) = lonely h s"
  "lonely h (s\<lparr>ge_election := e\<rparr>) = lonely h s"
  by (simp_all add: lonely_def)

lemma lonely_idle:
  assumes "lonely h s"
  shows "expire_probe now s = ([], s)" "reap_suspects now s = ([], s)" "reap_dead now s = ([], s)"
    "reap_entries now s = ([], s)"
    "\<exists>t. probe_round now s = ([], t) \<and> lonely h t \<and> ge_election t = ge_election s
      \<and> ge_next_anti_entropy t = ge_next_anti_entropy s"
proof -
  from assms have due: "due_members now s = []"
    by (simp add: due_members_def lonely_def)
  from assms show "expire_probe now s = ([], s)" by (simp add: expire_probe_def lonely_def)
  show "reap_suspects now s = ([], s)" "reap_dead now s = ([], s)" "reap_entries now s = ([], s)"
    by (simp_all add: reap_suspects_def reap_dead_def reap_entries_def due then_do_def skip_def)
  show "\<exists>t. probe_round now s = ([], t) \<and> lonely h t \<and> ge_election t = ge_election s
      \<and> ge_next_anti_entropy t = ge_next_anti_entropy s"
  proof (cases "ge_next_probe s \<le> now")
    case True
    define u where "u = s\<lparr>ge_next_probe := time_saturating_add now (probe_interval_ms (ge_config s))\<rparr>"
    have u: "lonely h u" "ge_election u = ge_election s" "ge_pending u = None"
      "ge_next_anti_entropy u = ge_next_anti_entropy s"
      using assms by (auto simp: u_def lonely_def)
    have "fst (probe_ring u) = [] \<and> lonely h (snd (probe_ring u)) \<and> ge_election (snd (probe_ring u)) = ge_election u
        \<and> ge_next_anti_entropy (snd (probe_ring u)) = ge_next_anti_entropy u"
      using u(1) lonely_targets(2) [OF u(1)]
      by (auto simp: probe_ring_def lonely_def split: option.splits)
    moreover have "probe_round now s = probe now u" using True by (simp add: probe_round_def u_def)
    ultimately show ?thesis
      using u(2-4) by (cases "probe_ring u") (simp add: probe_def)
  qed (use assms in \<open>auto simp: probe_round_def\<close>)
qed

text \<open>A tick of a lone engine is its election's tick, and the timer.\<close>

lemma lonely_tick:
  assumes "lonely h s"
  shows "\<exists>u. lonely h u \<and> ge_election u = ge_election s
    \<and> on_tick now s = then_do (election_tick now (now \<ge> ge_next_anti_entropy s)) arm_timer u"
proof -
  define u where "u = hear_time now s\<lparr>ge_stats := (ge_stats (hear_time now s))
    \<lparr>ns_ticks := ns_ticks (ge_stats (hear_time now s)) + 1\<rparr>\<rparr>"
  have u: "lonely h u" "ge_election u = ge_election s" "ge_next_anti_entropy u = ge_next_anti_entropy s"
    using assms by (simp_all add: u_def hear_time_def)
  from lonely_idle(5) [OF u(1)] obtain v where v: "probe_round now u = ([], v)" "lonely h v"
    "ge_election v = ge_election s" "ge_next_anti_entropy v = ge_next_anti_entropy s"
    using u(2,3) by metis
  define due where "due = (now \<ge> ge_next_anti_entropy s)"
  have "\<exists>w. tick_gossip now due v = ([], w) \<and> lonely h w \<and> ge_election w = ge_election s"
    using lonely_fanout [of h "v\<lparr>ge_next_anti_entropy := x\<rparr>" now for x] v
    by (fastforce simp: tick_gossip_def skip_def)
  then obtain w where w: "tick_gossip now due v = ([], w)" "lonely h w" "ge_election w = ge_election s"
    by blast
  have "gossip_and_election now v = then_do (tick_gossip now due) (election_tick now due) v"
    by (simp add: gossip_and_election_def tick_gossip_def due_def Let_def v(4))
  then have "gossip_and_election now v = election_tick now due w"
    by (simp add: then_do_def w(1))
  moreover have "on_tick now s = then_do (expire_probe now) (then_do (reap_suspects now)
      (then_do (reap_dead now) (then_do (reap_entries now) (then_do (probe_round now)
        (then_do (gossip_and_election now) arm_timer))))) u"
    by (simp add: on_tick_def u_def Let_def)
  ultimately have "on_tick now s = then_do (election_tick now due) arm_timer w"
    by (simp add: then_do_def lonely_idle [OF u(1)] v(1) case_prod_beta)
  with w(2,3) show ?thesis unfolding due_def by blast
qed

text \<open>So is its start: what it arms is its timers and its election.\<close>

lemma lonely_start:
  assumes "lonely h s"
  shows "\<exists>at t. start now s = ([ArmTimer at], t) \<and> lonely h t \<and> ge_election t = ge_election (election_start now s)
    \<and> ge_next_anti_entropy t = time_saturating_add now 200"
proof -
  define u where "u = election_start now ((hear_time now s)
    \<lparr>ge_next_anti_entropy := time_saturating_add now 200, ge_next_probe := time_saturating_add now 100\<rparr>)"
  have cfg: "gossip_interval_ms (ge_config s) = 200" "probe_interval_ms (ge_config s) = 100"
    using assms by (simp_all add: lonely_def lone_config_def config_default_def)
  have u: "lonely h u" "ge_election u = ge_election (election_start now s)"
    "ge_next_anti_entropy u = time_saturating_add now 200"
    using assms by (simp_all add: u_def hear_time_def election_start_def upd_el_def)
  from lonely_fanout [OF u(1)] obtain t where t: "disseminate_digest now u = ([], t)" "lonely h t"
    "ge_election t = ge_election u" "ge_next_anti_entropy t = ge_next_anti_entropy u" by blast
  have "start now s = then_do (disseminate_digest now) arm_timer u"
    using cfg by (simp add: start_def Let_def u_def hear_time_def)
  then have "start now s = ([ArmTimer (next_deadline t)], t)"
    by (simp add: then_do_def t arm_timer_def)
  with t u show ?thesis by simp
qed

end
