(* ===== verification/Epoch_Safety.thy ===== *)
theory Epoch_Safety
  imports Quorum_Safety Lone_Run
begin

text \<open>
  The promises of the quorum election over a whole group, on top of the invariant of
  \<open>Quorum_Safety\<close>: one host per epoch, and one grant per voter and epoch. A concrete run, one
  voter electing itself through the real entry points, shows that the promises are not vacuous.
\<close>


section \<open>A concrete run\<close>

definition lone_roster :: voter_roster where
  "lone_roster = VoterRoster [lone_node]"

definition lone_hosted :: hosted_config where
  "lone_hosted = \<lparr>hc_activation = Quorum lone_roster, hc_lease_ms = 1000\<rparr>"

definition lone_follower :: "quorum_state \<Rightarrow> election" where
  "lone_follower q = (election_new lone_hosted)\<lparr>el_no_claim_before := 1000, el_quorum := Some q\<rparr>"

lemma lone_boot:
  "\<exists>es s q. start 0 (restore (RecoveringEngine (lone_engine lone_hosted)) (RecoveredGrant None)) = (es, s)
     \<and> lonely lone_hosted s \<and> ge_election s = Some (lone_follower q) \<and> q_granted q = None
     \<and> q_grant_promise_until q = 0"
proof -
  define q where "q = (the (el_quorum (election_new lone_hosted)))\<lparr>q_grant_promise_until := 0\<rparr>"
  define s where "s = restore (RecoveringEngine (lone_engine lone_hosted)) (RecoveredGrant None)"
  have s: "lonely lone_hosted s" "ge_election (election_start 0 s) = Some (lone_follower q)"
    using lonely_lone_engine [of lone_hosted]
    by (simp_all add: s_def election_start_def upd_q_def upd_el_def lone_follower_def q_def election_new_def
        quorum_for_activation_def lone_hosted_def quorum_start_def activation_window_ms_def sat_add_def)
  have "q_granted q = None" "q_grant_promise_until q = 0"
    by (simp_all add: q_def election_new_def quorum_for_activation_def lone_hosted_def)
  with lonely_start [OF s(1), of 0] s(2) show ?thesis
    unfolding s_def [symmetric] by fastforce
qed

lemma lone_elects:
  assumes s: "lonely lone_hosted s" "ge_election s = Some (lone_follower q)" "q_granted q = None"
    "q_grant_promise_until q = 0"
  shows "\<exists>rest t. on_tick 1000 s =
    (PersistGrant 1 lone_node # LeadershipChanged 1 (Some lone_node) # rest, t)"
proof -
  define due where "due = (1000 \<ge> ge_next_anti_entropy s)"
  from lonely_tick [OF s(1), of 1000] obtain w where w: "lonely lone_hosted w" "ge_election w = ge_election s"
    "on_tick 1000 s = then_do (election_tick 1000 due) arm_timer w" unfolding due_def by blast
  have "ge_coordinator w = Some lone_node" "ge_local w = lone_node" "\<not> ge_leaving w"
    using w(1) by (simp_all add: lonely_def)
  then have "\<exists>es t. election_tick 1000 due w =
      (PersistGrant 1 lone_node # LeadershipChanged 1 (Some lone_node) # es, t)"
    using w(2) s(2-4)
    by (simp add: election_tick_def then_do_def tick_follower_def lone_follower_def election_new_def
        guard_opens_def is_coordinator_def el_is_external_def lone_hosted_def activation_window_ms_def
        upd_el_def upd_q_def quorum_open_round_def quorum_of_def self_grant_def open_round_def
        record_grant_def is_voter_def quorum_voters_def el_voters_def lone_roster_def roster_contains_def
        grant_verdict_def Let_def sat_add_def emit_def close_round_if_majority_def majority_def
        activate_def lease_ms_of_def case_prod_beta)
  then obtain es t where "election_tick 1000 due w =
      (PersistGrant 1 lone_node # LeadershipChanged 1 (Some lone_node) # es, t)" by blast
  then show ?thesis by (simp add: w(3) then_do_def case_prod_beta)
qed


lemma lone_ok: "quorum_config lone_roster (lone_config lone_hosted)" "node_ok lone_node" "group_ok lone_group"
  by (simp_all add: quorum_config_def lone_config_def lone_hosted_def lone_node_def lone_group_def
      codec_ok_defs str_ok_def len_ok_def)

definition booted :: "group_engine \<Rightarrow> effect list \<Rightarrow> world" where
  "booted s es = execs lone_node es (init_world\<lparr>w_up := (w_up init_world)(lone_node := Some s)\<rparr>)"

lemma lone_boot_step:
  "\<exists>es s q. w_step lone_roster lone_group init_world (booted s es) \<and> lonely lone_hosted s
     \<and> ge_election s = Some (lone_follower q) \<and> q_granted q = None \<and> q_grant_promise_until q = 0"
proof -
  obtain es s q where b: "start 0 (restore (RecoveringEngine (lone_engine lone_hosted)) (RecoveredGrant None)) = (es, s)"
    "lonely lone_hosted s" "ge_election s = Some (lone_follower q)" "q_granted q = None" "q_grant_promise_until q = 0"
    using lone_boot by blast
  have "recovering lone_group lone_node [] (lone_config lone_hosted) = Inr (RecoveringEngine (lone_engine lone_hosted))"
    by (simp add: recovering_def engine_new_lone)
  then have "w_step lone_roster lone_group init_world (booted s es)"
    unfolding booted_def
    by (rule w_step.boot [rotated 3]) (use b(1) lone_ok in \<open>simp_all add: init_world_def\<close>)
  with b show ?thesis by blast
qed

lemma lone_run:
  "\<exists>w. reachable lone_roster lone_group w \<and> (1, lone_node) \<in> lg_hosts (w_log w)
     \<and> (lone_node, 1, lone_node) \<in> lg_grants (w_log w)"
proof -
  obtain es s q where b: "w_step lone_roster lone_group init_world (booted s es)" "lonely lone_hosted s"
    "ge_election s = Some (lone_follower q)" "q_granted q = None" "q_grant_promise_until q = 0"
    using lone_boot_step by blast
  from lone_elects [OF b(2-5)] obtain rest t where
    k: "on_tick 1000 s = (PersistGrant 1 lone_node # LeadershipChanged 1 (Some lone_node) # rest, t)" by blast
  define w where "w = booted s es"
  define w' where "w' = execs lone_node (PersistGrant 1 lone_node # LeadershipChanged 1 (Some lone_node) # rest)
    (w\<lparr>w_up := (w_up w)(lone_node := Some t)\<rparr>)"
  have "w_up w lone_node = Some s" by (simp add: w_def booted_def)
  then have "w_step lone_roster lone_group w w'"
    unfolding w'_def using k by (intro w_step.event [of w lone_node s "Tick 1000"]) simp_all
  then have "reachable lone_roster lone_group w'"
    using b(1) reachable.init reachable.step unfolding w_def by blast
  moreover have "(1, lone_node) \<in> lg_hosts (w_log w')" "(lone_node, 1, lone_node) \<in> lg_grants (w_log w')"
    using log_effects_grow by (force simp: w'_def)+
  ultimately show ?thesis by blast
qed


section \<open>One host per epoch\<close>

text \<open>Node \<open>n\<close> is, or at some point of the run announced itself as, host of epoch \<open>e\<close>.\<close>

definition hosts_epoch :: "world \<Rightarrow> u64 \<Rightarrow> node_id \<Rightarrow> bool" where
  "hosts_epoch w e n \<longleftrightarrow> (e, n) \<in> lg_hosts (w_log w)
     \<or> (case w_up w n of None \<Rightarrow> False | Some s \<Rightarrow> engine_role s = Host \<and> fst (leadership s) = e)"

lemma hosts_epoch_logged:
  assumes "world_ok r grp w" "hosts_epoch w e n"
  shows "(e, n) \<in> lg_hosts (w_log w)"
proof (cases "w_up w n")
  case (Some s)
  with assms(1) have "engine_ok r grp n (w_log w) s" by (simp add: world_ok_def)
  then show ?thesis
    using assms(2) Some
    by (auto simp: hosts_epoch_def engine_ok_def election_ok_def host_ok_def engine_role_def leadership_def)
qed (use assms(2) in \<open>simp add: hosts_epoch_def\<close>)

text \<open>
  C1. Under quorum activation one epoch never has two hosts: over every run of a group, with
  frames lost, repeated, delayed and reordered, nodes crashing at any point (also between two
  effects of one batch) and restarting from the persisted grant, any two nodes that ever host
  the same epoch are the same node.
\<close>

theorem one_host_per_epoch:
  assumes "reachable r grp w" "group_ok grp" "hosts_epoch w e a" "hosts_epoch w e b"
  shows "a = b"
proof -
  from reachable_ok [OF assms(1,2)] have ok: "world_ok r grp w" .
  then have run: "run_ok r w" by (simp add: world_ok_def)
  from run_okD(2) [OF run] show ?thesis
    by (rule backed_unique) (use run_okD(3) [OF run] hosts_epoch_logged [OF ok] assms(3,4) in auto)
qed

theorem one_host_per_epoch_witness:
  "\<exists>w. reachable lone_roster lone_group w \<and> {n. hosts_epoch w 1 n} = {lone_node}"
proof -
  obtain w where w: "reachable lone_roster lone_group w" "(1, lone_node) \<in> lg_hosts (w_log w)"
    using lone_run by blast
  then have "hosts_epoch w 1 lone_node" by (simp add: hosts_epoch_def)
  moreover from this have "n = lone_node" if "hosts_epoch w 1 n" for n
    using one_host_per_epoch [OF w(1) lone_ok(3) that] by blast
  ultimately show ?thesis using w(1) by blast
qed

text \<open>
  C6. A voter never endorses two claimants of one epoch, not even across a crash: all grants it
  ever persisted for an epoch name one claimant, and its store holds a grant at least as high as
  every one of them.
\<close>

theorem grants_one_per_epoch:
  assumes "reachable r grp w" "group_ok grp" "(v, e, c) \<in> lg_grants (w_log w)"
  shows "((v, e, c') \<in> lg_grants (w_log w)) = (c' = c)
    \<and> (\<exists>e0 c0. w_store w v = Some (e0, c0) \<and> e \<le> e0 \<and> (v, e0, c0) \<in> lg_grants (w_log w))"
proof
  from reachable_ok [OF assms(1,2)] have run: "run_ok r w" by (simp add: world_ok_def)
  from run_okD(2) [OF run] assms(3) show "((v, e, c') \<in> lg_grants (w_log w)) = (c' = c)" by blast
  from run_okD(1) [OF run, of v] assms(3)
  show "\<exists>e0 c0. w_store w v = Some (e0, c0) \<and> e \<le> e0 \<and> (v, e0, c0) \<in> lg_grants (w_log w)"
    by (auto simp: ledger_ok_def split: option.splits)
qed

theorem grants_one_per_epoch_witness:
  "\<exists>w. reachable lone_roster lone_group w \<and> {c. (lone_node, 1, c) \<in> lg_grants (w_log w)} = {lone_node}"
proof -
  obtain w where w: "reachable lone_roster lone_group w" "(lone_node, 1, lone_node) \<in> lg_grants (w_log w)"
    using lone_run by blast
  from grants_one_per_epoch [OF w(1) lone_ok(3) w(2)] w(1) show ?thesis by blast
qed

end
