(* ===== verification/Anchor_Driver.thy ===== *)
theory Anchor_Driver
  imports Engine
begin

text \<open>
  The task that turns a group's anchor prompts into conditional writes
  (\<open>crates/groupnet-runtime/src/anchor.rs\<close>). Every \<open>await\<close> of the task is an explicit state: the
  call it waits for, with what the code keeps across it. The store behind the trait is not part
  of the repository; its answers are arguments here. What a turn hands to the group actor is a
  list of commands, each of which the bounded inbox may drop.
\<close>


section \<open>The trait's vocabulary\<close>

type_synonym anchor_token = str

datatype anchor_write_if = Absent | Matches anchor_token

datatype anchor_cas = Stored anchor_token | Mismatch | Unknown

text \<open>An \<open>io::Result\<close>: the error carries nothing the code looks at.\<close>

datatype 'a io_result = IoErr | IoOk 'a

record leadership_view =
  ld_epoch :: u64
  ld_host :: "node_id option"
  ld_role :: role

definition observed :: "u64 \<Rightarrow> node_id option \<Rightarrow> node_id \<Rightarrow> leadership_view" where
  "observed epoch host local =
     \<lparr>ld_epoch = epoch, ld_host = host, ld_role = (if host = Some local then Host else Follower)\<rparr>"


section \<open>The claimant\<close>

record held =
  hd_epoch :: u64
  hd_token :: anchor_token
  hd_expires_at_wall_ms :: u64

datatype posture = PostureRenew held | PostureClaim | PostureWait

datatype renewing = RenewingYes | RenewingNo

record anchor_claimant =
  ct_local :: node_id
  ct_lease_ms :: u64
  ct_steal_margin_ms :: u64
  ct_held :: "held option"
  ct_retry_at_wall_ms :: "u64 option"

text \<open>The calls a round can be waiting for.\<close>

datatype awaiting =
    AwaitClaimLoad u64 time u64
  | AwaitStore anchor_write_if anchor_record time renewing
  | AwaitResolve anchor_record time
  | AwaitSuperseded
  | AwaitRelease anchor_write_if anchor_record

type_synonym turn = "command list \<times> awaiting option \<times> anchor_claimant"

definition ct_terms :: "anchor_claimant \<Rightarrow> anchor_terms" where
  "ct_terms c = \<lparr>at_ttl_ms = ct_lease_ms c, at_steal_margin_ms = ct_steal_margin_ms c\<rparr>"

definition posture_of :: "leadership_view \<Rightarrow> u64 \<Rightarrow> anchor_claimant \<Rightarrow> posture \<times> anchor_claimant" where
  "posture_of lead w0 c =
     (case ct_held c of
        None \<Rightarrow> (PostureClaim, c)
      | Some held \<Rightarrow>
          if ld_epoch lead > hd_epoch held then (PostureClaim, c\<lparr>ct_held := None\<rparr>)
          else if ld_epoch lead = hd_epoch held \<and> ld_host lead = Some (ct_local c)
          then (PostureRenew held, c)
          else if w0 \<ge> hd_expires_at_wall_ms held then (PostureClaim, c\<lparr>ct_held := None\<rparr>)
          else (PostureWait, c))"

definition observe :: "anchor_record \<Rightarrow> command" where
  "observe rec = AnchorObserved (ar_epoch rec) (ar_host rec)"

definition won :: "u64 \<Rightarrow> anchor_token \<Rightarrow> u64 \<Rightarrow> time \<Rightarrow> anchor_claimant \<Rightarrow> turn" where
  "won epoch token expires_at_wall_ms t0 c =
     ([AnchorActivated epoch (time_saturating_add t0 (ct_lease_ms c))], None,
      c\<lparr>ct_held := Some \<lparr>hd_epoch = epoch, hd_token = token,
                          hd_expires_at_wall_ms = expires_at_wall_ms\<rparr>\<rparr>)"

definition anchor_write :: "anchor_write_if \<Rightarrow> anchor_record \<Rightarrow> time \<Rightarrow> renewing \<Rightarrow> anchor_claimant \<Rightarrow> turn" where
  "anchor_write pre rec t0 renewing c = ([], Some (AwaitStore pre rec t0 renewing), c)"

definition renew :: "held \<Rightarrow> time \<Rightarrow> u64 \<Rightarrow> anchor_claimant \<Rightarrow> turn" where
  "renew held t0 w0 c =
     (if sat_sub (hd_expires_at_wall_ms held) w0 > ct_lease_ms c div 2 then ([], None, c)
      else anchor_write (Matches (hd_token held)) (renewal_record (ct_terms c) (ct_local c) (hd_epoch held) w0)
             t0 RenewingYes c)"

text \<open>What \<open>claim\<close> does once the load has answered.\<close>

definition claim_loaded ::
  "(anchor_record \<times> anchor_token) option io_result \<Rightarrow> u64 \<Rightarrow> time \<Rightarrow> u64 \<Rightarrow> anchor_claimant \<Rightarrow> turn" where
  "claim_loaded answer epoch_hint t0 w0 c =
     (case answer of
        IoErr \<Rightarrow> ([], None, c)
      | IoOk loaded \<Rightarrow>
          (case plan_claim (ct_terms c) (ct_local c) epoch_hint (map_option fst loaded) w0 of
             Yield retry_at_wall_ms \<Rightarrow>
               (case loaded of None \<Rightarrow> [] | Some (rec, _) \<Rightarrow> [observe rec], None,
                c\<lparr>ct_retry_at_wall_ms := Some retry_at_wall_ms\<rparr>)
           | Create rec \<Rightarrow> anchor_write Absent rec t0 RenewingNo c
           | Supersede rec \<Rightarrow>
               (case map_option snd loaded of
                  None \<Rightarrow> ([], None, c)
                | Some token \<Rightarrow> anchor_write (Matches token) rec t0 RenewingNo c)))"

definition superseded :: "anchor_claimant \<Rightarrow> turn" where
  "superseded c = ([], Some AwaitSuperseded, c\<lparr>ct_held := None\<rparr>)"

definition superseded_loaded ::
  "(anchor_record \<times> anchor_token) option io_result \<Rightarrow> anchor_claimant \<Rightarrow> turn" where
  "superseded_loaded answer c =
     (case answer of IoOk (Some (rec, _)) \<Rightarrow> ([observe rec], None, c) | _ \<Rightarrow> ([], None, c))"

text \<open>What \<open>write\<close> does once the store has answered.\<close>

definition wrote ::
  "anchor_cas io_result \<Rightarrow> anchor_record \<Rightarrow> time \<Rightarrow> renewing \<Rightarrow> anchor_claimant \<Rightarrow> turn" where
  "wrote answer attempted t0 renewing c =
     (case answer of
        IoOk (Stored token) \<Rightarrow>
          won (ar_epoch attempted) token (ar_expires_at_wall_ms attempted) t0 c
      | IoOk Mismatch \<Rightarrow> if renewing = RenewingYes then superseded c else ([], None, c)
      | _ \<Rightarrow> ([], Some (AwaitResolve attempted t0), c))"

definition resolved ::
  "(anchor_record \<times> anchor_token) option io_result \<Rightarrow> anchor_record \<Rightarrow> time \<Rightarrow> anchor_claimant \<Rightarrow> turn" where
  "resolved answer attempted t0 c =
     (case answer of
        IoErr \<Rightarrow> ([], None, c\<lparr>ct_held := None\<rparr>)
      | IoOk loaded \<Rightarrow>
          (case loaded of
             Some (rec, token) \<Rightarrow>
               if ambiguous_applied (ct_local c) attempted (Some rec)
               then won (ar_epoch attempted) token (ar_expires_at_wall_ms rec) t0 c
               else ([observe rec], None, c\<lparr>ct_held := None\<rparr>)
           | None \<Rightarrow> ([], None, c\<lparr>ct_held := None\<rparr>)))"

definition release :: "u64 \<Rightarrow> anchor_claimant \<Rightarrow> awaiting option \<times> anchor_claimant" where
  "release wall_ms c =
     (case ct_held c of
        None \<Rightarrow> (None, c)
      | Some held \<Rightarrow>
          (Some (AwaitRelease (Matches (hd_token held))
             \<lparr>ar_epoch = hd_epoch held, ar_host = ct_local c, ar_expires_at_wall_ms = wall_ms\<rparr>),
           c\<lparr>ct_held := None\<rparr>))"

definition claimant_round :: "u64 \<Rightarrow> leadership_view \<Rightarrow> time \<Rightarrow> u64 \<Rightarrow> anchor_claimant \<Rightarrow> turn" where
  "claimant_round epoch_hint lead t0 w0 c0 =
     (let (posture, c) = posture_of lead w0 c0
      in case posture of
           PostureRenew held \<Rightarrow> renew held t0 w0 c
         | PostureWait \<Rightarrow> ([], None, c)
         | PostureClaim \<Rightarrow>
             if (case ct_retry_at_wall_ms c of None \<Rightarrow> False | Some at \<Rightarrow> w0 < at) then ([], None, c)
             else ([], Some (AwaitClaimLoad epoch_hint t0 w0), c\<lparr>ct_retry_at_wall_ms := None\<rparr>))"


section \<open>The task\<close>

text \<open>
  The prompt slot holds one hint; the leadership the task reads is the last one published, and
  an edge is a publication the task has not looked at.
\<close>

record anchor_task =
  tk_claimant :: anchor_claimant
  tk_prompt :: "u64 option"
  tk_leadership :: leadership_view
  tk_edge :: bool
  tk_hosting :: bool
  tk_await :: "awaiting option"

definition task_new :: "node_id \<Rightarrow> u64 \<Rightarrow> u64 \<Rightarrow> leadership_view \<Rightarrow> anchor_task" where
  "task_new local lease_ms steal_margin_ms lead =
     \<lparr>tk_claimant = \<lparr>ct_local = local, ct_lease_ms = lease_ms, ct_steal_margin_ms = steal_margin_ms,
                     ct_held = None, ct_retry_at_wall_ms = None\<rparr>,
      tk_prompt = None, tk_leadership = lead, tk_edge = False,
      tk_hosting = (ld_role lead = Host), tk_await = None\<rparr>"

text \<open>What the actor does to the task: \<open>try_send\<close> into the slot, and a \<open>watch\<close> publication.\<close>

definition offer_prompt :: "u64 \<Rightarrow> anchor_task \<Rightarrow> anchor_task" where
  "offer_prompt epoch_hint k = (if tk_prompt k = None then k\<lparr>tk_prompt := Some epoch_hint\<rparr> else k)"

definition publish_leadership :: "leadership_view \<Rightarrow> anchor_task \<Rightarrow> anchor_task" where
  "publish_leadership lead k = k\<lparr>tk_leadership := lead, tk_edge := True\<rparr>"

definition task_turn :: "turn \<Rightarrow> anchor_task \<Rightarrow> command list \<times> anchor_task" where
  "task_turn t k = (fst t, k\<lparr>tk_claimant := snd (snd t), tk_await := fst (snd t)\<rparr>)"

text \<open>The two branches of the task's \<open>select!\<close>, taken while it waits for nothing else.\<close>

definition task_prompted :: "time \<Rightarrow> u64 \<Rightarrow> anchor_task \<Rightarrow> command list \<times> anchor_task" where
  "task_prompted t0 w0 k =
     (case tk_prompt k of
        None \<Rightarrow> ([], k)
      | Some epoch_hint \<Rightarrow>
          task_turn (claimant_round epoch_hint (tk_leadership k) t0 w0 (tk_claimant k)) (k\<lparr>tk_prompt := None\<rparr>))"

definition task_changed :: "u64 \<Rightarrow> anchor_task \<Rightarrow> anchor_task" where
  "task_changed wall_ms k0 =
     (let k = k0\<lparr>tk_edge := False\<rparr>;
          now_hosting = (ld_role (tk_leadership k) = Host)
      in if tk_hosting k \<and> \<not> now_hosting
         then
           let (await, c) = release wall_ms (tk_claimant k)
           in (case await of
                 None \<Rightarrow> k\<lparr>tk_claimant := c, tk_prompt := None, tk_hosting := now_hosting\<rparr>
               | Some _ \<Rightarrow> k\<lparr>tk_claimant := c, tk_await := await\<rparr>)
         else k\<lparr>tk_hosting := now_hosting\<rparr>)"

text \<open>A load has answered; a store has answered.\<close>

definition task_loaded ::
  "(anchor_record \<times> anchor_token) option io_result \<Rightarrow> anchor_task \<Rightarrow> command list \<times> anchor_task" where
  "task_loaded answer k =
     (case tk_await k of
        Some (AwaitClaimLoad epoch_hint t0 w0) \<Rightarrow>
          task_turn (claim_loaded answer epoch_hint t0 w0 (tk_claimant k)) k
      | Some (AwaitResolve attempted t0) \<Rightarrow>
          task_turn (resolved answer attempted t0 (tk_claimant k)) k
      | Some AwaitSuperseded \<Rightarrow> task_turn (superseded_loaded answer (tk_claimant k)) k
      | _ \<Rightarrow> ([], k))"

definition task_stored :: "anchor_cas io_result \<Rightarrow> anchor_task \<Rightarrow> command list \<times> anchor_task" where
  "task_stored answer k =
     (case tk_await k of
        Some (AwaitStore _ attempted t0 renewing) \<Rightarrow>
          task_turn (wrote answer attempted t0 renewing (tk_claimant k)) k
      | Some (AwaitRelease _ _) \<Rightarrow> ([], k\<lparr>tk_await := None, tk_prompt := None, tk_hosting := False\<rparr>)
      | _ \<Rightarrow> ([], k))"

end
