(* ===== verification/Anchor_Safety.thy ===== *)
theory Anchor_Safety
  imports Anchor_Driver Lone_Run Election_Frame
begin

text \<open>
  Why one external epoch has one host. The anchor allocates the epochs: an engine under external
  activation becomes host only on a report of its anchor task, the task reports only a write the
  register holds, and the register moves to another pair only by raising the epoch. The argument
  is carried out over whole nodes, engine and anchor task together, over a register whose answers
  get lost and whose writes may land late, and over crashes that lose everything but the register.
\<close>


section \<open>An engine under external activation\<close>

definition external_ok :: "node_id \<Rightarrow> group_engine \<Rightarrow> bool" where
  "external_ok n s \<longleftrightarrow> ge_local s = n \<and> (\<exists>el. ge_election s = Some el \<and> el_is_external el
     \<and> el_quorum el = None \<and> el_claim el = None \<and> el_role el \<noteq> Claimant)"

text \<open>An effect that announces \<open>n\<close> as host.\<close>

fun announces :: "node_id \<Rightarrow> effect \<Rightarrow> bool" where
  "announces n (LeadershipChanged e (Some m)) = (m = n)"
| "announces n _ = False"

definition external_step :: "node_id \<Rightarrow> group_engine \<Rightarrow> effect list \<Rightarrow> group_engine \<Rightarrow> bool" where
  "external_step n s es t \<longleftrightarrow> (external_ok n s \<longrightarrow> external_ok n t \<and> (\<forall>x \<in> set es. \<not> announces n x))"

lemma external_ok_core: "core t = core s \<Longrightarrow> external_ok n t = external_ok n s"
  by (simp add: external_ok_def core_def)

lemma quiet_not_announces: "quiet_effect x \<Longrightarrow> \<not> announces n x"
  by (cases "(n, x)" rule: announces.cases) auto

lemma quiet_external: "quiet s es t \<Longrightarrow> external_step n s es t"
  using quiet_not_announces external_ok_core [of t s n] by (auto simp: external_step_def quiet_def)

interpretation ext: election_frame "external_step n" for n
proof
  show "quiet s e t \<Longrightarrow> external_step n s e t" for s e t by (rule quiet_external)
qed (auto simp: external_step_def)

lemma external_no_quorum:
  assumes "external_ok n s"
  shows "\<not> is_quorum s" "quorum_voters s = None" "quorum_of s = None" "\<not> is_voter s" "\<not> is_settle s"
    "is_external s"
proof -
  from assms obtain el where el: "ge_election s = Some el" "el_is_external el" "el_quorum el = None"
    by (auto simp: external_ok_def)
  from el(2) obtain m where "hc_activation (el_cfg el) = External m"
    by (cases "hc_activation (el_cfg el)") (auto simp: el_is_external_def)
  with el show "\<not> is_quorum s" "quorum_voters s = None" "quorum_of s = None" "\<not> is_voter s" "\<not> is_settle s"
    "is_external s"
    by (simp_all add: is_quorum_def quorum_voters_def quorum_of_def is_voter_def is_settle_def
      is_external_def el_voters_def el_is_external_def closes_on_window_def)
qed

lemma external_upd_q: "external_ok n s \<Longrightarrow> upd_q f s = s"
  by (auto simp: external_ok_def upd_q_def upd_el_def)

lemma external_ok_upd_el:
  assumes "external_ok n s"
    and "\<And>el. el_is_external el \<Longrightarrow> el_quorum el = None \<Longrightarrow> el_claim el = None \<Longrightarrow> el_role el \<noteq> Claimant \<Longrightarrow>
      el_is_external (f el) \<and> el_quorum (f el) = None \<and> el_claim (f el) = None \<and> el_role (f el) \<noteq> Claimant"
  shows "external_ok n (upd_el f s)"
  using assms by (auto simp: external_ok_def upd_el_def)

lemma external_silent:
  "(\<And>s. external_ok n s \<Longrightarrow> external_ok n (snd (f s)) \<and> (\<forall>x \<in> set (fst (f s)). \<not> announces n x)) \<Longrightarrow>
     keeps (external_step n) f"
  by (simp add: keeps_def external_step_def)

lemma external_is_external_upd [simp]:
  "el_is_external (el\<lparr>el_role := r\<rparr>) = el_is_external el"
  "el_is_external (el\<lparr>el_host := x\<rparr>) = el_is_external el"
  "el_is_external (el\<lparr>el_epoch := e\<rparr>) = el_is_external el"
  "el_is_external (el\<lparr>el_highest_seen := e\<rparr>) = el_is_external el"
  "el_is_external (el\<lparr>el_claim := c\<rparr>) = el_is_external el"
  "el_is_external (el\<lparr>el_lease_until := t\<rparr>) = el_is_external el"
  "el_is_external (el\<lparr>el_beacon_cursor := b\<rparr>) = el_is_external el"
  "el_is_external (el\<lparr>el_no_claim_before := t\<rparr>) = el_is_external el"
  "el_is_external (el\<lparr>el_quorum := q\<rparr>) = el_is_external el"
  by (simp_all add: el_is_external_def)

lemma keeps_external_demote: "keeps (external_step n) demote_host"
  by (rule external_silent) (auto simp: demote_host_def external_ok_def split: option.splits)

lemma external_adopt:
  "external_ok n s \<Longrightarrow> h \<noteq> Some n \<Longrightarrow> external_step n s (fst (adopt e h s)) (snd (adopt e h s))"
  by (cases h) (auto simp: external_step_def adopt_def Let_def external_ok_def split: option.splits)

lemma keeps_external_learn_self: "keeps (external_step n) (learn_self_named e)"
  by (rule external_silent) (auto simp: learn_self_named_def Let_def external_ok_def split: option.splits)

lemma announces_send [simp]: "\<not> announces n (send_lead s b to)" "\<not> announces n (Send to w)"
  by (simp_all add: send_lead_def)

lemma keeps_external_on_lead: "keeps (external_step n) (on_lead from f now)"
proof (rule external_silent)
  fix s
  assume ok: "external_ok n s"
  note nq = external_no_quorum [OF ok]
  have claim: "keeps (external_step n) (on_lead_claim from e c now)" for e c
    unfolding on_lead_claim_def
  proof (intro ext.keeps_then_do ext.keeps_quiet_frame [OF keeps_quiet_learn_claimant])
    show "keeps (external_step n) (silently (upd_el (\<lambda>el. el\<lparr>el_highest_seen := max (el_highest_seen el) e\<rparr>)))"
      by (rule external_silent) (auto simp: silently_def intro!: external_ok_upd_el)
    show "keeps (external_step n) (repair_claimant from e c)"
      by (rule external_silent) (auto simp: repair_claimant_def Let_def split: option.splits)
    show "keeps (external_step n) (on_claim_as_voter e c now)"
      by (rule external_silent)
         (auto simp: on_claim_as_voter_def record_grant_def floor_answer_def dest: external_no_quorum(4))
    show "keeps (external_step n) (silently (\<lambda>s. if outranked s e c then abandon_claim s else s))"
      by (rule external_silent) (auto simp: silently_def abandon_claim_def intro!: external_ok_upd_el)
  qed
  have state: "external_ok n (snd (on_lead_state from e h s)) \<and> (\<forall>x \<in> set (fst (on_lead_state from e h s)). \<not> announces n x)" for e h
  proof -
    have r: "note_resign_receipt from e h s = s"
      using external_upd_q [OF ok] by (simp add: note_resign_receipt_def)
    have loc: "ge_local s = n" using ok by (simp add: external_ok_def)
    have "external_ok n (snd (learn_self_named e s)) \<and> (\<forall>x \<in> set (fst (learn_self_named e s)). \<not> announces n x)"
      using keeps_external_learn_self [of n e] ok by (simp add: keeps_def external_step_def)
    moreover have "external_ok n (snd (adopt e h s)) \<and> (\<forall>x \<in> set (fst (adopt e h s)). \<not> announces n x)"
      if "h \<noteq> Some n"
      using external_adopt [OF ok that] ok by (simp add: external_step_def)
    ultimately show ?thesis
      using ok loc unfolding on_lead_state_def Let_def r
      by (auto split: option.splits ordering.splits)
  qed
  show "external_ok n (snd (on_lead from f now s)) \<and> (\<forall>x \<in> set (fst (on_lead from f now s)). \<not> announces n x)"
    using ok state claim nq(1)
    by (auto simp: on_lead_def on_lead_grant_def on_lead_resign_def keeps_def external_step_def
        split: option.splits lead_body.splits)
qed

lemma keeps_external_beacon: "keeps (external_step n) beacon"
proof (rule external_silent)
  fix s
  assume "external_ok n s"
  then have "external_ok n (snd (rotated_targets c k s))" for c k
    by (simp add: external_ok_core [of "snd (rotated_targets c k s)" s])
  then show "external_ok n (snd (beacon s)) \<and> (\<forall>x \<in> set (fst (beacon s)). \<not> announces n x)"
    by (auto simp: beacon_def beacon_targets_def Let_def case_prod_beta intro!: external_ok_upd_el split: option.splits)
qed

lemma keeps_external_election_tick: "keeps (external_step n) (election_tick now due)"
proof (rule external_silent)
  fix s
  assume ok: "external_ok n s"
  have ren: "keeps (external_step n) (renewal_round now)"
    by (rule external_silent) (auto simp: renewal_round_def dest: external_no_quorum(1))
  have prompt: "keeps (external_step n) (\<lambda>s. (external_renewal_prompt s, s))"
    by (rule external_silent) (auto simp: external_renewal_prompt_def)
  have host: "keeps (external_step n) (tick_host now due)"
  proof (rule external_silent)
    fix s
    assume ok: "external_ok n s"
    have "tick_host now due s = (if (case ge_election s of None \<Rightarrow> False | Some el \<Rightarrow> now \<ge> el_lease_until el)
         then demote_host s else if \<not> due then ([], s)
         else then_do (renewal_round now) (then_do (\<lambda>s. (external_renewal_prompt s, s)) beacon) s)"
      using external_no_quorum(5) [OF ok] by (simp add: tick_host_def Let_def)
    moreover have "keeps (external_step n) (then_do (renewal_round now)
        (then_do (\<lambda>s. (external_renewal_prompt s, s)) beacon))"
      by (intro ext.keeps_then_do ren prompt keeps_external_beacon)
    ultimately show "external_ok n (snd (tick_host now due s)) \<and> (\<forall>x \<in> set (fst (tick_host now due s)). \<not> announces n x)"
      using ok keeps_external_demote [of n] by (simp add: keeps_def external_step_def)
  qed
  have follower: "keeps (external_step n) (tick_follower now due)"
    by (rule external_silent)
       (auto simp: tick_follower_def Let_def external_claim_prompt_def external_ok_def split: option.splits)
  have resend: "keeps (external_step n) (\<lambda>s. (resend_resign due s, s))"
    by (rule external_silent) (auto simp: resend_resign_def dest: external_no_quorum(3))
  obtain el where el: "ge_election s = Some el" "el_role el \<noteq> Claimant" using ok by (auto simp: external_ok_def)
  have "keeps (external_step n) (then_do (if el_role el = Host then tick_host now due else tick_follower now due)
      (\<lambda>s. (resend_resign due s, s)))"
    by (intro ext.keeps_then_do ext.keeps_if host follower resend)
  moreover have "election_tick now due s = then_do (if el_role el = Host then tick_host now due
      else tick_follower now due) (\<lambda>s. (resend_resign due s, s)) s"
    using el by (cases "el_role el") (simp_all add: election_tick_def)
  ultimately show "external_ok n (snd (election_tick now due s))
      \<and> (\<forall>x \<in> set (fst (election_tick now due s)). \<not> announces n x)"
    using ok by (simp add: keeps_def external_step_def)
qed

lemma keeps_external_entry:
  "keeps (external_step n) (on_tick now)" "keeps (external_step n) (on_message from b now)"
  "keeps (external_step n) (start now)"
  by (intro ext.keeps_on_tick ext.keeps_on_message ext.keeps_start keeps_external_election_tick
      keeps_external_on_lead external_silent;
      simp add: silently_def election_start_def external_ok_upd_el quorum_start_def)+

lemma keeps_external_apply_cmd:
  assumes "\<And>e l. c \<noteq> AnchorActivated e l"
  shows "keeps (external_step n) (apply_cmd c)"
proof (rule ext.keeps_apply_cmd)
  have "keeps (external_step n) (then_do (if b then demote_host else skip) skip)" for b
    by (intro ext.keeps_then_do ext.keeps_if ext.keeps_skip keeps_external_demote)
  moreover have "election_on_leave s = then_do (if engine_role s = Host then demote_host else skip) skip s"
    if "external_ok n s" for s
    using that external_no_quorum(1) [OF that]
    by (auto simp: election_on_leave_def resign_epoch_def external_ok_def engine_role_def Let_def split: role.split)
  ultimately show "keeps (external_step n) election_on_leave"
    by (intro external_silent) (simp add: keeps_def external_step_def)
  show "keeps (external_step n) (on_anchor_observed e h)" for e h
  proof (rule external_silent)
    fix s
    assume ok: "external_ok n s"
    then have loc: "ge_local s = n" by (simp add: external_ok_def)
    have "external_ok n (snd (learn_self_named e s)) \<and> (\<forall>x \<in> set (fst (learn_self_named e s)). \<not> announces n x)"
      using keeps_external_learn_self [of n e] ok by (simp add: keeps_def external_step_def)
    moreover have "external_ok n (snd (adopt e (Some h) s)) \<and> (\<forall>x \<in> set (fst (adopt e (Some h) s)). \<not> announces n x)"
      if "h \<noteq> n"
      using external_adopt [OF ok, of "Some h" e] that ok by (simp add: external_step_def)
    ultimately show "external_ok n (snd (on_anchor_observed e h s))
        \<and> (\<forall>x \<in> set (fst (on_anchor_observed e h s)). \<not> announces n x)"
      using ok loc by (auto simp: on_anchor_observed_def split: option.splits)
  qed
qed (use assms in auto)

lemma external_activated:
  assumes "external_ok n s"
  shows "external_ok n (snd (on_anchor_activated e l s))"
    "x \<in> set (fst (on_anchor_activated e l s)) \<Longrightarrow> announces n x \<Longrightarrow> x = LeadershipChanged e (Some n)"
proof -
  have loc: "ge_local s = n" using assms by (simp add: external_ok_def)
  have act: "external_ok n (snd (activate e l s))"
    using assms by (auto simp: activate_def Let_def intro!: external_ok_upd_el)
  have lease: "external_ok n (upd_el (\<lambda>el. el\<lparr>el_lease_until := max (el_lease_until el) l\<rparr>) s)"
    by (rule external_ok_upd_el [OF assms]) simp
  show "external_ok n (snd (on_anchor_activated e l s))"
    using assms act lease by (auto simp: on_anchor_activated_def split: option.splits)
  assume "x \<in> set (fst (on_anchor_activated e l s))" "announces n x"
  then show "x = LeadershipChanged e (Some n)"
    using loc by (auto simp: on_anchor_activated_def activate_def broadcast_state_def Let_def
        split: option.splits if_splits)
qed



section \<open>Nodes and the register\<close>

text \<open>
  The register is one record and its version marker. A store may answer or not: a write that got
  no answer stays outstanding and may land at any later time, if its precondition holds then. The
  actor's inbox holds the reports of the task that have not been handled yet. On the side, the
  world records every pair the register ever held and every activation a node announced.
\<close>

record xworld =
  xw_engine :: "node_id \<Rightarrow> group_engine option"
  xw_task :: "node_id \<Rightarrow> anchor_task option"
  xw_inbox :: "node_id \<Rightarrow> command set"
  xw_net :: "(node_id \<times> node_id \<times> bytes) set"
  xw_register :: "(anchor_record \<times> anchor_token) option"
  xw_version :: nat
  xw_outstanding :: "(anchor_write_if \<times> anchor_record) set"
  xw_past :: "(u64 \<times> node_id) set"
  xw_hosts :: "(u64 \<times> node_id) set"

definition init_xworld :: xworld where
  "init_xworld = \<lparr>xw_engine = (\<lambda>_. None), xw_task = (\<lambda>_. None), xw_inbox = (\<lambda>_. {}), xw_net = {},
     xw_register = None, xw_version = 0, xw_outstanding = {}, xw_past = {}, xw_hosts = {}\<rparr>"

text \<open>The condition of a conditional write, and the write.\<close>

definition admits :: "(anchor_record \<times> anchor_token) option \<Rightarrow> anchor_write_if \<Rightarrow> bool" where
  "admits reg pre = (case pre of Absent \<Rightarrow> reg = None | Matches token \<Rightarrow> map_option snd reg = Some token)"

type_synonym marker = "nat \<Rightarrow> anchor_record \<Rightarrow> anchor_token"

definition put :: "marker \<Rightarrow> anchor_record \<Rightarrow> xworld \<Rightarrow> xworld" where
  "put ver rec w = w\<lparr>xw_register := Some (rec, ver (xw_version w) rec), xw_version := xw_version w + 1,
     xw_past := insert (ar_epoch rec, ar_host rec) (xw_past w)\<rparr>"

text \<open>
  What is asked of the store's version markers: two versions with the same marker hold the same
  record. A counter does that, and so does a digest of the content.
\<close>

definition identifies :: "marker \<Rightarrow> bool" where
  "identifies ver \<longleftrightarrow> (\<forall>i j r r'. ver i r = ver j r' \<longrightarrow> r = r')"

text \<open>What the actor does with an effect: send, publish, prompt.\<close>

definition upd_task :: "(anchor_task \<Rightarrow> anchor_task) \<Rightarrow> node_id \<Rightarrow> xworld \<Rightarrow> xworld" where
  "upd_task f n w = w\<lparr>xw_task := (xw_task w)(n := map_option f (xw_task w n))\<rparr>"

fun x_exec :: "node_id \<Rightarrow> effect \<Rightarrow> xworld \<Rightarrow> xworld" where
  "x_exec n (Send to b) w = w\<lparr>xw_net := insert (n, to, b) (xw_net w)\<rparr>"
| "x_exec n (LeadershipChanged e h) w =
     upd_task (publish_leadership (observed e h n)) n
       (if h = Some n then w\<lparr>xw_hosts := insert (e, n) (xw_hosts w)\<rparr> else w)"
| "x_exec n (AnchorClaimDue hint) w = upd_task (offer_prompt hint) n w"
| "x_exec n _ w = w"

definition x_execs :: "node_id \<Rightarrow> effect list \<Rightarrow> xworld \<Rightarrow> xworld" where
  "x_execs n es = fold (x_exec n) es"

fun anchor_report :: "command \<Rightarrow> bool" where
  "anchor_report (AnchorActivated _ _) = True"
| "anchor_report (AnchorObserved _ _) = True"
| "anchor_report _ = False"

datatype x_event = XDeliver node_id bytes time | XTick time | XIssue command

fun x_handle :: "x_event \<Rightarrow> step" where
  "x_handle (XDeliver from b now) = on_message from b now"
| "x_handle (XTick now) = on_tick now"
| "x_handle (XIssue c) = apply_cmd c"

fun x_possible :: "xworld \<Rightarrow> node_id \<Rightarrow> x_event \<Rightarrow> bool" where
  "x_possible w n (XDeliver from b now) = ((from, n, b) \<in> xw_net w)"
| "x_possible w n (XTick now) = True"
| "x_possible w n (XIssue c) = (anchor_report c \<longrightarrow> c \<in> xw_inbox w n)"

text \<open>The store request a task waits on, if it waits on one.\<close>

fun request_of :: "awaiting \<Rightarrow> (anchor_write_if \<times> anchor_record) option" where
  "request_of (AwaitStore pre rec _ _) = Some (pre, rec)"
| "request_of (AwaitRelease pre rec) = Some (pre, rec)"
| "request_of _ = None"

definition task_request :: "anchor_task \<Rightarrow> (anchor_write_if \<times> anchor_record) option" where
  "task_request k = Option.bind (tk_await k) request_of"

text \<open>A turn of the task at node \<open>n\<close>: its reports go to the inbox, where any of them may get lost.\<close>

definition turn_at :: "node_id \<Rightarrow> command list \<times> anchor_task \<Rightarrow> xworld \<Rightarrow> xworld" where
  "turn_at n ck w = w\<lparr>xw_task := (xw_task w)(n := Some (snd ck)),
     xw_inbox := (xw_inbox w)(n := xw_inbox w n \<union> set (fst ck))\<rparr>"

inductive x_step :: "marker \<Rightarrow> group_id \<Rightarrow> xworld \<Rightarrow> xworld \<Rightarrow> bool" for ver grp where
  boot: "\<lbrakk>xw_engine w n = None; mode cfg = Hosted h; hc_activation h = External margin;
      engine_new grp n seeds cfg = Inr s0; start now s0 = (es, s)\<rbrakk>
    \<Longrightarrow> x_step ver grp w (x_execs n es (w\<lparr>xw_engine := (xw_engine w)(n := Some s),
          xw_task := (xw_task w)(n := Some (task_new n (hc_lease_ms h) margin
            (observed (fst (leadership s0)) (snd (leadership s0)) n)))\<rparr>))"
| event: "\<lbrakk>xw_engine w n = Some s; x_possible w n ev; x_handle ev s = (es, t)\<rbrakk>
    \<Longrightarrow> x_step ver grp w (x_execs n es (w\<lparr>xw_engine := (xw_engine w)(n := Some t)\<rparr>))"
| prompted: "\<lbrakk>xw_task w n = Some k; tk_await k = None; tk_prompt k \<noteq> None\<rbrakk>
    \<Longrightarrow> x_step ver grp w (turn_at n (task_prompted t0 w0 k) w)"
| changed: "\<lbrakk>xw_task w n = Some k; tk_await k = None; tk_edge k\<rbrakk>
    \<Longrightarrow> x_step ver grp w (turn_at n ([], task_changed wall k) w)"
| loaded: "\<lbrakk>xw_task w n = Some k; tk_await k \<noteq> None; task_request k = None;
      answer = IoErr \<or> answer = IoOk (xw_register w)\<rbrakk>
    \<Longrightarrow> x_step ver grp w (turn_at n (task_loaded answer k) w)"
| stored: "\<lbrakk>xw_task w n = Some k; task_request k = Some (pre, rec); admits (xw_register w) pre\<rbrakk>
    \<Longrightarrow> x_step ver grp w (turn_at n (task_stored (IoOk (Stored (ver (xw_version w) rec))) k) (put ver rec w))"
| refused: "\<lbrakk>xw_task w n = Some k; task_request k = Some (pre, rec); \<not> admits (xw_register w) pre\<rbrakk>
    \<Longrightarrow> x_step ver grp w (turn_at n (task_stored (IoOk Mismatch) k) w)"
| unanswered: "\<lbrakk>xw_task w n = Some k; task_request k = Some (pre, rec); answer = IoErr \<or> answer = IoOk Unknown\<rbrakk>
    \<Longrightarrow> x_step ver grp w (turn_at n (task_stored answer k)
          (w\<lparr>xw_outstanding := insert (pre, rec) (xw_outstanding w)\<rparr>))"
| lands: "\<lbrakk>(pre, rec) \<in> xw_outstanding w; admits (xw_register w) pre\<rbrakk>
    \<Longrightarrow> x_step ver grp w (put ver rec (w\<lparr>xw_outstanding := xw_outstanding w - {(pre, rec)}\<rparr>))"
| crash: "x_step ver grp w (w\<lparr>xw_engine := (xw_engine w)(n := None), xw_task := (xw_task w)(n := None),
      xw_inbox := (xw_inbox w)(n := {}),
      xw_outstanding := xw_outstanding w \<union> set_option (Option.bind (xw_task w n) task_request)\<rparr>)"

inductive x_reachable :: "marker \<Rightarrow> group_id \<Rightarrow> xworld \<Rightarrow> bool" for ver grp where
  init: "x_reachable ver grp init_xworld"
| step: "x_reachable ver grp w \<Longrightarrow> x_step ver grp w w' \<Longrightarrow> x_reachable ver grp w'"

inductive_cases x_stepE: "x_step ver grp w w'"


section \<open>The invariant\<close>

definition stamped :: "marker \<Rightarrow> anchor_token \<Rightarrow> anchor_record \<Rightarrow> bool" where
  "stamped ver token rec \<longleftrightarrow> (\<exists>i. token = ver i rec)"

text \<open>
  A conditional write may land only where it raises the epoch or repeats the pair, short of the
  last epoch, which cannot be raised.
\<close>

definition justified :: "marker \<Rightarrow> anchor_write_if \<times> anchor_record \<Rightarrow> bool" where
  "justified ver q = (case q of
     (Absent, rec) \<Rightarrow> True
   | (Matches token, rec) \<Rightarrow> \<exists>r. stamped ver token r \<and> (ar_epoch r < ar_epoch rec \<or> ar_epoch rec = u64_max
       \<or> ar_epoch r = ar_epoch rec \<and> ar_host r = ar_host rec))"

definition claimant_ok :: "marker \<Rightarrow> node_id \<Rightarrow> anchor_claimant \<Rightarrow> bool" where
  "claimant_ok ver n c \<longleftrightarrow> ct_local c = n \<and> (\<forall>h. ct_held c = Some h \<longrightarrow>
     (\<exists>r. stamped ver (hd_token h) r \<and> ar_epoch r = hd_epoch h \<and> ar_host r = n))"

definition await_ok :: "marker \<Rightarrow> node_id \<Rightarrow> awaiting option \<Rightarrow> bool" where
  "await_ok ver n a \<longleftrightarrow> (\<forall>q. Option.bind a request_of = Some q \<longrightarrow> justified ver q \<and> ar_host (snd q) = n)"

definition task_ok :: "marker \<Rightarrow> node_id \<Rightarrow> anchor_task \<Rightarrow> bool" where
  "task_ok ver n k \<longleftrightarrow> claimant_ok ver n (tk_claimant k) \<and> await_ok ver n (tk_await k)"

text \<open>The register's history: it holds its last pair, and an epoch short of the last has one host.\<close>

definition past_ok :: "marker \<Rightarrow> (anchor_record \<times> anchor_token) option \<Rightarrow> (u64 \<times> node_id) set \<Rightarrow> bool" where
  "past_ok ver reg past \<longleftrightarrow>
     (case reg of
        None \<Rightarrow> past = {}
      | Some (r, token) \<Rightarrow> stamped ver token r \<and> (ar_epoch r, ar_host r) \<in> past
          \<and> (\<forall>e h. (e, h) \<in> past \<longrightarrow> e \<le> ar_epoch r))
   \<and> (\<forall>e h h'. (e, h) \<in> past \<longrightarrow> (e, h') \<in> past \<longrightarrow> e \<noteq> u64_max \<longrightarrow> h = h')"

definition reports_ok :: "(u64 \<times> node_id) set \<Rightarrow> node_id \<Rightarrow> command set \<Rightarrow> bool" where
  "reports_ok past n cs \<longleftrightarrow> (\<forall>e l. AnchorActivated e l \<in> cs \<longrightarrow> (e, n) \<in> past)"

definition xworld_ok :: "marker \<Rightarrow> xworld \<Rightarrow> bool" where
  "xworld_ok ver w \<longleftrightarrow> past_ok ver (xw_register w) (xw_past w)
     \<and> (\<forall>q \<in> xw_outstanding w. justified ver q)
     \<and> (\<forall>n s. xw_engine w n = Some s \<longrightarrow> external_ok n s)
     \<and> (\<forall>n k. xw_task w n = Some k \<longrightarrow> task_ok ver n k)
     \<and> (\<forall>n. reports_ok (xw_past w) n (xw_inbox w n))
     \<and> xw_hosts w \<subseteq> xw_past w"

lemma admitted_moves:
  assumes "identifies ver" "stamped ver token r" "admits (Some (r, token)) pre" "justified ver (pre, rec)"
  shows "ar_epoch r < ar_epoch rec \<or> ar_epoch rec = u64_max \<or> ar_epoch r = ar_epoch rec \<and> ar_host r = ar_host rec"
proof -
  have pre: "pre = Matches token" using assms(3) by (cases pre) (auto simp: admits_def)
  obtain r' where r': "stamped ver token r'" "ar_epoch r' < ar_epoch rec \<or> ar_epoch rec = u64_max
      \<or> ar_epoch r' = ar_epoch rec \<and> ar_host r' = ar_host rec"
    using assms(4) by (auto simp: justified_def pre)
  have "r' = r" using r'(1) assms(1,2) by (auto simp: stamped_def identifies_def)
  with r'(2) show ?thesis by simp
qed

lemma past_ok_put:
  assumes "identifies ver" "past_ok ver reg past" "admits reg pre" "justified ver (pre, rec)"
  shows "past_ok ver (Some (rec, ver i rec)) (insert (ar_epoch rec, ar_host rec) past)"
proof (cases reg)
  case None
  with assms(2) show ?thesis by (auto simp: past_ok_def stamped_def)
next
  case (Some rt)
  obtain r token where rt: "rt = (r, token)" by fastforce
  have past: "stamped ver token r" "(ar_epoch r, ar_host r) \<in> past" "\<And>e h. (e, h) \<in> past \<Longrightarrow> e \<le> ar_epoch r"
    "\<And>e h h'. (e, h) \<in> past \<Longrightarrow> (e, h') \<in> past \<Longrightarrow> e \<noteq> u64_max \<Longrightarrow> h = h'"
    using assms(2) by (auto simp: past_ok_def Some rt)
  note step = admitted_moves [OF assms(1) past(1) assms(3) [unfolded Some rt] assms(4)]
  have le: "e \<le> ar_epoch rec" if "(e, h) \<in> past" for e h
    using step past(3) [OF that] by (auto intro: order.trans less_imp_le)
  have one: "h = ar_host rec" if "(ar_epoch rec, h) \<in> past" "ar_epoch rec \<noteq> u64_max" for h
  proof -
    have "\<not> ar_epoch r < ar_epoch rec" using past(3) [OF that(1)] by simp
    with step that(2) have "ar_epoch r = ar_epoch rec" "ar_host r = ar_host rec" by auto
    with past(2) past(4) [OF that(1)] that(2) show ?thesis by metis
  qed
  then show ?thesis
    using past(4) le by (auto simp: past_ok_def stamped_def)
qed


text \<open>What a turn of the task leaves: a claimant, a request and reports in order.\<close>

definition turn_ok :: "marker \<Rightarrow> (u64 \<times> node_id) set \<Rightarrow> node_id \<Rightarrow> turn \<Rightarrow> bool" where
  "turn_ok ver past n t \<longleftrightarrow> claimant_ok ver n (snd (snd t)) \<and> await_ok ver n (fst (snd t))
     \<and> reports_ok past n (set (fst t))"

lemma await_ok_simps [simp]:
  "await_ok ver n None" "await_ok ver n (Some (AwaitClaimLoad e t w))" "await_ok ver n (Some (AwaitResolve r t))"
  "await_ok ver n (Some AwaitSuperseded)"
  "await_ok ver n (Some (AwaitStore pre rec t rn)) = (justified ver (pre, rec) \<and> ar_host rec = n)"
  "await_ok ver n (Some (AwaitRelease pre rec)) = (justified ver (pre, rec) \<and> ar_host rec = n)"
  by (simp_all add: await_ok_def)

lemma reports_ok_simps [simp]: "reports_ok past n {}" "reports_ok past n {observe r}"
  by (simp_all add: reports_ok_def observe_def)

lemma claimant_ok_simps [simp]:
  "claimant_ok ver n (c\<lparr>ct_retry_at_wall_ms := x\<rparr>) = claimant_ok ver n c"
  "claimant_ok ver n c \<Longrightarrow> claimant_ok ver n (c\<lparr>ct_held := None\<rparr>)"
  by (simp_all add: claimant_ok_def)

lemma turn_ok_won:
  assumes "claimant_ok ver n c" "stamped ver token r" "ar_epoch r = e" "ar_host r = n" "(e, n) \<in> past"
  shows "turn_ok ver past n (won e token x t0 c)"
  using assms by (auto simp: turn_ok_def won_def claimant_ok_def reports_ok_def)

lemma turn_ok_claim_loaded:
  assumes c: "claimant_ok ver n c" and reg: "past_ok ver reg past" and a: "answer = IoErr \<or> answer = IoOk reg"
  shows "turn_ok ver past n (claim_loaded answer hint t0 w0 c)"
proof (cases "answer = IoErr")
  case True
  with c show ?thesis by (simp add: claim_loaded_def turn_ok_def)
next
  case False
  with a have a: "answer = IoOk reg" by simp
  have loc: "ct_local c = n" using c by (simp add: claimant_ok_def)
  show ?thesis
  proof (cases reg)
    case None
    with c loc a show ?thesis
      by (auto simp: claim_loaded_def turn_ok_def plan_claim_def Let_def anchor_write_def justified_def)
  next
    case (Some rt)
    obtain r token where rt: "rt = (r, token)" by fastforce
    show ?thesis
    proof (cases "plan_claim (ct_terms c) n hint (Some r) w0")
      case (Supersede rec)
      from plan_claim_Supersede [OF this] have "ar_host rec = n"
        "ar_epoch r < ar_epoch rec \<or> ar_epoch rec = u64_max"
        by (auto simp: word_order.extremum_unique)
      moreover have "stamped ver token r" using reg by (simp add: past_ok_def Some rt)
      ultimately have "await_ok ver n (Some (AwaitStore (Matches token) rec t0 RenewingNo))"
        by (auto simp: justified_def)
      with c loc Supersede show ?thesis
        by (simp add: claim_loaded_def turn_ok_def a Some rt anchor_write_def)
    next
      case (Create rec)
      then show ?thesis by (simp add: plan_claim_def Let_def split: if_splits)
    next
      case (Yield at)
      with c loc show ?thesis by (simp add: claim_loaded_def turn_ok_def a Some rt)
    qed
  qed
qed

lemma turn_ok_resolved:
  assumes c: "claimant_ok ver n c" and reg: "past_ok ver reg past" and a: "answer = IoErr \<or> answer = IoOk reg"
  shows "turn_ok ver past n (resolved answer attempted t0 c)"
proof (cases "answer = IoErr \<or> reg = None")
  case True
  with c a show ?thesis by (auto simp: resolved_def turn_ok_def)
next
  case False
  with a obtain r token where rt: "answer = IoOk reg" "reg = Some (r, token)" by auto
  have loc: "ct_local c = n" using c by (simp add: claimant_ok_def)
  from reg have past: "stamped ver token r" "(ar_epoch r, ar_host r) \<in> past" by (auto simp: past_ok_def rt)
  show ?thesis
  proof (cases "ambiguous_applied n attempted (Some r)")
    case True
    then have "r = attempted" "ar_host r = n" by (auto simp: ambiguous_applied_def)
    with past loc True turn_ok_won [OF c past(1), of "ar_epoch attempted"] show ?thesis
      by (simp add: resolved_def rt)
  qed (use c loc in \<open>simp add: resolved_def rt turn_ok_def\<close>)
qed

lemma turn_ok_wrote:
  assumes c: "claimant_ok ver n c" and host: "ar_host rec = n"
    and a: "answer = IoOk (Stored (ver i rec)) \<and> (ar_epoch rec, n) \<in> past
      \<or> answer = IoOk Mismatch \<or> answer = IoErr \<or> answer = IoOk Unknown"
  shows "turn_ok ver past n (wrote answer rec t0 rn c)"
proof (cases "answer = IoOk (Stored (ver i rec))")
  case True
  have "stamped ver (ver i rec) rec" by (auto simp: stamped_def)
  from turn_ok_won [OF c this refl host] True a show ?thesis by (simp add: wrote_def)
next
  case False
  with a c show ?thesis by (auto simp: wrote_def turn_ok_def superseded_def)
qed

lemma claimant_ok_posture: "claimant_ok ver n c \<Longrightarrow> claimant_ok ver n (snd (posture_of lead w0 c))"
  by (simp add: posture_of_def split: option.split)

lemma posture_held: "posture_of lead w0 c = (PostureRenew h, c') \<Longrightarrow> ct_held c = Some h \<and> c' = c"
  by (auto simp: posture_of_def split: option.splits if_splits)

lemma justified_held:
  assumes "claimant_ok ver n c" "ct_held c = Some h" "ar_epoch rec = hd_epoch h" "ar_host rec = n"
  shows "justified ver (Matches (hd_token h), rec)"
  using assms by (auto simp: claimant_ok_def justified_def)

lemma turn_ok_round:
  assumes c: "claimant_ok ver n c"
  shows "turn_ok ver past n (claimant_round hint lead t0 w0 c)"
proof -
  obtain p c' where p: "posture_of lead w0 c = (p, c')" by fastforce
  have c': "claimant_ok ver n c'" using claimant_ok_posture [OF c, of lead w0] p by simp
  show ?thesis
  proof (cases p)
    case (PostureRenew h)
    with posture_held [of lead w0 c h c'] p have h: "ct_held c' = Some h" by simp
    have loc: "ct_local c' = n" using c' by (simp add: claimant_ok_def)
    with justified_held [OF c' h, of "renewal_record (ct_terms c') (ct_local c') (hd_epoch h) w0"] c'
    show ?thesis
      by (simp add: claimant_round_def p PostureRenew renew_def turn_ok_def anchor_write_def renewal_record_def)
  qed (use c' in \<open>auto simp: claimant_round_def p turn_ok_def\<close>)
qed

lemma task_ok_turn:
  "turn_ok ver past n t \<Longrightarrow> task_ok ver n (snd (task_turn t k)) \<and> reports_ok past n (set (fst (task_turn t k)))"
  by (simp add: turn_ok_def task_turn_def task_ok_def)

lemma task_ok_prompted:
  "task_ok ver n k \<Longrightarrow> task_ok ver n (snd (task_prompted t0 w0 k)) \<and> reports_ok past n (set (fst (task_prompted t0 w0 k)))"
  using task_ok_turn [OF turn_ok_round [of ver n "tk_claimant k" past]]
  by (auto simp: task_prompted_def task_ok_def split: option.split)

lemma task_ok_changed:
  assumes "task_ok ver n k"
  shows "task_ok ver n (task_changed wall k)"
proof -
  have c: "claimant_ok ver n (tk_claimant k)" "ct_local (tk_claimant k) = n"
    using assms by (auto simp: task_ok_def claimant_ok_def)
  then show ?thesis
    using assms justified_held [OF c(1)]
    by (auto simp: task_changed_def Let_def case_prod_beta release_def task_ok_def split: option.splits)
qed

lemma task_ok_loaded:
  assumes "task_ok ver n k" "past_ok ver reg past" "answer = IoErr \<or> answer = IoOk reg"
  shows "task_ok ver n (snd (task_loaded answer k)) \<and> reports_ok past n (set (fst (task_loaded answer k)))"
proof -
  have c: "claimant_ok ver n (tk_claimant k)" using assms(1) by (simp add: task_ok_def)
  have "turn_ok ver past n (superseded_loaded answer (tk_claimant k))"
    using c by (auto simp: superseded_loaded_def turn_ok_def split: io_result.split option.split)
  then show ?thesis
    using assms(1) task_ok_turn [OF turn_ok_claim_loaded [OF c assms(2,3)]]
      task_ok_turn [OF turn_ok_resolved [OF c assms(2,3)]] task_ok_turn
    by (auto simp: task_loaded_def split: option.split awaiting.split)
qed

lemma task_ok_stored:
  assumes k: "task_ok ver n k" and r: "task_request k = Some (pre, rec)"
    and a: "answer = IoOk (Stored (ver i rec)) \<and> (ar_epoch rec, n) \<in> past
      \<or> answer = IoOk Mismatch \<or> answer = IoErr \<or> answer = IoOk Unknown"
  shows "task_ok ver n (snd (task_stored answer k)) \<and> reports_ok past n (set (fst (task_stored answer k)))"
proof -
  have c: "claimant_ok ver n (tk_claimant k)" using k by (simp add: task_ok_def)
  obtain aw where aw: "tk_await k = Some aw" "request_of aw = Some (pre, rec)"
    using r by (auto simp: task_request_def bind_eq_Some_conv)
  then show ?thesis
  proof (cases aw)
    case (AwaitStore pre' rec' t0 rn)
    with aw k have "ar_host rec = n" "rec' = rec" by (auto simp: task_ok_def)
    with task_ok_turn [OF turn_ok_wrote [OF c _ a]] show ?thesis
      by (simp add: task_stored_def aw AwaitStore)
  qed (use c in \<open>auto simp: task_stored_def task_ok_def\<close>)
qed



section \<open>Every step keeps it\<close>

lemma task_ok_actor [simp]:
  "task_ok ver n (publish_leadership l k) = task_ok ver n k" "task_ok ver n (offer_prompt h k) = task_ok ver n k"
  by (simp_all add: task_ok_def publish_leadership_def offer_prompt_def)

lemma x_exec_ok:
  assumes "xworld_ok ver w" "\<And>e. x = LeadershipChanged e (Some n) \<Longrightarrow> (e, n) \<in> xw_past w"
  shows "xworld_ok ver (x_exec n x w) \<and> xw_past (x_exec n x w) = xw_past w"
  using assms by (cases "(n, x, w)" rule: x_exec.cases) (auto simp: xworld_ok_def upd_task_def)

lemma x_execs_ok:
  "xworld_ok ver w \<Longrightarrow> (\<And>e. LeadershipChanged e (Some n) \<in> set es \<Longrightarrow> (e, n) \<in> xw_past w) \<Longrightarrow>
     xworld_ok ver (x_execs n es w)"
proof (induction es arbitrary: w)
  case (Cons x es)
  have "xworld_ok ver (x_exec n x w) \<and> xw_past (x_exec n x w) = xw_past w"
    by (rule x_exec_ok) (use Cons.prems in auto)
  with Cons show ?case by (simp add: x_execs_def)
qed (simp add: x_execs_def)

lemma announced_epoch:
  assumes "external_ok n s" "x_possible w n ev" "reports_ok (xw_past w) n (xw_inbox w n)"
    and "LeadershipChanged e (Some n) \<in> set (fst (x_handle ev s))"
  shows "(e, n) \<in> xw_past w"
proof (cases "\<exists>e' l. ev = XIssue (AnchorActivated e' l)")
  case True
  then obtain e' l where ev: "ev = XIssue (AnchorActivated e' l)" by blast
  with external_activated(2) [OF assms(1), of "LeadershipChanged e (Some n)" e' l] assms(4) have "e = e'" by simp
  with assms(2,3) ev show ?thesis by (auto simp: reports_ok_def)
next
  case False
  then have "keeps (external_step n) (x_handle ev)"
    using keeps_external_entry keeps_external_apply_cmd by (cases ev) auto
  with assms(1,4) have "\<not> announces n (LeadershipChanged e (Some n))"
    unfolding keeps_def external_step_def by blast
  then show ?thesis by simp
qed

lemma external_handle:
  assumes "external_ok n s"
  shows "external_ok n (snd (x_handle ev s))"
proof (cases "\<exists>e' l. ev = XIssue (AnchorActivated e' l)")
  case True
  with external_activated(1) [OF assms] show ?thesis by auto
next
  case False
  then have "keeps (external_step n) (x_handle ev)"
    using keeps_external_entry keeps_external_apply_cmd by (cases ev) auto
  with assms show ?thesis by (simp add: keeps_def external_step_def)
qed

lemma external_new:
  assumes "engine_new grp n seeds cfg = Inr s" "mode cfg = Hosted h" "hc_activation h = External m"
  shows "external_ok n s"
proof -
  have "core s = core (initial_engine grp n seeds cfg)"
    using assms(1) by (auto simp: engine_new_def Let_def split: sum.splits)
  moreover have "external_ok n (initial_engine grp n seeds cfg)"
    using assms(2,3) by (simp add: external_ok_def initial_engine_def Let_def election_new_def el_is_external_def
        quorum_for_activation_def)
  ultimately show ?thesis by (simp add: external_ok_core [of s "initial_engine grp n seeds cfg"])
qed

lemma xworld_ok_turn:
  assumes "xworld_ok ver w" "task_ok ver n (snd ck) \<and> reports_ok (xw_past w) n (set (fst ck))"
  shows "xworld_ok ver (turn_at n ck w)"
proof -
  have "reports_ok (xw_past w) n (xw_inbox w n \<union> set (fst ck))"
    using assms unfolding xworld_ok_def reports_ok_def by blast
  with assms show ?thesis by (simp add: xworld_ok_def turn_at_def)
qed

lemma xworld_ok_put:
  assumes ver: "identifies ver" and ok: "xworld_ok ver w" and "admits (xw_register w) pre" "justified ver (pre, rec)"
  shows "xworld_ok ver (put ver rec w)"
proof -
  have "past_ok ver (Some (rec, ver (xw_version w) rec)) (insert (ar_epoch rec, ar_host rec) (xw_past w))"
    using ok by (intro past_ok_put [OF ver _ assms(3,4)]) (simp add: xworld_ok_def)
  with ok show ?thesis by (auto simp: xworld_ok_def put_def reports_ok_def)
qed

lemma task_request_ok:
  "task_ok ver n k \<Longrightarrow> task_request k = Some (pre, rec) \<Longrightarrow> justified ver (pre, rec) \<and> ar_host rec = n"
  by (auto simp: task_ok_def task_request_def await_ok_def)

lemma x_step_ok:
  assumes ver: "identifies ver" and ok: "xworld_ok ver w" and st: "x_step ver grp w w'"
  shows "xworld_ok ver w'"
proof -
  have task: "task_ok ver n k" if "xw_task w n = Some k" for n k
    using ok that by (simp add: xworld_ok_def)
  have past: "past_ok ver (xw_register w) (xw_past w)" using ok by (simp add: xworld_ok_def)
  from st show ?thesis
  proof (cases rule: x_step.cases)
    case (boot n cfg h margin seeds s0 now es s)
    have new: "external_ok n s0" by (rule external_new [OF boot(5,3,4)])
    then have s: "external_ok n s" "\<And>x. x \<in> set es \<Longrightarrow> \<not> announces n x"
      using keeps_external_entry(3) [of n now] boot(6) by (auto simp: keeps_def external_step_def dest: spec [of _ s0])
    have "xworld_ok ver (w\<lparr>xw_engine := (xw_engine w)(n := Some s),
          xw_task := (xw_task w)(n := Some (task_new n (hc_lease_ms h) margin l))\<rparr>)" for l
      using ok s(1) by (auto simp: xworld_ok_def task_ok_def task_new_def claimant_ok_def)
    then show ?thesis
      unfolding boot(1) by (rule x_execs_ok) (use s(2) in force)
  next
    case (event n s ev es t)
    have s: "external_ok n s" "reports_ok (xw_past w) n (xw_inbox w n)"
      using ok event(2) by (auto simp: xworld_ok_def)
    have "xworld_ok ver (w\<lparr>xw_engine := (xw_engine w)(n := Some t)\<rparr>)"
      using ok external_handle [OF s(1), of ev] event(4) by (auto simp: xworld_ok_def)
    then show ?thesis
      unfolding event(1)
      by (rule x_execs_ok) (use announced_epoch [OF s(1) event(3) s(2)] event(4) in auto)
  next
    case (prompted n k t0 w0)
    then show ?thesis
      by (simp add: xworld_ok_turn [OF ok] task_ok_prompted [OF task])
  next
    case (changed n k wall)
    then show ?thesis
      by (simp add: xworld_ok_turn [OF ok] task_ok_changed [OF task])
  next
    case (loaded n k answer)
    then show ?thesis
      by (simp add: xworld_ok_turn [OF ok] task_ok_loaded [OF task past])
  next
    case (stored n k pre rec)
    note req = task_request_ok [OF task [OF stored(2)] stored(3)]
    have "xworld_ok ver (put ver rec w)" using xworld_ok_put [OF ver ok stored(4)] req by blast
    moreover have "(ar_epoch rec, n) \<in> xw_past (put ver rec w)" using req by (simp add: put_def)
    ultimately show ?thesis
      unfolding stored(1) by (intro xworld_ok_turn task_ok_stored [OF task [OF stored(2)] stored(3)]) auto
  next
    case (refused n k pre rec)
    then show ?thesis
      unfolding refused(1) by (intro xworld_ok_turn [OF ok] task_ok_stored [OF task [OF refused(2)] refused(3)]) auto
  next
    case (unanswered n k pre rec answer)
    note req = task_request_ok [OF task [OF unanswered(2)] unanswered(3)]
    have "xworld_ok ver (w\<lparr>xw_outstanding := insert (pre, rec) (xw_outstanding w)\<rparr>)"
      using ok req by (auto simp: xworld_ok_def)
    then show ?thesis
      unfolding unanswered(1)
      by (intro xworld_ok_turn task_ok_stored [OF task [OF unanswered(2)] unanswered(3)]) (use unanswered(4) in auto)
  next
    case (lands pre rec)
    have "xworld_ok ver (w\<lparr>xw_outstanding := xw_outstanding w - {(pre, rec)}\<rparr>)" "justified ver (pre, rec)"
      using ok lands(2) by (auto simp: xworld_ok_def)
    then show ?thesis
      unfolding lands(1) using lands(3) by (intro xworld_ok_put [OF ver]) auto
  next
    case (crash n)
    have "justified ver q" if q: "Option.bind (xw_task w n) task_request = Some q" for q
    proof -
      obtain k where "xw_task w n = Some k" "task_request k = Some q" using q by (auto simp: bind_eq_Some_conv)
      with task_request_ok [OF task, of n k "fst q" "snd q"] show ?thesis by simp
    qed
    with ok show ?thesis
      unfolding crash by (auto simp: xworld_ok_def)
  qed
qed

lemma x_reachable_ok:
  assumes "x_reachable ver grp w" "identifies ver"
  shows "xworld_ok ver w"
  using assms(1)
proof (induction rule: x_reachable.induct)
  case init
  show ?case by (simp add: xworld_ok_def init_xworld_def past_ok_def)
qed (rule x_step_ok [OF assms(2)])


section \<open>A concrete run\<close>

lemma xw_register_execs [simp]: "xw_register (x_execs n es w) = xw_register w"
proof (induction es arbitrary: w)
  case (Cons x es)
  then show ?case by (cases "(n, x, w)" rule: x_exec.cases) (simp_all add: x_execs_def upd_task_def)
qed (simp add: x_execs_def)

text \<open>A marker that is the content of the record.\<close>

definition content_marker :: marker where
  "content_marker i r = put_u64 (ar_epoch r) @ put_u64 (ar_expires_at_wall_ms r) @ as_str (ar_host r)"

lemma identifies_content: "identifies content_marker"
  unfolding identifies_def
proof (intro allI impI)
  fix i j r r'
  assume "content_marker i r = content_marker j r'"
  then have "ar_epoch r = ar_epoch r' \<and> put_u64 (ar_expires_at_wall_ms r) @ as_str (ar_host r) =
      put_u64 (ar_expires_at_wall_ms r') @ as_str (ar_host r')"
    by (intro u64.put_self_delimiting) (simp_all add: content_marker_def always_ok_def)
  moreover from this have "ar_expires_at_wall_ms r = ar_expires_at_wall_ms r' \<and> as_str (ar_host r) = as_str (ar_host r')"
    by (intro u64.put_self_delimiting) (simp_all add: always_ok_def)
  ultimately show "r = r'" by (auto intro: anchor_record.equality node_id.expand)
qed

definition anchored :: hosted_config where
  "anchored = \<lparr>hc_activation = External 200, hc_lease_ms = 1000\<rparr>"

definition anchored_follower :: election where
  "anchored_follower = (election_new anchored)\<lparr>el_no_claim_before := 1000\<rparr>"

lemma anchored_boot:
  "\<exists>at s. start 0 (lone_engine anchored) = ([ArmTimer at], s) \<and> lonely anchored s
     \<and> ge_election s = Some anchored_follower \<and> ge_next_anti_entropy s = 200"
proof -
  have "ge_election (election_start 0 (lone_engine anchored)) = Some anchored_follower"
    using lonely_lone_engine(2) [of anchored]
    by (simp add: election_start_def upd_el_def anchored_follower_def election_new_def anchored_def
        quorum_for_activation_def quorum_start_def activation_window_ms_def sat_add_def)
  with lonely_start [OF lonely_lone_engine(1) [of anchored], of 0] show ?thesis by simp
qed

lemma anchored_prompts:
  assumes "lonely anchored s" "ge_election s = Some anchored_follower" "ge_next_anti_entropy s = 200"
  shows "\<exists>at t. on_tick 1000 s = ([AnchorClaimDue 1, ArmTimer at], t) \<and> lonely anchored t
    \<and> ge_election t = Some anchored_follower"
proof -
  have due: "(1000 \<ge> ge_next_anti_entropy s) = True" using assms(3) by simp
  from lonely_tick [OF assms(1), of 1000] obtain w where w: "lonely anchored w" "ge_election w = ge_election s"
    "on_tick 1000 s = then_do (election_tick 1000 True) arm_timer w" unfolding due by blast
  have c: "ge_coordinator w = Some lone_node" "ge_local w = lone_node" "\<not> ge_leaving w"
    using w(1) by (simp_all add: lonely_def)
  then have "election_tick 1000 True w = ([AnchorClaimDue 1], w)"
    using w(2) assms(2)
    by (simp add: election_tick_def then_do_def tick_follower_def anchored_follower_def election_new_def
        guard_opens_def is_coordinator_def el_is_external_def anchored_def external_claim_prompt_def is_external_def
        resend_resign_def quorum_of_def quorum_for_activation_def Let_def sat_add_def)
  then show ?thesis using w assms(2) by (simp add: then_do_def arm_timer_def)
qed

lemma anchored_activates:
  assumes "lonely anchored s" "ge_election s = Some anchored_follower"
  shows "\<exists>rest t. on_anchor_activated 1 l s = (LeadershipChanged 1 (Some lone_node) # rest, t)"
  using assms by (simp add: on_anchor_activated_def anchored_follower_def election_new_def lonely_def
      el_is_external_def anchored_def activate_def Let_def upd_el_def)

definition first_record :: anchor_record where
  "first_record = \<lparr>ar_epoch = 1, ar_host = lone_node, ar_expires_at_wall_ms = 6000\<rparr>"

lemma anchored_task:
  defines "k \<equiv> offer_prompt 1 (task_new lone_node 1000 200 (observed 0 None lone_node))"
  shows "\<exists>k1 k2 k3. task_prompted 1000 5000 k = ([], k1) \<and> tk_await k1 \<noteq> None \<and> task_request k1 = None
    \<and> task_loaded (IoOk None) k1 = ([], k2) \<and> task_request k2 = Some (Absent, first_record)
    \<and> task_stored (IoOk (Stored token)) k2 = ([AnchorActivated 1 2000], k3)"
  by (simp add: k_def task_prompted_def offer_prompt_def task_new_def claimant_round_def posture_of_def
      task_turn_def task_request_def task_loaded_def claim_loaded_def plan_claim_def Let_def anchor_write_def
      first_record_def task_stored_def wrote_def won_def ct_terms_def sat_add_def)

lemma anchored_run:
  "\<exists>w. x_reachable content_marker lone_group w \<and> (1, lone_node) \<in> xw_hosts w
     \<and> xw_register w = Some (first_record, content_marker 0 first_record)"
proof -
  define k where "k = task_new lone_node 1000 200 (observed 0 None lone_node)"
  obtain at s where s: "start 0 (lone_engine anchored) = ([ArmTimer at], s)" "lonely anchored s"
    "ge_election s = Some anchored_follower" "ge_next_anti_entropy s = 200" using anchored_boot by blast
  obtain at' t where t: "on_tick 1000 s = ([AnchorClaimDue 1, ArmTimer at'], t)" "lonely anchored t"
    "ge_election t = Some anchored_follower" using anchored_prompts [OF s(2-4)] by blast
  obtain rest u where u: "on_anchor_activated 1 2000 t = (LeadershipChanged 1 (Some lone_node) # rest, u)"
    using anchored_activates [OF t(2,3)] by blast
  define token where "token = content_marker 0 first_record"
  obtain k1 k2 k3 where k: "task_prompted 1000 5000 (offer_prompt 1 k) = ([], k1)" "tk_await k1 \<noteq> None"
    "task_request k1 = None" "task_loaded (IoOk None) k1 = ([], k2)"
    "task_request k2 = Some (Absent, first_record)"
    "task_stored (IoOk (Stored token)) k2 = ([AnchorActivated 1 2000], k3)"
    using anchored_task [of token] unfolding k_def by blast
  let ?R = "x_reachable content_marker lone_group"
  define w1 where "w1 = init_xworld\<lparr>xw_engine := (xw_engine init_xworld)(lone_node := Some s),
    xw_task := (xw_task init_xworld)(lone_node := Some k)\<rparr>"
  define w2 where "w2 = x_execs lone_node [AnchorClaimDue 1, ArmTimer at'] (w1\<lparr>xw_engine := (xw_engine w1)(lone_node := Some t)\<rparr>)"
  define w3 where "w3 = turn_at lone_node ([], k1) w2"
  define w4 where "w4 = turn_at lone_node ([], k2) w3"
  define w5 where "w5 = turn_at lone_node ([AnchorActivated 1 2000], k3) (put content_marker first_record w4)"
  define w6 where "w6 = x_execs lone_node (LeadershipChanged 1 (Some lone_node) # rest)
    (w5\<lparr>xw_engine := (xw_engine w5)(lone_node := Some u)\<rparr>)"
  note defs = w1_def w2_def w3_def w4_def w5_def init_xworld_def x_execs_def turn_at_def put_def upd_task_def
  have "leadership (lone_engine anchored) = (0, None)"
    using lonely_lone_engine(2) [of anchored] by (simp add: leadership_def election_new_def)
  then have "x_step content_marker lone_group init_xworld (x_execs lone_node [ArmTimer at] w1)"
    using x_step.boot [of init_xworld lone_node "lone_config anchored" anchored 200 lone_group "[]"
      "lone_engine anchored" 0 "[ArmTimer at]" s content_marker] s(1) engine_new_lone [of anchored]
    by (simp add: init_xworld_def lone_config_def anchored_def w1_def k_def)
  then have r1: "?R w1" using x_reachable.init x_reachable.step by (fastforce simp: x_execs_def)
  have "x_step content_marker lone_group w1 w2"
    unfolding w2_def by (rule x_step.event [of _ _ s "XTick 1000"]) (simp_all add: t w1_def)
  with r1 have r2: "?R w2" by (rule x_reachable.step)
  have "x_step content_marker lone_group w2 w3"
    using x_step.prompted [of w2 lone_node "offer_prompt 1 k" content_marker lone_group 1000 5000] k(1)
    by (simp add: defs k_def offer_prompt_def task_new_def)
  with r2 have r3: "?R w3" by (rule x_reachable.step)
  have "x_step content_marker lone_group w3 w4"
    using x_step.loaded [of w3 lone_node k1 "IoOk (xw_register w3)" content_marker lone_group] k(2-4)
    by (simp add: defs)
  with r3 have r4: "?R w4" by (rule x_reachable.step)
  have "x_step content_marker lone_group w4 w5"
    using x_step.stored [of w4 lone_node k2 Absent first_record content_marker lone_group] k(5,6)
    by (simp add: defs token_def admits_def)
  with r4 have r5: "?R w5" by (rule x_reachable.step)
  have "x_step content_marker lone_group w5 w6"
    unfolding w6_def
    by (rule x_step.event [of _ _ t "XIssue (AnchorActivated 1 2000)"]) (simp_all add: u defs)
  with r5 have r6: "?R w6" by (rule x_reachable.step)
  have grow: "xw_hosts v \<subseteq> xw_hosts (x_execs n es v)" for n es v
  proof (induction es arbitrary: v)
    case (Cons x es)
    have "xw_hosts v \<subseteq> xw_hosts (x_exec n x v)"
      by (cases "(n, x, v)" rule: x_exec.cases) (auto simp: upd_task_def)
    with Cons [of "x_exec n x v"] show ?case by (simp add: x_execs_def)
  qed (simp add: x_execs_def)
  have "(1, lone_node) \<in> xw_hosts w6"
    using grow [of _ lone_node rest] by (force simp: w6_def x_execs_def upd_task_def)
  moreover have "xw_register w6 = Some (first_record, content_marker 0 first_record)"
    unfolding w6_def xw_register_execs by (simp add: defs)
  ultimately show ?thesis using r6 by blast
qed


section \<open>One host per epoch\<close>

text \<open>
  C2. Under external activation one epoch never has two hosts: over every run of a group whose
  nodes race for one register, with store answers lost, unanswered writes landing late, frames
  lost and reordered, and nodes crashing at any point with nothing stored locally, two nodes that
  announced themselves as host of the same epoch are the same node. The last 64-bit epoch is the
  exception, since nothing can be allocated above it.
\<close>

theorem external_one_host_per_epoch:
  assumes "identifies ver" "x_reachable ver grp w" "(e, a) \<in> xw_hosts w" "(e, b) \<in> xw_hosts w" "e \<noteq> u64_max"
  shows "a = b"
proof -
  from x_reachable_ok [OF assms(2,1)] have "xworld_ok ver w" .
  then have "past_ok ver (xw_register w) (xw_past w)" "xw_hosts w \<subseteq> xw_past w" by (auto simp: xworld_ok_def)
  with assms(3-5) show ?thesis unfolding past_ok_def by blast
qed

theorem external_one_host_per_epoch_witness:
  "\<exists>w. x_reachable content_marker lone_group w \<and> {n. (1, n) \<in> xw_hosts w} = {lone_node}"
proof -
  obtain w where w: "x_reachable content_marker lone_group w" "(1, lone_node) \<in> xw_hosts w"
    using anchored_run by blast
  have "n = lone_node" if "(1, n) \<in> xw_hosts w" for n
    by (rule external_one_host_per_epoch [OF identifies_content w(1) that w(2)]) simp
  with w show ?thesis by blast
qed

text \<open>
  C15. The register is an allocator: a step of a run moves it, if at all, to a higher epoch, or
  leaves the pair it holds in place, except that the last 64-bit epoch can change hands.
\<close>

theorem register_allocates:
  assumes "identifies ver" "x_reachable ver grp w" "x_step ver grp w w'" "xw_register w = Some (r, token)"
  shows "\<exists>r' token'. xw_register w' = Some (r', token')
    \<and> (ar_epoch r < ar_epoch r' \<or> ar_epoch r' = u64_max \<or> (ar_epoch r', ar_host r') = (ar_epoch r, ar_host r))"
proof -
  have ok: "xworld_ok ver w" by (rule x_reachable_ok [OF assms(2,1)])
  then have st: "stamped ver token r" by (simp add: xworld_ok_def past_ok_def assms(4))
  have task: "justified ver (pre, rec)" if "xw_task w n = Some k" "task_request k = Some (pre, rec)" for n k pre rec
    using ok task_request_ok [of ver n k] that by (simp add: xworld_ok_def)
  note move = admitted_moves [OF assms(1) st]
  from assms(3) show ?thesis
  proof (cases rule: x_step.cases)
    case (stored n k pre rec)
    with move [of pre rec] task assms(4) show ?thesis by (auto simp: turn_at_def put_def)
  next
    case (lands pre rec)
    with ok have "justified ver (pre, rec)" by (auto simp: xworld_ok_def)
    with lands move [of pre rec] assms(4) show ?thesis by (auto simp: put_def)
  qed (use assms(4) in \<open>auto simp: turn_at_def\<close>)
qed


theorem register_allocates_witness:
  "\<exists>w w'. x_step content_marker lone_group w w'
     \<and> xw_register w = Some (first_record, content_marker 0 first_record)
     \<and> (\<exists>r' token'. xw_register w' = Some (r', token')
         \<and> (1 < ar_epoch r' \<or> ar_epoch r' = u64_max \<or> (ar_epoch r', ar_host r') = (1, lone_node)))"
proof -
  obtain w where w: "x_reachable content_marker lone_group w"
    "xw_register w = Some (first_record, content_marker 0 first_record)" using anchored_run by blast
  from register_allocates [OF identifies_content w(1) x_step.crash w(2)] w(2) x_step.crash show ?thesis
    by (fastforce simp: first_record_def)
qed

text \<open>The exception is real: a claimant that may steal the last epoch takes it, under the same number.\<close>

lemma last_epoch_changes_hands:
  "plan_claim \<lparr>at_ttl_ms = 1000, at_steal_margin_ms = 200\<rparr> (NodeId [98]) 1
     (Some \<lparr>ar_epoch = u64_max, ar_host = lone_node, ar_expires_at_wall_ms = 0\<rparr>) 5000 =
   Supersede \<lparr>ar_epoch = u64_max, ar_host = NodeId [98], ar_expires_at_wall_ms = 6000\<rparr>"
  by (simp add: plan_claim_def Let_def stealable_def lone_node_def sat_add_def word_greater_zero_iff)

end
