(* ===== verification/Convergence.thy ===== *)
theory Convergence
  imports Step_Frame
begin

text \<open>
  Replicas converge (\<open>engine/merge.rs\<close>): what merging leaves of a member's entries and of the
  metadata registers depends on which updates arrived, not on their order, their repetition, or
  how they were split into frames. Both are instances of one interface of commuting, idempotent
  updates.
\<close>


section \<open>Commuting updates\<close>

locale convergent =
  fixes upd :: "'d \<Rightarrow> 's \<Rightarrow> 's" and compat :: "'d \<Rightarrow> 'd \<Rightarrow> bool"
  assumes upd_commute: "compat x y \<Longrightarrow> upd x (upd y s) = upd y (upd x s)"
    and upd_idem: "upd x (upd x s) = upd x s"
begin

lemma fold_upd_swap:
  "(\<And>y. y \<in> set ys \<Longrightarrow> compat x y) \<Longrightarrow> fold upd ys (upd x s) = upd x (fold upd ys s)"
proof (induction ys arbitrary: s)
  case (Cons y ys)
  then have "upd y (upd x s) = upd x (upd y s)" by (metis list.set_intros(1) upd_commute)
  with Cons show ?case by simp
qed simp

lemma fold_upd_absorb:
  assumes "x \<in> set ys" "\<And>y. y \<in> set ys \<Longrightarrow> compat x y"
  shows "upd x (fold upd ys s) = fold upd ys s"
  using assms
proof (induction ys arbitrary: s)
  case (Cons y ys)
  show ?case
  proof (cases "x = y")
    case True
    with Cons.prems have "fold upd ys (upd x s) = upd x (fold upd ys s)"
      by (intro fold_upd_swap) auto
    with True show ?thesis by (simp add: upd_idem)
  qed (use Cons in auto)
qed simp

lemma fold_upd_within:
  assumes "set xs \<subseteq> set ys" "\<And>x y. x \<in> set ys \<Longrightarrow> y \<in> set ys \<Longrightarrow> compat x y"
  shows "fold upd xs (fold upd ys s) = fold upd ys s"
  using assms by (induction xs) (auto simp: fold_upd_absorb)

lemma fold_upd_comm:
  assumes "\<And>x y. x \<in> set xs \<Longrightarrow> y \<in> set ys \<Longrightarrow> compat x y"
  shows "fold upd xs (fold upd ys s) = fold upd ys (fold upd xs s)"
  using assms
proof (induction xs arbitrary: s)
  case (Cons x xs)
  then have "upd x (fold upd ys s) = fold upd ys (upd x s)"
    by (metis fold_upd_swap list.set_intros(1))
  with Cons show ?case by simp
qed simp

lemma fold_upd_set:
  assumes "set xs = set ys" "\<And>x y. x \<in> set ys \<Longrightarrow> y \<in> set ys \<Longrightarrow> compat x y"
  shows "fold upd xs s = fold upd ys s"
  using fold_upd_within [of xs ys s] fold_upd_within [of ys xs s] fold_upd_comm [of xs ys s] assms
  by simp

end


section \<open>Metadata registers\<close>

definition merge_register :: "meta_delta \<Rightarrow> (str, versioned_value) fmap \<Rightarrow> (str, versioned_value) fmap" where
  "merge_register d regs =
     (if (case fmlookup regs (mt_key d) of Some v \<Rightarrow> meta_wins d v | None \<Rightarrow> True)
      then fmupd (mt_key d)
        \<lparr>vv_value = mt_value d, vv_version = mt_version d, vv_writer = mt_writer d\<rparr> regs
      else regs)"

text \<open>One writer gives one version of a key one value.\<close>

definition one_author :: "meta_delta \<Rightarrow> meta_delta \<Rightarrow> bool" where
  "one_author a b \<longleftrightarrow>
     (mt_key a = mt_key b \<and> mt_version a = mt_version b \<and> mt_writer a = mt_writer b
        \<longrightarrow> mt_value a = mt_value b)"

lemma merge_meta_register: "ge_metadata (snd (merge_meta d s)) = merge_register d (ge_metadata s)"
  by (simp add: merge_meta_def merge_register_def)

lemma merge_metadata_registers:
  "ge_metadata (snd (merge_metadata ds s)) = fold merge_register ds (ge_metadata s)"
  unfolding merge_metadata_def
  by (induction ds arbitrary: s)
     (simp_all add: skip_def then_do_def case_prod_beta merge_meta_register)

lemma fmupd_twist: "a \<noteq> b \<Longrightarrow> fmupd a x (fmupd b y m) = fmupd b y (fmupd a x m)"
  by (rule fmap_ext) auto

interpretation mr: convergent merge_register one_author
proof
  fix x y :: meta_delta and s
  assume one: "one_author x y"
  show "merge_register x (merge_register y s) = merge_register y (merge_register x s)"
  proof (cases "mt_key x = mt_key y")
    case False
    then show ?thesis by (simp add: merge_register_def fmupd_twist)
  next
    case True
    define kx ky where "kx = (mt_version x, mt_writer x)" and "ky = (mt_version y, mt_writer y)"
    have "kx = ky \<Longrightarrow> mt_value x = mt_value y"
      using one True by (simp add: one_author_def kx_def ky_def)
    moreover have "kx < ky \<or> kx = ky \<or> ky < kx" by auto
    ultimately show ?thesis
      using True
      unfolding merge_register_def meta_wins_def kx_def [symmetric] ky_def [symmetric]
      by (auto simp: kx_def ky_def simp del: less_prod_simp split: option.splits
          intro: fmap_ext)
  qed
qed (simp add: merge_register_def meta_wins_def split: option.splits)



text \<open>
  C16. Metadata replicas converge: two replicas that start alike and merge the same register
  updates, in any order, any number of times and however they were split into frames, end with
  the same registers, provided one writer never gives one version of a key two values.
\<close>

theorem metadata_converges:
  assumes "ge_metadata s = ge_metadata t"
    and "set (concat xs) = set (concat ys)"
    and "\<forall>x \<in> set (concat ys). \<forall>y \<in> set (concat ys). one_author x y"
  shows "ge_metadata (fold (\<lambda>ds s. snd (merge_metadata ds s)) xs s) =
    ge_metadata (fold (\<lambda>ds s. snd (merge_metadata ds s)) ys t)"
proof -
  have "ge_metadata (fold (\<lambda>ds s. snd (merge_metadata ds s)) zs u) =
      fold merge_register (concat zs) (ge_metadata u)" for zs u
    by (induction zs arbitrary: u) (simp_all add: merge_metadata_registers)
  with mr.fold_upd_set [OF assms(2)] assms(1,3) show ?thesis by simp
qed

definition sample_meta :: "u64 \<Rightarrow> u8 \<Rightarrow> meta_delta" where
  "sample_meta v w = \<lparr>mt_key = [107], mt_version = v, mt_writer = NodeId [w], mt_value = [w]\<rparr>"

theorem metadata_converges_witness:
  "ge_metadata (fold (\<lambda>ds s. snd (merge_metadata ds s)) [[sample_meta 1 97], [sample_meta 1 98]]
      (initial_engine (GroupId [103]) (NodeId [97]) [] config_default)) =
   ge_metadata (fold (\<lambda>ds s. snd (merge_metadata ds s)) [[sample_meta 1 98, sample_meta 1 97, sample_meta 1 98]]
      (initial_engine (GroupId [103]) (NodeId [98]) [] config_default))"
  by (rule metadata_converges)
     (auto simp: initial_engine_def Let_def one_author_def sample_meta_def)


section \<open>Entries\<close>

text \<open>
  What the protocol agrees on of a member: each key's (version, tombstone, value), and the
  highest version seen. Deadlines and arrival times are each node's own.
\<close>

type_synonym stamp_value = "u64 \<times> bool \<times> bytes"

record entry_view =
  ev_entries :: "str \<Rightarrow> stamp_value option"
  ev_max :: u64

definition entry_stamp :: "state_entry \<Rightarrow> stamp_value" where
  "entry_stamp e = (se_version e, se_tombstone e, se_value e)"

definition delta_stamp :: "entry_delta \<Rightarrow> stamp_value" where
  "delta_stamp d = (ed_version d, ed_tombstone d, ed_value d)"

definition member_view :: "member \<Rightarrow> entry_view" where
  "member_view m = \<lparr>ev_entries = (\<lambda>k. map_option entry_stamp (fmlookup (m_entries m) k)),
     ev_max = m_max_state_version m\<rparr>"

definition node_view :: "group_engine \<Rightarrow> node_id \<Rightarrow> entry_view option" where
  "node_view s n = map_option member_view (fmlookup (ge_members s) n)"

definition opt_max :: "'a::linorder option \<Rightarrow> 'a option \<Rightarrow> 'a option" where
  "opt_max a b = (case (a, b) of (Some x, Some y) \<Rightarrow> Some (max x y) | (None, _) \<Rightarrow> b | (_, None) \<Rightarrow> a)"

lemma opt_max_simps [simp]: "opt_max None b = b" "opt_max a None = a" "opt_max (Some x) (Some y) = Some (max x y)"
  by (simp_all add: opt_max_def split: option.split)

lemma opt_max_left_commute: "opt_max a (opt_max b c) = opt_max b (opt_max a c)"
  by (cases a; cases b; cases c) (simp_all add: ac_simps)

lemma opt_max_left_idem: "opt_max a (opt_max a c) = opt_max a c"
  by (cases a; cases c) simp_all

text \<open>One entry, and then one member's delta, joined into a view.\<close>

definition join_entry :: "entry_delta \<Rightarrow> entry_view \<Rightarrow> entry_view" where
  "join_entry d v = \<lparr>ev_entries = (ev_entries v)(ed_key d := opt_max (Some (delta_stamp d)) (ev_entries v (ed_key d))),
     ev_max = max (ed_version d) (ev_max v)\<rparr>"

definition empty_view :: entry_view where
  "empty_view = \<lparr>ev_entries = (\<lambda>_. None), ev_max = 0\<rparr>"

definition observe :: "u64 \<Rightarrow> entry_view \<Rightarrow> entry_view" where
  "observe ver v = v\<lparr>ev_max := max ver (ev_max v)\<rparr>"

definition join_delta :: "node_id \<Rightarrow> member_delta \<Rightarrow> entry_view option \<Rightarrow> entry_view option" where
  "join_delta n d v =
     (if md_node d = n \<and> status_from_wire (md_status d) \<noteq> None
      then Some (observe (md_max_version d)
        (fold join_entry (md_entries d) (case v of None \<Rightarrow> empty_view | Some v \<Rightarrow> v)))
      else v)"

interpretation je: convergent join_entry "\<lambda>_ _. True"
proof
  fix x y :: entry_delta and s
  show "join_entry x (join_entry y s) = join_entry y (join_entry x s)"
  proof (cases "ed_key x = ed_key y")
    case True
    then show ?thesis
      using opt_max_left_commute [of "Some (delta_stamp x)" "Some (delta_stamp y)"]
      by (simp add: join_entry_def max.left_commute)
  next
    case False
    then show ?thesis
      by (simp add: join_entry_def fun_upd_twist max.left_commute)
  qed
  show "join_entry x (join_entry x s) = join_entry x s"
    by (simp add: join_entry_def opt_max_left_idem)
qed

lemma observe_join_entry: "observe a (join_entry d v) = join_entry d (observe a v)"
  by (simp add: observe_def join_entry_def max.left_commute)

lemma observe_fold_join: "observe a (fold join_entry ds v) = fold join_entry ds (observe a v)"
  by (induction ds arbitrary: v) (simp_all add: observe_join_entry)

lemma observe_aci: "observe a (observe b v) = observe b (observe a v)" "observe a (observe a v) = observe a v"
  by (simp_all add: observe_def max.left_commute)

interpretation jd: convergent "join_delta n" "\<lambda>_ _. True" for n
proof
  fix x y :: member_delta and s
  show "join_delta n x (join_delta n y s) = join_delta n y (join_delta n x s)"
    using je.fold_upd_comm [of "md_entries x" "md_entries y"]
    by (auto simp: join_delta_def observe_fold_join observe_aci(1) [of "md_max_version x"])
  show "join_delta n x (join_delta n x s) = join_delta n x s"
    using je.fold_upd_within [of "md_entries x" "md_entries x"]
    by (auto simp: join_delta_def observe_fold_join observe_aci(2))
qed



section \<open>Merging implements the join\<close>

lemma member_view_observe [simp]: "member_view (observe_version v m) = observe v (member_view m)"
  by (simp add: member_view_def observe_version_def observe_def max.commute)

lemma member_view_adopt_delta:
  "member_view (adopt_delta r now d m) =
     (member_view m)\<lparr>ev_entries := (ev_entries (member_view m))(ed_key d := Some (delta_stamp d))\<rparr>"
  by (simp add: member_view_def adopt_delta_def entry_adopted_def entry_stamp_def delta_stamp_def fun_eq_iff)

lemma entry_wins_iff: "entry_wins d e \<longleftrightarrow> entry_stamp e < delta_stamp d"
  by (simp add: entry_wins_def entry_stamp_def delta_stamp_def del: less_prod_simp)

lemma member_view_merge_entry: "member_view (snd (merge_entry r now d acc)) = join_entry d (member_view (snd acc))"
proof (cases "fmlookup (m_entries (snd acc)) (ed_key d)")
  case None
  then show ?thesis
    by (simp add: merge_entry_def case_prod_beta Let_def observe_version_def member_view_adopt_delta)
       (simp add: join_entry_def member_view_def max.commute)
next
  case (Some e)
  have m: "max (delta_stamp d) (entry_stamp e) = (if entry_wins d e then delta_stamp d else entry_stamp e)"
    by (auto simp: entry_wins_iff max_def)
  show ?thesis
    using Some m
    by (cases "entry_wins d e")
       (simp_all add: merge_entry_def case_prod_beta Let_def observe_version_def member_view_adopt_delta,
         simp_all add: join_entry_def member_view_def max.commute fun_upd_idem)
qed

lemma member_view_merge_entries:
  "member_view (snd (fold (merge_entry r now) ds acc)) = fold join_entry ds (member_view (snd acc))"
  by (induction ds arbitrary: acc) (simp_all add: member_view_merge_entry)

lemma member_view_adopt_unknown:
  "fmlookup (m_entries m) (ed_key d) = None \<Longrightarrow>
     member_view (adopt_unknown_entry r now d m) = join_entry d (member_view m)"
  by (simp add: adopt_unknown_entry_def member_view_adopt_delta)
     (simp add: join_entry_def observe_def member_view_def)

lemma adopt_unknown_lookup:
  "k \<noteq> ed_key d \<Longrightarrow> fmlookup (m_entries (adopt_unknown_entry r now d m)) k = fmlookup (m_entries m) k"
  by (simp add: adopt_unknown_entry_def adopt_delta_def observe_version_def)

lemma member_view_adopt_all:
  assumes "distinct (map ed_key ds)" "\<And>d. d \<in> set ds \<Longrightarrow> fmlookup (m_entries m) (ed_key d) = None"
  shows "member_view (fold (adopt_unknown_entry r now) ds m) = fold join_entry ds (member_view m)"
  using assms
proof (induction ds arbitrary: m)
  case (Cons d ds)
  have "member_view (fold (adopt_unknown_entry r now) ds (adopt_unknown_entry r now d m)) =
      fold join_entry ds (member_view (adopt_unknown_entry r now d m))"
    using Cons.prems by (intro Cons.IH) (auto simp: adopt_unknown_lookup image_iff)
  with Cons.prems show ?case by (simp add: member_view_adopt_unknown)
qed simp

lemma member_view_liveness [simp]:
  "member_view (arm_verdict s st now m) = member_view m"
  "member_view (adopt_status st now m) = member_view m"
  "member_view (m\<lparr>m_incarnation := i\<rparr>) = member_view m"
  "member_view (member_new i st now) = empty_view"
  by (simp_all add: member_view_def arm_verdict_def hear_suspicion_def Let_def member_new_def empty_view_def
      split: status.splits)

lemma m_entries_arm [simp]: "m_entries (arm_verdict s st now m) = m_entries m"
  by (simp add: arm_verdict_def hear_suspicion_def Let_def split: status.splits)

text \<open>Filing a member in the index changes nothing of it that replicas share.\<close>

lemma node_view_members: "ge_members t = ge_members s \<Longrightarrow> node_view t = node_view s"
  by (simp add: node_view_def fun_eq_iff)

lemma node_view_upd: "node_view (s\<lparr>ge_members := fmupd k m (ge_members s)\<rparr>) n =
    (if n = k then Some (member_view m) else node_view s n)"
  by (simp add: node_view_def)

lemma ge_members_live_set_changed [simp]: "ge_members (live_set_changed n b s) = ge_members s"
  by (simp add: live_set_changed_def Let_def)

lemma ge_members_file [simp]:
  "ge_members (file_due n a b s) = ge_members s"
  "ge_members (snd (file_score n w l s)) = ge_members s"
  by (auto simp: file_due_def file_score_def Let_def split: option.splits bool.splits)

lemma node_view_reindex [simp]: "node_view (reindex k s) = node_view s"
proof
  fix n
  show "node_view (reindex k s) n = node_view s n"
    by (auto simp: reindex_def Let_def case_prod_beta node_view_def member_view_def split: option.splits)
qed

lemma node_view_restamp [simp]: "node_view (restamp k at s) = node_view s"
proof
  fix n
  show "node_view (restamp k at s) n = node_view s n"
    by (auto simp: restamp_def Let_def node_view_def member_view_def split: option.splits)
qed

lemma node_view_clock [simp]: "node_view (s\<lparr>ge_change_clock := c\<rparr>) = node_view s"
  by (rule node_view_members) simp

lemma node_view_stamp [simp]: "node_view (stamp k s) = node_view s" "node_view (stamp_self s) = node_view s"
  by (simp_all add: stamp_def stamp_self_def Let_def)


lemma node_view_merge_peer_delta:
  assumes "distinct (map ed_key (md_entries d))" "status_from_wire (md_status d) = Some st"
  shows "node_view (snd (snd (merge_peer_delta d st now s))) n = join_delta n d (node_view s n)"
proof (cases "fmlookup (ge_members s) (md_node d)")
  case None
  define m where "m = arm_verdict s st now (member_new (md_incarnation d) st now)"
  have "member_view (fold (adopt_unknown_entry (reap_after s) now) (md_entries d) m) =
      fold join_entry (md_entries d) (member_view m)"
    using assms(1) by (intro member_view_adopt_all) (auto simp: m_def member_new_def)
  with None assms(2) show ?thesis
    by (auto simp: merge_peer_delta_def Let_def node_view_upd join_delta_def m_def)
       (simp add: node_view_def)
next
  case (Some cur)
  obtain m where m: "member_view m = member_view cur" "m = (if superseded_by cur (md_incarnation d) st
      then arm_verdict s st now (adopt_status st now (cur\<lparr>m_incarnation := md_incarnation d\<rparr>)) else cur)"
    by simp
  obtain ks m' where f: "fold (merge_entry (reap_after s) now) (md_entries d) ([], m) = (ks, m')" by fastforce
  with member_view_merge_entries [of "reap_after s" now "md_entries d" "([], m)"] m(1)
  have m': "member_view m' = fold join_entry (md_entries d) (member_view cur)" by simp
  show ?thesis
    using Some assms(2) m'
    by (auto simp: merge_peer_delta_def Let_def m(2) [symmetric] f node_view_upd join_delta_def)
       (simp_all add: node_view_def)
qed

lemma ge_local_core: "core t = core s \<Longrightarrow> ge_local t = ge_local s"
  by (simp add: core_def)


lemma node_view_own_entry:
  "n \<noteq> ge_local (snd acc) \<Longrightarrow> node_view (snd (merge_own_entry now e acc)) n = node_view (snd acc) n"
  by (auto simp: merge_own_entry_def Let_def case_prod_beta node_view_upd split: option.splits)

lemma node_view_own_echo:
  assumes "n \<noteq> ge_local (snd acc)"
  shows "node_view (snd (merge_own_echo es now acc)) n = node_view (snd acc) n"
  using assms unfolding merge_own_echo_def
proof (induction es arbitrary: acc)
  case (Cons e es)
  have "ge_local (snd (merge_own_entry now e acc)) = ge_local (snd acc)"
    by (rule ge_local_core) simp
  with Cons show ?case by (simp add: node_view_own_entry)
qed simp

lemma node_view_merge_delta:
  assumes "distinct (map ed_key (md_entries d))" "n \<noteq> ge_local (snd (snd (snd acc)))"
  shows "node_view (snd (snd (snd (merge_delta now d acc)))) n = join_delta n d (node_view (snd (snd (snd acc))) n)"
proof -
  obtain c sc r s where acc: "acc = (c, sc, r, s)" by (cases acc) auto
  show ?thesis
  proof (cases "status_from_wire (md_status d)")
    case None
    then show ?thesis by (simp add: acc merge_delta_def join_delta_def)
  next
    case (Some st)
    show ?thesis
    proof (cases "md_node d = ge_local s")
      case True
      with Some acc assms(2) node_view_own_echo [of n "(sc, s)" "md_entries d" now] show ?thesis
        by (auto simp: merge_delta_def Let_def join_delta_def case_prod_beta)
    next
      case False
      with Some acc node_view_merge_peer_delta [OF assms(1) Some, of now s n] show ?thesis
        by (auto simp: merge_delta_def Let_def case_prod_beta)
    qed
  qed
qed

lemma node_view_merge_deltas:
  assumes "\<And>d. d \<in> set ds \<Longrightarrow> distinct (map ed_key (md_entries d))" "n \<noteq> ge_local (snd (snd (snd acc)))"
  shows "node_view (snd (snd (snd (fold (merge_delta now) ds acc)))) n =
    fold (join_delta n) ds (node_view (snd (snd (snd acc))) n)"
  using assms
proof (induction ds arbitrary: acc)
  case (Cons d ds)
  have "ge_local (snd (snd (snd (merge_delta now d acc)))) = ge_local (snd (snd (snd acc)))"
    by (rule ge_local_core) simp
  with Cons show ?case by (simp add: node_view_merge_delta)
qed simp

lemma node_view_apply_refutation:
  "n \<noteq> ge_local s \<Longrightarrow> node_view (snd (apply_refutation r s)) n = node_view s n"
  by (auto simp: apply_refutation_def Let_def split: option.splits) (simp_all add: node_view_def)

lemma ge_members_membership_effects: "ge_members (snd (membership_effects b s)) = ge_members s"
  by (simp add: membership_effects_def then_do_def emit_def recompute_coordinator_def silently_def skip_def
      nudge_anti_entropy_def Let_def)

lemma node_view_merge_members:
  assumes "\<And>d. d \<in> set ds \<Longrightarrow> distinct (map ed_key (md_entries d))" "n \<noteq> ge_local s"
  shows "node_view (snd (merge_members ds now s)) n = fold (join_delta n) ds (node_view s n)"
proof -
  obtain c sc r t where f: "fold (merge_delta now) ds (False, [], None, s) = (c, sc, r, t)"
    by (metis prod_cases4)
  have loc: "ge_local t = ge_local s"
    using core_merge_deltas [of now ds "(False, [], None, s)"] f by (intro ge_local_core) simp
  obtain b u where a: "apply_refutation r t = (b, u)" by fastforce
  have "ge_members (snd (merge_members ds now s)) = ge_members u"
    by (simp add: merge_members_def f a then_do_def emit_def case_prod_beta ge_members_membership_effects)
  then have "node_view (snd (merge_members ds now s)) n = node_view u n"
    by (simp add: node_view_def)
  also have "\<dots> = node_view t n"
    using node_view_apply_refutation [of n t r] a loc assms(2) by simp
  also have "\<dots> = fold (join_delta n) ds (node_view s n)"
    using node_view_merge_deltas [OF assms(1), of ds n "(False, [], None, s)" now] f assms(2) by simp
  finally show ?thesis .
qed

lemma ge_local_merge_members [simp]: "ge_local (snd (merge_members ds now s)) = ge_local s"
  using keeps_quietD [OF keeps_quiet_merge_members] by (auto simp: quiet_def core_def)

text \<open>
  C11. Replicas of a member's state converge: two engines that hold the same entries of a third
  member and merge the same set of member updates, none of which names a key twice, in any order,
  any number of times, at any instants and however split into frames, end with the same entries
  (version, tombstone and value of every key) and the same highest version of that member.
\<close>

theorem members_converge:
  assumes "n \<noteq> ge_local s" "n \<noteq> ge_local t" "node_view s n = node_view t n"
    and "set (concat (map fst xs)) = set (concat (map fst ys))"
    and "\<forall>d \<in> set (concat (map fst ys)). distinct (map ed_key (md_entries d))"
  shows "node_view (fold (\<lambda>(ds, now) s. snd (merge_members ds now s)) xs s) n =
    node_view (fold (\<lambda>(ds, now) s. snd (merge_members ds now s)) ys t) n"
proof -
  have batches: "node_view (fold (\<lambda>(ds, now) s. snd (merge_members ds now s)) zs u) n =
      fold (join_delta n) (concat (map fst zs)) (node_view u n)"
    if "n \<noteq> ge_local u" "\<And>d. d \<in> set (concat (map fst zs)) \<Longrightarrow> distinct (map ed_key (md_entries d))" for zs u
    using that
    by (induction zs arbitrary: u) (auto simp: node_view_merge_members)
  have "fold (join_delta n) (concat (map fst xs)) v = fold (join_delta n) (concat (map fst ys)) v" for v
    by (rule jd.fold_upd_set [OF assms(4)]) simp
  moreover have "distinct (map ed_key (md_entries d))" if "d \<in> set (concat (map fst xs))" for d
    using assms(4,5) that by blast
  ultimately show ?thesis
    using batches [OF assms(1), of xs] batches [OF assms(2), of ys] assms(3,5) by simp
qed

definition sample_delta :: "u64 \<Rightarrow> u8 \<Rightarrow> member_delta" where
  "sample_delta v b = \<lparr>md_node = NodeId [110], md_incarnation = 0, md_status = 0, md_max_version = v,
     md_entries = [\<lparr>ed_key = [107], ed_version = v, ed_ttl_ms = 0, ed_tombstone = False, ed_value = [b]\<rparr>]\<rparr>"

theorem members_converge_witness:
  "node_view (fold (\<lambda>(ds, now) s. snd (merge_members ds now s))
      [([sample_delta 1 97], 5), ([sample_delta 2 98], 9)]
      (initial_engine (GroupId [103]) (NodeId [97]) [] config_default)) (NodeId [110]) =
   node_view (fold (\<lambda>(ds, now) s. snd (merge_members ds now s))
      [([sample_delta 2 98, sample_delta 1 97, sample_delta 2 98], 7)]
      (initial_engine (GroupId [103]) (NodeId [98]) [] config_default)) (NodeId [110])"
  by (rule members_converge)
     (auto simp: initial_engine_def Let_def node_view_def sample_delta_def)

end
