(* ===== verification/Index_Inv.thy ===== *)
theory Index_Inv
  imports Convergence
begin

text \<open>
  The ordered index is exact (\<open>engine/index.rs\<close>): what the engine's own consistency assertion
  checks in debug builds is an invariant of every entry point. Every member stands under its
  next deadline, every live one under its placement score, every one under its change stamp,
  and the cached probe ring and gossip targets are the ones a scan would give.
\<close>


section \<open>The invariant\<close>

text \<open>Where a node is filed, and its change stamp; nowhere, for one the engine does not know.\<close>

definition filed_of :: "group_engine \<Rightarrow> node_id \<Rightarrow> filed \<times> nat" where
  "filed_of s n = (case fmlookup (ge_members s) n of
     None \<Rightarrow> (filed_none, 0) | Some m \<Rightarrow> (m_filed m, m_changed_at m))"

definition cache_ok :: "node_id list option \<Rightarrow> (node_id \<Rightarrow> bool) \<Rightarrow> bool" where
  "cache_ok c P \<longleftrightarrow> (\<forall>xs. c = Some xs \<longrightarrow> sorted_wrt (<) xs \<and> (\<forall>n. n \<in> set xs \<longleftrightarrow> P n))"

definition dues_filed :: "(node_id \<Rightarrow> filed \<times> nat) \<Rightarrow> index \<Rightarrow> bool" where
  "dues_filed F ix \<longleftrightarrow> (\<forall>at n. (at, n) |\<in>| ix_due ix \<longleftrightarrow> fd_due (fst (F n)) = at \<and> at \<noteq> time_max)"

definition live_filed :: "(node_id \<Rightarrow> filed \<times> nat) \<Rightarrow> index \<Rightarrow> bool" where
  "live_filed F ix \<longleftrightarrow> (\<forall>sc n. (sc, Reverse n) |\<in>| ix_live ix \<longleftrightarrow> fd_score (fst (F n)) = Some sc)"

definition stamps_filed :: "(node_id \<Rightarrow> filed \<times> nat) \<Rightarrow> index \<Rightarrow> bool" where
  "stamps_filed F ix \<longleftrightarrow>
     (\<forall>at n. fmlookup (ix_changed ix) at = Some n \<longleftrightarrow> snd (F n) = at \<and> 0 < at)
   \<and> (\<forall>l at n. (l, at, n) |\<in>| ix_news ix \<longleftrightarrow> fd_liveness (fst (F n)) = l \<and> snd (F n) = at \<and> 0 < at)"

definition filing_ok :: "group_engine \<Rightarrow> bool" where
  "filing_ok s \<longleftrightarrow>
     dues_filed (filed_of s) (ge_index s) \<and> live_filed (filed_of s) (ge_index s)
   \<and> stamps_filed (filed_of s) (ge_index s)
   \<and> (\<forall>n. snd (filed_of s n) \<le> ge_change_clock s)
   \<and> (\<forall>n sc. fd_score (fst (filed_of s n)) = Some sc \<longrightarrow> sc = owner_score (group_str (ge_group s)) n)
   \<and> cache_ok (ge_ring s) (\<lambda>n. n \<noteq> ge_local s \<and> fd_score (fst (filed_of s n)) \<noteq> None)
   \<and> cache_ok (ge_targets s) (\<lambda>n. n \<noteq> ge_local s \<and> fd_score (fst (filed_of s n)) \<noteq> None
        \<or> n |\<in>| ge_seeds s \<or> n |\<in>| ge_bootstrap_contacts s)"

text \<open>What a member is filed under is what its record says now.\<close>

definition filed_now :: "group_engine \<Rightarrow> node_id \<Rightarrow> member \<Rightarrow> bool" where
  "filed_now s n m \<longleftrightarrow>
     fd_due (m_filed m) = min (liveness_due s n m) (next_entry_due m)
   \<and> fd_score (m_filed m) =
       (if m_status m \<noteq> Dead then Some (owner_score (group_str (ge_group s)) n) else None)"

definition stamped_now :: "member \<Rightarrow> bool" where
  "stamped_now m \<longleftrightarrow> fd_liveness (m_filed m) = m_liveness_since m \<and> 0 < m_changed_at m"

definition almost_ok :: "node_id \<Rightarrow> group_engine \<Rightarrow> bool" where
  "almost_ok n s \<longleftrightarrow> filing_ok s
     \<and> (\<forall>k m. k \<noteq> n \<longrightarrow> fmlookup (ge_members s) k = Some m \<longrightarrow> filed_now s k m \<and> stamped_now m)"

definition index_ok :: "group_engine \<Rightarrow> bool" where
  "index_ok s \<longleftrightarrow> filing_ok s
     \<and> (\<forall>k m. fmlookup (ge_members s) k = Some m \<longrightarrow> filed_now s k m \<and> stamped_now m)"


section \<open>Changing one member\<close>

lemma filing_ok_members: "filed_of (s\<lparr>ge_members := ms\<rparr>) = filed_of s \<Longrightarrow> filing_ok (s\<lparr>ge_members := ms\<rparr>) = filing_ok s"
  by (simp add: filing_ok_def)

lemma filed_of_upd:
  "filed_of s n = (m_filed m, m_changed_at m) \<Longrightarrow> filed_of (s\<lparr>ge_members := fmupd n m (ge_members s)\<rparr>) = filed_of s"
  by (auto simp: filed_of_def fun_eq_iff)

lemma filed_now_cong:
  "core t = core s \<Longrightarrow> filed_now t n m = filed_now s n m"
  by (cases "m_status m") (simp_all add: filed_now_def liveness_due_def reap_after_def core_def)

lemma almost_ok_upd:
  assumes "index_ok s" "filed_of s n = (m_filed m, m_changed_at m)"
  shows "almost_ok n (s\<lparr>ge_members := fmupd n m (ge_members s)\<rparr>)"
  using assms(1) filing_ok_members [OF filed_of_upd [OF assms(2)]]
    filed_now_cong [of "s\<lparr>ge_members := fmupd n m (ge_members s)\<rparr>" s]
  by (simp add: index_ok_def almost_ok_def)

lemma index_okD: "index_ok s \<Longrightarrow> filing_ok s"
  by (simp add: index_ok_def)

lemma index_ok_almost: "index_ok s \<Longrightarrow> almost_ok n s"
  by (simp add: index_ok_def almost_ok_def)

lemma almost_ok_full:
  assumes "almost_ok n s" "\<And>m. fmlookup (ge_members s) n = Some m \<Longrightarrow> filed_now s n m \<and> stamped_now m"
  shows "index_ok s"
  using assms unfolding index_ok_def almost_ok_def by metis


section \<open>Filing\<close>

lemma set_patch_sorted: "sorted_wrt (<) xs \<Longrightarrow> k \<in> set (patch_sorted n b xs) \<longleftrightarrow> (if k = n then b else k \<in> set xs)"
  by (auto simp: patch_sorted_def strict_sorted_iff set_insort_key)

lemma sorted_patch_sorted: "sorted_wrt (<) xs \<Longrightarrow> sorted_wrt (<) (patch_sorted n b xs)"
  by (auto simp: patch_sorted_def strict_sorted_iff sorted_insort distinct_insort sorted_remove1 distinct_remove1)

lemma cache_ok_patch:
  "cache_ok c P \<Longrightarrow> (\<And>k. Q k \<longleftrightarrow> (if k = n then b else P k)) \<Longrightarrow> cache_ok (map_option (patch_sorted n b) c) Q"
  by (cases c) (auto simp: cache_ok_def set_patch_sorted sorted_patch_sorted)

text \<open>Filing a deadline: the set and the filing move together.\<close>

lemma dues_filed_move:
  assumes "dues_filed F (ge_index s)" "fd_due (fst (F n)) = was"
    and "\<And>k. k \<noteq> n \<Longrightarrow> fd_due (fst (G k)) = fd_due (fst (F k))" "fd_due (fst (G n)) = due"
  shows "dues_filed G (ge_index (file_due n was due s))"
proof (cases "due = was")
  case True
  then have "fd_due (fst (G k)) = fd_due (fst (F k))" for k
    using assms(2-4) by (cases "k = n") auto
  with assms(1) True show ?thesis by (simp add: dues_filed_def file_due_def)
next
  case False
  have "(at, k) |\<in>| ix_due (ge_index (file_due n was due s)) \<longleftrightarrow> fd_due (fst (G k)) = at \<and> at \<noteq> time_max" for at k
    using assms False by (cases "k = n") (auto simp: file_due_def Let_def dues_filed_def)
  then show ?thesis by (simp add: dues_filed_def)
qed

lemma file_due_simps [simp]:
  "ge_members (file_due n was due s) = ge_members s" "ge_ring (file_due n was due s) = ge_ring s"
  "ge_targets (file_due n was due s) = ge_targets s" "ge_change_clock (file_due n was due s) = ge_change_clock s"
  "ge_seeds (file_due n was due s) = ge_seeds s"
  "ge_bootstrap_contacts (file_due n was due s) = ge_bootstrap_contacts s"
  "ix_live (ge_index (file_due n was due s)) = ix_live (ge_index s)"
  "ix_changed (ge_index (file_due n was due s)) = ix_changed (ge_index s)"
  "ix_news (ge_index (file_due n was due s)) = ix_news (ge_index s)"
  by (simp_all add: file_due_def Let_def)


lemma live_set_changed_simps [simp]:
  "ge_index (live_set_changed n b s) = ge_index s" "ge_change_clock (live_set_changed n b s) = ge_change_clock s"
  "ge_seeds (live_set_changed n b s) = ge_seeds s" "ge_local (live_set_changed n b s) = ge_local s"
  "ge_bootstrap_contacts (live_set_changed n b s) = ge_bootstrap_contacts s"
  by (simp_all add: live_set_changed_def Let_def)

lemma file_score_simps [simp]:
  "ge_change_clock (snd (file_score n was b s)) = ge_change_clock s"
  "ge_seeds (snd (file_score n was b s)) = ge_seeds s"
  "ge_bootstrap_contacts (snd (file_score n was b s)) = ge_bootstrap_contacts s"
  "ix_due (ge_index (snd (file_score n was b s))) = ix_due (ge_index s)"
  "ix_changed (ge_index (snd (file_score n was b s))) = ix_changed (ge_index s)"
  "ix_news (ge_index (snd (file_score n was b s))) = ix_news (ge_index s)"
  by (auto simp: file_score_def Let_def split: option.splits bool.splits)

lemma fst_file_score:
  "(\<And>sc. was = Some sc \<Longrightarrow> sc = owner_score (group_str (ge_group s)) n) \<Longrightarrow>
     fst (file_score n was b s) = (if b then Some (owner_score (group_str (ge_group s)) n) else None)"
  by (auto simp: file_score_def Let_def split: option.splits bool.splits)

lemma live_filed_move:
  assumes "live_filed F (ge_index s)" "fd_score (fst (F n)) = was"
    and "\<And>k. k \<noteq> n \<Longrightarrow> fd_score (fst (G k)) = fd_score (fst (F k))"
    and "fd_score (fst (G n)) = fst (file_score n was b s)"
  shows "live_filed G (ge_index (snd (file_score n was b s)))"
proof -
  have "(sc, Reverse k) |\<in>| ix_live (ge_index (snd (file_score n was b s))) \<longleftrightarrow> fd_score (fst (G k)) = Some sc" for sc k
    using assms
    by (cases "k = n") (auto simp: file_score_def Let_def live_filed_def split: option.splits bool.splits)
  then show ?thesis by (simp add: live_filed_def)
qed

definition ring_ok :: "(node_id \<Rightarrow> filed \<times> nat) \<Rightarrow> group_engine \<Rightarrow> bool" where
  "ring_ok F s \<longleftrightarrow>
     cache_ok (ge_ring s) (\<lambda>n. n \<noteq> ge_local s \<and> fd_score (fst (F n)) \<noteq> None)
   \<and> cache_ok (ge_targets s) (\<lambda>n. n \<noteq> ge_local s \<and> fd_score (fst (F n)) \<noteq> None
        \<or> n |\<in>| ge_seeds s \<or> n |\<in>| ge_bootstrap_contacts s)"

lemma ring_ok_live_set_changed:
  assumes "ring_ok F s" "\<And>k. k \<noteq> n \<Longrightarrow> fd_score (fst (G k)) = fd_score (fst (F k))"
    and "b \<longleftrightarrow> fd_score (fst (G n)) \<noteq> None"
  shows "ring_ok G (live_set_changed n b s)"
proof -
  have "cache_ok (map_option (patch_sorted n (b \<and> n \<noteq> ge_local s)) (ge_ring s))
      (\<lambda>k. k \<noteq> ge_local s \<and> fd_score (fst (G k)) \<noteq> None)"
  proof (rule cache_ok_patch)
    show "cache_ok (ge_ring s) (\<lambda>k. k \<noteq> ge_local s \<and> fd_score (fst (F k)) \<noteq> None)"
      using assms(1) by (simp add: ring_ok_def)
    show "(k \<noteq> ge_local s \<and> fd_score (fst (G k)) \<noteq> None) = (if k = n then b \<and> n \<noteq> ge_local s
        else k \<noteq> ge_local s \<and> fd_score (fst (F k)) \<noteq> None)" for k
      using assms(2,3) by (cases "k = n") auto
  qed
  moreover have "cache_ok (map_option (patch_sorted n (b \<and> n \<noteq> ge_local s \<or> n |\<in>| ge_seeds s
        \<or> n |\<in>| ge_bootstrap_contacts s)) (ge_targets s))
      (\<lambda>k. k \<noteq> ge_local s \<and> fd_score (fst (G k)) \<noteq> None \<or> k |\<in>| ge_seeds s \<or> k |\<in>| ge_bootstrap_contacts s)"
  proof (rule cache_ok_patch)
    show "cache_ok (ge_targets s) (\<lambda>k. k \<noteq> ge_local s \<and> fd_score (fst (F k)) \<noteq> None
        \<or> k |\<in>| ge_seeds s \<or> k |\<in>| ge_bootstrap_contacts s)"
      using assms(1) by (simp add: ring_ok_def)
    show "(k \<noteq> ge_local s \<and> fd_score (fst (G k)) \<noteq> None \<or> k |\<in>| ge_seeds s \<or> k |\<in>| ge_bootstrap_contacts s) =
        (if k = n then b \<and> n \<noteq> ge_local s \<or> n |\<in>| ge_seeds s \<or> n |\<in>| ge_bootstrap_contacts s
         else k \<noteq> ge_local s \<and> fd_score (fst (F k)) \<noteq> None \<or> k |\<in>| ge_seeds s \<or> k |\<in>| ge_bootstrap_contacts s)" for k
      using assms(2,3) by (cases "k = n") auto
  qed
  ultimately show ?thesis
    by (simp add: ring_ok_def live_set_changed_def Let_def)
qed

lemma ring_ok_index [simp]: "ring_ok F (s\<lparr>ge_index := ix\<rparr>) = ring_ok F s"
  by (simp add: ring_ok_def)

lemma ring_ok_move:
  assumes "ring_ok F s" "fd_score (fst (F n)) = was"
    and "\<And>k. k \<noteq> n \<Longrightarrow> fd_score (fst (G k)) = fd_score (fst (F k))"
    and "fd_score (fst (G n)) = fst (file_score n was b s)"
  shows "ring_ok G (snd (file_score n was b s))"
proof (cases "(was \<noteq> None) = b")
  case True
  have "fd_score (fst (G k)) = fd_score (fst (F k))" for k
    using assms(2-4) True by (cases "k = n") (auto simp: file_score_def split: option.splits bool.splits)
  with assms(1) True show ?thesis
    by (auto simp: ring_ok_def file_score_def split: option.splits bool.splits)
next
  case False
  with assms(4) have b: "b \<longleftrightarrow> fd_score (fst (G n)) \<noteq> None"
    by (auto simp: file_score_def Let_def split: option.splits bool.splits)
  have "ring_ok G (live_set_changed n b (s\<lparr>ge_index := ix\<rparr>))" for ix
    using ring_ok_live_set_changed [of F "s\<lparr>ge_index := ix\<rparr>" n G b] assms(1,3) b by simp
  with False show ?thesis
    by (auto simp: file_score_def Let_def split: option.splits bool.splits)
qed

lemma filing_ok_alt:
  "filing_ok s \<longleftrightarrow> dues_filed (filed_of s) (ge_index s) \<and> live_filed (filed_of s) (ge_index s)
   \<and> stamps_filed (filed_of s) (ge_index s) \<and> (\<forall>n. snd (filed_of s n) \<le> ge_change_clock s)
   \<and> (\<forall>n sc. fd_score (fst (filed_of s n)) = Some sc \<longrightarrow> sc = owner_score (group_str (ge_group s)) n)
   \<and> ring_ok (filed_of s) s"
  by (auto simp: filing_ok_def ring_ok_def)

lemma ge_group_core: "core t = core s \<Longrightarrow> ge_group t = ge_group s \<and> ge_local t = ge_local s"
  by (simp add: core_def)


lemma reindex_spec:
  assumes "fmlookup (ge_members s) n = Some m" "filing_ok s"
  defines "due \<equiv> min (liveness_due s n m) (next_entry_due m)"
    and "sc \<equiv> (if m_status m \<noteq> Dead then Some (owner_score (group_str (ge_group s)) n) else None)"
  shows "filing_ok (reindex n s)"
    and "ge_members (reindex n s) =
      fmupd n (m\<lparr>m_filed := (m_filed m)\<lparr>fd_due := due, fd_score := sc\<rparr>\<rparr>) (ge_members s)"
proof -
  define s1 where "s1 = file_due n (fd_due (m_filed m)) due s"
  define s2 where "s2 = snd (file_score n (fd_score (m_filed m)) (m_status m \<noteq> Dead) s1)"
  define m' where "m' = m\<lparr>m_filed := (m_filed m)\<lparr>fd_due := due, fd_score := sc\<rparr>\<rparr>"
  define F where "F = filed_of s"
  define G where "G = F(n := (m_filed m', m_changed_at m))"
  have Fn: "F n = (m_filed m, m_changed_at m)" using assms(1) by (simp add: F_def filed_of_def)
  have ok: "dues_filed F (ge_index s)" "live_filed F (ge_index s)" "stamps_filed F (ge_index s)"
      "ring_ok F s" "\<And>k. snd (F k) \<le> ge_change_clock s"
      "\<And>k x. fd_score (fst (F k)) = Some x \<Longrightarrow> x = owner_score (group_str (ge_group s)) k"
    using assms(2) by (auto simp: filing_ok_alt F_def)
  have core1: "core s1 = core s" "core s2 = core s" by (simp_all add: s1_def s2_def)
  have score: "fst (file_score n (fd_score (m_filed m)) (m_status m \<noteq> Dead) s1) = sc"
    using ok(6) [of n] Fn ge_group_core [OF core1(1)] by (subst fst_file_score) (auto simp: sc_def)
  have mem: "ge_members s2 = ge_members s" by (simp add: s2_def s1_def)
  have re: "reindex n s = s2\<lparr>ge_members := fmupd n m' (ge_members s)\<rparr>"
    using assms(1) score
    by (simp add: reindex_def Let_def case_prod_beta due_def [symmetric] s1_def [symmetric] s2_def [symmetric]
        m'_def mem)
  then show "ge_members (reindex n s) =
      fmupd n (m\<lparr>m_filed := (m_filed m)\<lparr>fd_due := due, fd_score := sc\<rparr>\<rparr>) (ge_members s)"
    by (simp add: m'_def)
  have filed: "filed_of (reindex n s) = G"
    by (auto simp: re filed_of_def G_def F_def m'_def fun_eq_iff)
  have dues1: "dues_filed G (ge_index s1)"
    unfolding s1_def by (rule dues_filed_move [OF ok(1)]) (auto simp: Fn G_def m'_def)
  have live1: "live_filed F (ge_index s1)" using ok(2) by (simp add: live_filed_def s1_def)
  have ring1: "ring_ok F s1"
    using ok(4) ge_group_core [OF core1(1)] by (simp add: ring_ok_def s1_def)
  have "dues_filed G (ge_index s2)" using dues1 by (simp add: dues_filed_def s2_def)
  moreover have "live_filed G (ge_index s2)"
    unfolding s2_def by (rule live_filed_move [OF live1]) (auto simp: Fn G_def m'_def score)
  moreover have "ring_ok G s2"
    unfolding s2_def by (rule ring_ok_move [OF ring1]) (auto simp: Fn G_def m'_def score)
  moreover have "stamps_filed G (ge_index s2)"
    using ok(3) by (auto simp: stamps_filed_def s2_def s1_def G_def Fn m'_def)
  moreover have "snd (G k) \<le> ge_change_clock s2" for k
    using ok(5) [of k] Fn by (auto simp: G_def s2_def s1_def)
  moreover have "x = owner_score (group_str (ge_group s2)) k" if "fd_score (fst (G k)) = Some x" for k x
    using that ok(6) ge_group_core [OF core1(2)] by (auto simp: G_def m'_def sc_def split: if_splits)
  ultimately show "filing_ok (reindex n s)"
    unfolding filing_ok_alt filed by (simp add: re ring_ok_def)
qed

lemma core_fields: "core t = core s \<Longrightarrow> ge_group t = ge_group s \<and> ge_local t = ge_local s \<and> ge_config t = ge_config s"
  by (simp add: core_def)

lemma almost_ok_reindex:
  assumes "almost_ok n s"
  shows "almost_ok n (reindex n s)"
    and "fmlookup (ge_members (reindex n s)) n = Some m \<Longrightarrow> filed_now (reindex n s) n m"
proof -
  have eq: "filed_now (reindex n s) k x = filed_now s k x" for k x
    by (rule filed_now_cong) simp
  have "almost_ok n (reindex n s) \<and> (\<forall>m. fmlookup (ge_members (reindex n s)) n = Some m \<longrightarrow> filed_now s n m)"
  proof (cases "fmlookup (ge_members s) n")
    case None
    then have "reindex n s = s" by (simp add: reindex_def)
    with assms None show ?thesis by simp
  next
    case (Some x)
    from assms have "filing_ok s" by (simp add: almost_ok_def)
    note spec = reindex_spec [OF Some this]
    have "filed_now s n y" if "fmlookup (ge_members (reindex n s)) n = Some y" for y
      using that unfolding spec(2)
      by (auto simp: filed_now_def liveness_due_def next_entry_due_def split: status.splits)
    moreover have "almost_ok n (reindex n s)"
      using assms spec(1) unfolding almost_ok_def eq by (simp add: spec(2))
    ultimately show ?thesis by blast
  qed
  then show "almost_ok n (reindex n s)"
    and "fmlookup (ge_members (reindex n s)) n = Some m \<Longrightarrow> filed_now (reindex n s) n m"
    by (auto simp: eq)
qed



section \<open>Stamping and forgetting\<close>

lemma stamps_filedD:
  assumes "stamps_filed F ix"
  shows "fmlookup (ix_changed ix) at = Some k \<longleftrightarrow> snd (F k) = at \<and> 0 < at"
    and "(l, at, k) |\<in>| ix_news ix \<longleftrightarrow> fd_liveness (fst (F k)) = l \<and> snd (F k) = at \<and> 0 < at"
  using assms by (auto simp: stamps_filed_def)

lemma stamps_filedI:
  assumes "\<And>at k. fmlookup (ix_changed ix) at = Some k \<longleftrightarrow> snd (F k) = at \<and> 0 < at"
    and "\<And>l at k. (l, at, k) |\<in>| ix_news ix \<longleftrightarrow> fd_liveness (fst (F k)) = l \<and> snd (F k) = at \<and> 0 < at"
  shows "stamps_filed F ix"
  using assms by (simp add: stamps_filed_def)

lemma stamps_filed_unstamp:
  assumes "stamps_filed F ix" "F n = (m_filed m, m_changed_at m)"
  shows "stamps_filed (F(n := (f, 0))) (unstamp n m ix)"
proof (rule stamps_filedI)
  fix l at k
  note D = stamps_filedD [OF assms(1), where k = k] stamps_filedD(1) [OF assms(1), where k = n]
  show "fmlookup (ix_changed (unstamp n m ix)) at = Some k \<longleftrightarrow> snd ((F(n := (f, 0))) k) = at \<and> 0 < at"
    using D(1) [of at] D(3) [of "m_changed_at m"] assms(2)
    by (cases "k = n"; cases "at = m_changed_at m") (auto simp: unstamp_def)
  show "(l, at, k) |\<in>| ix_news (unstamp n m ix) \<longleftrightarrow>
      fd_liveness (fst ((F(n := (f, 0))) k)) = l \<and> snd ((F(n := (f, 0))) k) = at \<and> 0 < at"
    using D(2) [of l at] assms(2) by (cases "k = n") (auto simp: unstamp_def)
qed

lemma stamps_filed_stamp:
  assumes "stamps_filed F ix" "snd (F n) = 0" "\<And>k. snd (F k) < st"
  shows "stamps_filed (F(n := (f, st))) (ix\<lparr>ix_changed := fmupd st n (ix_changed ix),
    ix_news := finsert (fd_liveness f, st, n) (ix_news ix)\<rparr>)"
proof (rule stamps_filedI)
  fix l at k
  note D = stamps_filedD [OF assms(1), where k = k]
  have st: "0 < st" "snd (F k) \<noteq> st" using assms(3) [of n] assms(3) [of k] by auto
  show "fmlookup (ix_changed (ix\<lparr>ix_changed := fmupd st n (ix_changed ix),
      ix_news := finsert (fd_liveness f, st, n) (ix_news ix)\<rparr>)) at = Some k
      \<longleftrightarrow> snd ((F(n := (f, st))) k) = at \<and> 0 < at"
    using D(1) [of at] assms(2) st by (cases "k = n") auto
  show "(l, at, k) |\<in>| ix_news (ix\<lparr>ix_changed := fmupd st n (ix_changed ix),
      ix_news := finsert (fd_liveness f, st, n) (ix_news ix)\<rparr>)
      \<longleftrightarrow> fd_liveness (fst ((F(n := (f, st))) k)) = l \<and> snd ((F(n := (f, st))) k) = at \<and> 0 < at"
    using D(2) [of l at] assms(2) st by (cases "k = n") auto
qed

lemma unstamp_simps [simp]:
  "ix_due (unstamp n m ix) = ix_due ix" "ix_live (unstamp n m ix) = ix_live ix"
  by (simp_all add: unstamp_def)

lemma restamp_spec:
  assumes "fmlookup (ge_members s) n = Some m" "filing_ok s"
    and "\<And>k. snd (filed_of s k) < at" "at \<le> ge_change_clock s"
  shows "filing_ok (restamp n at s)"
    and "ge_members (restamp n at s) = fmupd n
      (m\<lparr>m_changed_at := at, m_filed := (m_filed m)\<lparr>fd_liveness := m_liveness_since m\<rparr>\<rparr>) (ge_members s)"
proof -
  define F where "F = filed_of s"
  define f where "f = (m_filed m)\<lparr>fd_liveness := m_liveness_since m\<rparr>"
  define ix where "ix = unstamp n m (ge_index s)"
  have Fn: "F n = (m_filed m, m_changed_at m)" using assms(1) by (simp add: F_def filed_of_def)
  show mem: "ge_members (restamp n at s) = fmupd n
      (m\<lparr>m_changed_at := at, m_filed := (m_filed m)\<lparr>fd_liveness := m_liveness_since m\<rparr>\<rparr>) (ge_members s)"
    using assms(1) by (simp add: restamp_def Let_def)
  have ok: "dues_filed F (ge_index s)" "live_filed F (ge_index s)" "stamps_filed F (ge_index s)"
      "ring_ok F s" "\<And>k. snd (F k) \<le> ge_change_clock s"
      "\<And>k x. fd_score (fst (F k)) = Some x \<Longrightarrow> x = owner_score (group_str (ge_group s)) k"
    using assms(2) by (auto simp: filing_ok_alt F_def)
  have filed: "filed_of (restamp n at s) = F(n := (f, at))"
    by (auto simp: mem filed_of_def F_def f_def fun_eq_iff)
  have less: "snd (F k) < at" for k using assms(3) by (simp add: F_def)
  then have pos: "0 < at" by (metis less_nat_zero_code not_gr_zero)
  have "stamps_filed (F(n := (f, 0))) ix"
    unfolding ix_def by (rule stamps_filed_unstamp [OF ok(3) Fn])
  then have "stamps_filed ((F(n := (f, 0)))(n := (f, at)))
      (ix\<lparr>ix_changed := fmupd at n (ix_changed ix), ix_news := finsert (fd_liveness f, at, n) (ix_news ix)\<rparr>)"
    by (rule stamps_filed_stamp) (use less pos in auto)
  moreover have "ge_index (restamp n at s) = ix\<lparr>ix_changed := fmupd at n (ix_changed ix),
      ix_news := finsert (fd_liveness f, at, n) (ix_news ix)\<rparr>"
    using assms(1) by (simp add: restamp_def Let_def ix_def f_def)
  ultimately have "stamps_filed (filed_of (restamp n at s)) (ge_index (restamp n at s))"
    by (simp add: filed)
  moreover have "dues_filed (F(n := (f, at))) (ge_index (restamp n at s))"
    "live_filed (F(n := (f, at))) (ge_index (restamp n at s))"
    using ok(1,2) assms(1) Fn by (auto simp: dues_filed_def live_filed_def restamp_def Let_def f_def)
  moreover have "ring_ok (F(n := (f, at))) (restamp n at s)"
    using ok(4) assms(1) Fn unfolding ring_ok_def
    by (auto simp: restamp_def Let_def f_def cache_ok_def)
  moreover have "snd ((F(n := (f, at))) k) \<le> ge_change_clock (restamp n at s)" for k
    using ok(5) assms(1,4) by (simp add: restamp_def Let_def)
  moreover have "x = owner_score (group_str (ge_group (restamp n at s))) k"
    if "fd_score (fst ((F(n := (f, at))) k)) = Some x" for k x
    using that ok(6) [of k x] Fn assms(1) by (auto simp: f_def restamp_def Let_def split: if_splits)
  ultimately show "filing_ok (restamp n at s)"
    unfolding filing_ok_alt filed by blast
qed


lemma filed_of_other: "ge_members t = ge_members s \<Longrightarrow> filed_of t = filed_of s"
  by (simp add: filed_of_def fun_eq_iff)

lemma filing_ok_clock: "filing_ok s \<Longrightarrow> filing_ok (s\<lparr>ge_change_clock := ge_change_clock s + 1\<rparr>)"
  using filed_of_other [of "s\<lparr>ge_change_clock := ge_change_clock s + 1\<rparr>" s]
  by (simp add: filing_ok_alt ring_ok_def le_SucI)

lemma stamp_absent: "fmlookup (ge_members s) n = None \<Longrightarrow> stamp n s = s\<lparr>ge_change_clock := ge_change_clock s + 1\<rparr>"
  by (simp add: stamp_def Let_def restamp_def reindex_def)

lemma index_ok_restamp:
  assumes "almost_ok n s" "fmlookup (ge_members s) n = Some m"
    and "\<And>k. snd (filed_of s k) < at" "at \<le> ge_change_clock s"
  shows "index_ok (reindex n (restamp n at s))"
proof -
  define s2 where "s2 = restamp n at s"
  from assms(1) have "filing_ok s" by (simp add: almost_ok_def)
  note spec = restamp_spec [OF assms(2) this assms(3,4), folded s2_def]
  have eq: "filed_now s2 k x = filed_now s k x" for k x
    by (rule filed_now_cong) (simp add: s2_def)
  have almost: "almost_ok n s2"
    using assms(1) spec(1) unfolding almost_ok_def eq by (simp add: spec(2))
  have pos: "0 < at" using assms(3) [of n] by simp
  have st: "stamped_now x" if x: "fmlookup (ge_members (reindex n s2)) n = Some x" for x
  proof -
    have n2: "fmlookup (ge_members s2) n = Some (m\<lparr>m_changed_at := at,
        m_filed := (m_filed m)\<lparr>fd_liveness := m_liveness_since m\<rparr>\<rparr>)"
      by (simp add: spec(2))
    show ?thesis
      using x pos unfolding reindex_spec(2) [OF n2 spec(1)] by (auto simp: stamped_now_def)
  qed
  then show ?thesis
    using almost_ok_full [OF almost_ok_reindex(1) [OF almost]] almost_ok_reindex(2) [OF almost] by (simp add: s2_def)
qed

lemma almost_ok_clock: "almost_ok n s \<Longrightarrow> almost_ok n (s\<lparr>ge_change_clock := ge_change_clock s + 1\<rparr>)"
  using filing_ok_clock [of s] filed_now_cong [of "s\<lparr>ge_change_clock := ge_change_clock s + 1\<rparr>" s]
  by (simp add: almost_ok_def)

lemma index_ok_stamp:
  assumes "almost_ok n s"
  shows "index_ok (stamp n s)"
proof (cases "fmlookup (ge_members s) n")
  case None
  with almost_ok_clock [OF assms] show ?thesis
    by (auto simp: stamp_absent [OF None] intro: almost_ok_full)
next
  case (Some m)
  define s1 where "s1 = s\<lparr>ge_change_clock := ge_change_clock s + 1\<rparr>"
  have "snd (filed_of s1 k) < ge_change_clock s1" for k
    using assms by (auto simp: almost_ok_def filing_ok_alt s1_def filed_of_def less_Suc_eq_le)
  with almost_ok_clock [OF assms] Some have "index_ok (reindex n (restamp n (ge_change_clock s1) s1))"
    by (intro index_ok_restamp) (simp_all add: s1_def)
  then show ?thesis by (simp add: stamp_def Let_def s1_def)
qed

lemma index_ok_reindex:
  assumes "almost_ok n s" "\<And>m. fmlookup (ge_members s) n = Some m \<Longrightarrow> stamped_now m"
  shows "index_ok (reindex n s)"
proof (rule almost_ok_full [OF almost_ok_reindex(1) [OF assms(1)]])
  fix m
  assume m: "fmlookup (ge_members (reindex n s)) n = Some m"
  have "stamped_now m"
  proof (cases "fmlookup (ge_members s) n")
    case None
    with m show ?thesis by (simp add: reindex_def)
  next
    case (Some x)
    from assms(1) have "filing_ok s" by (simp add: almost_ok_def)
    with m assms(2) [OF Some] show ?thesis
      unfolding reindex_spec(2) [OF Some \<open>filing_ok s\<close>] by (auto simp: stamped_now_def)
  qed
  with almost_ok_reindex(2) [OF assms(1) m] show "filed_now (reindex n s) n m \<and> stamped_now m" by simp
qed

lemma pop_forgotten_simps [simp]:
  "ix_due (pop_forgotten ix) = ix_due ix" "ix_live (pop_forgotten ix) = ix_live ix"
  "ix_changed (pop_forgotten ix) = ix_changed ix" "ix_news (pop_forgotten ix) = ix_news ix"
  by (simp_all add: pop_forgotten_def split: list.split)

lemma index_ok_forget:
  assumes "index_ok s"
  shows "index_ok (forget n s)"
proof (cases "fmlookup (ge_members s) n")
  case None
  with assms show ?thesis by (simp add: forget_def)
next
  case (Some m)
  define F where "F = filed_of s"
  define G where "G = F(n := (filed_none, 0::nat))"
  have Fn: "F n = (m_filed m, m_changed_at m)" using Some by (simp add: F_def filed_of_def)
  have ok: "dues_filed F (ge_index s)" "live_filed F (ge_index s)" "stamps_filed F (ge_index s)"
      "ring_ok F s" "\<And>k. snd (F k) \<le> ge_change_clock s"
      "\<And>k x. fd_score (fst (F k)) = Some x \<Longrightarrow> x = owner_score (group_str (ge_group s)) k"
    using assms by (auto simp: index_ok_def filing_ok_alt F_def)
  have mem: "ge_members (forget n s) = fmdrop n (ge_members s)"
    "ge_change_clock (forget n s) = ge_change_clock s + 1"
    "ix_due (ge_index (forget n s)) =
       (if fd_due (m_filed m) \<noteq> time_max then ix_due (ge_index s) |-| {|(fd_due (m_filed m), n)|}
        else ix_due (ge_index s))"
    "ix_live (ge_index (forget n s)) =
       (case fd_score (m_filed m) of None \<Rightarrow> ix_live (ge_index s)
        | Some sc \<Rightarrow> ix_live (ge_index s) |-| {|(sc, Reverse n)|})"
    using Some by (simp_all add: forget_def Let_def unstamp_def split: option.split)
  have ix: "ix_changed (ge_index (forget n s)) = ix_changed (unstamp n m (ge_index s))"
    "ix_news (ge_index (forget n s)) = ix_news (unstamp n m (ge_index s))"
    using Some by (simp_all add: forget_def Let_def unstamp_def split: option.split)
  have filed: "filed_of (forget n s) = G"
    by (auto simp: mem(1) filed_of_def G_def F_def fun_eq_iff)
  have "dues_filed G (ge_index (forget n s))"
    unfolding dues_filed_def mem(3) using ok(1) Fn
    by (auto simp: dues_filed_def G_def filed_none_def)
  moreover have "live_filed G (ge_index (forget n s))"
    unfolding live_filed_def mem(4) using ok(2) Fn
    by (auto simp: live_filed_def G_def filed_none_def split: option.splits)
  moreover have "stamps_filed G (ge_index (forget n s))"
    using stamps_filed_unstamp [OF ok(3) Fn, of filed_none] unfolding stamps_filed_def ix G_def .
  moreover have "ring_ok G (forget n s)"
  proof (cases "fd_score (m_filed m)")
    case None
    then have same: "fd_score (fst (G k)) = fd_score (fst (F k))" for k
      using Fn by (simp add: G_def filed_none_def)
    have "ring_ok G (forget n s) = ring_ok F s"
      unfolding ring_ok_def same using Some None by (simp add: forget_def Let_def)
    with ok(4) show ?thesis by simp
  next
    case (Some sc)
    define u where "u = live_set_changed n False s"
    have "ring_ok G u"
      unfolding u_def by (rule ring_ok_live_set_changed [OF ok(4)]) (auto simp: G_def filed_none_def)
    moreover have "ge_ring (forget n s) = ge_ring u" "ge_targets (forget n s) = ge_targets u"
      "ge_seeds (forget n s) = ge_seeds u" "ge_local (forget n s) = ge_local u"
      "ge_bootstrap_contacts (forget n s) = ge_bootstrap_contacts u"
      using \<open>fmlookup (ge_members s) n = Some m\<close> Some
      by (simp_all add: forget_def Let_def u_def live_set_changed_def)
    ultimately show ?thesis by (simp add: ring_ok_def)
  qed
  moreover have "snd (G k) \<le> ge_change_clock (forget n s)" for k
    using ok(5) [of k] by (simp add: G_def mem(2))
  moreover have "x = owner_score (group_str (ge_group (forget n s))) k" if "fd_score (fst (G k)) = Some x" for k x
    using that ok(6) ge_group_core [OF core_forget [of n s]] by (auto simp: G_def filed_none_def split: if_splits)
  ultimately have "filing_ok (forget n s)" unfolding filing_ok_alt filed by simp
  moreover have "filed_now (forget n s) k x = filed_now s k x" for k x
    by (rule filed_now_cong) simp
  ultimately show ?thesis
    using assms by (simp add: index_ok_def mem(1))
qed



section \<open>Steps that leave the tables alone\<close>

definition tables :: "group_engine \<Rightarrow> (node_id, member) fmap \<times> index \<times> node_id list option \<times> node_id list option
    \<times> node_id fset \<times> node_id fset \<times> nat \<times> node_id \<times> group_id \<times> config" where
  "tables s = (ge_members s, ge_index s, ge_ring s, ge_targets s, ge_seeds s, ge_bootstrap_contacts s,
     ge_change_clock s, ge_local s, ge_group s, ge_config s)"

lemma tables_update [simp]:
  "tables (s\<lparr>ge_digest_peers := f\<rparr>) = tables s"
  "tables (s\<lparr>ge_coordinator := g\<rparr>) = tables s"
  "tables (s\<lparr>ge_next_anti_entropy := h\<rparr>) = tables s"
  "tables (s\<lparr>ge_last_round := h\<rparr>) = tables s"
  "tables (s\<lparr>ge_next_probe := h\<rparr>) = tables s"
  "tables (s\<lparr>ge_probe_cursor := i\<rparr>) = tables s"
  "tables (s\<lparr>ge_gossip_cursor := i\<rparr>) = tables s"
  "tables (s\<lparr>ge_rng := j\<rparr>) = tables s"
  "tables (s\<lparr>ge_pending := k\<rparr>) = tables s"
  "tables (s\<lparr>ge_relaying := l\<rparr>) = tables s"
  "tables (s\<lparr>ge_now_hint := h\<rparr>) = tables s"
  "tables (s\<lparr>ge_authored := m\<rparr>) = tables s"
  "tables (s\<lparr>ge_metadata := n\<rparr>) = tables s"
  "tables (s\<lparr>ge_incarnation := i\<rparr>) = tables s"
  "tables (s\<lparr>ge_leaving := p\<rparr>) = tables s"
  "tables (s\<lparr>ge_election := q\<rparr>) = tables s"
  "tables (s\<lparr>ge_stats := r\<rparr>) = tables s"
  by (simp_all add: tables_def)

lemma index_ok_tables:
  assumes "tables t = tables s"
  shows "index_ok t = index_ok s"
proof -
  have eq: "ge_members t = ge_members s" "ge_index t = ge_index s" "ge_ring t = ge_ring s"
    "ge_targets t = ge_targets s" "ge_seeds t = ge_seeds s" "ge_bootstrap_contacts t = ge_bootstrap_contacts s"
    "ge_change_clock t = ge_change_clock s" "ge_local t = ge_local s" "ge_group t = ge_group s"
    "ge_config t = ge_config s"
    using assms by (simp_all add: tables_def)
  have "filed_of t = filed_of s" by (rule filed_of_other) (rule eq(1))
  moreover have "filed_now t k m = filed_now s k m" for k m
    using eq by (cases "m_status m") (simp_all add: filed_now_def liveness_due_def reap_after_def)
  ultimately show ?thesis
    using eq by (simp add: index_ok_def filing_ok_def)
qed

lemma index_ok_same:
  assumes "index_ok s" "fmlookup (ge_members s) n = Some m"
    and "m_filed m' = m_filed m" "m_changed_at m' = m_changed_at m" "m_status m' = m_status m"
    and "m_suspect_due m' = m_suspect_due m" "m_accuse_at m' = m_accuse_at m"
    and "m_dead_since m' = m_dead_since m" "m_entry_dues m' = m_entry_dues m"
    and "m_liveness_since m' = m_liveness_since m"
  shows "index_ok (s\<lparr>ge_members := fmupd n m' (ge_members s)\<rparr>)"
proof (rule almost_ok_full [of n])
  show "almost_ok n (s\<lparr>ge_members := fmupd n m' (ge_members s)\<rparr>)"
    using assms by (intro almost_ok_upd) (auto simp: filed_of_def)
  fix x
  assume "fmlookup (ge_members (s\<lparr>ge_members := fmupd n m' (ge_members s)\<rparr>)) n = Some x"
  then have x: "x = m'" by simp
  have "filed_now s n m \<and> stamped_now m" using assms(1,2) by (auto simp: index_ok_def)
  then show "filed_now (s\<lparr>ge_members := fmupd n m' (ge_members s)\<rparr>) n x \<and> stamped_now x"
    using assms unfolding x
    by (cases "m_status m") (simp_all add: filed_now_def stamped_now_def liveness_due_def next_entry_due_def reap_after_def)
qed


section \<open>The live set and the coordinator\<close>

definition live_of :: "group_engine \<Rightarrow> node_id fset" where
  "live_of s = ffilter (\<lambda>n. m_status (the (fmlookup (ge_members s) n)) \<noteq> Dead) (fmdom (ge_members s))"

lemma in_live_of: "n |\<in>| live_of s \<longleftrightarrow> (\<exists>m. fmlookup (ge_members s) n = Some m \<and> m_status m \<noteq> Dead)"
  by (auto simp: live_of_def fmlookup_dom_iff)

lemma live_of_filed:
  assumes "index_ok s"
  shows "fd_score (fst (filed_of s n)) =
    (if n |\<in>| live_of s then Some (owner_score (group_str (ge_group s)) n) else None)"
proof (cases "fmlookup (ge_members s) n")
  case None
  then show ?thesis by (simp add: filed_of_def filed_none_def in_live_of)
next
  case (Some m)
  with assms have "filed_now s n m" by (simp add: index_ok_def)
  with Some show ?thesis by (simp add: filed_of_def in_live_of filed_now_def)
qed

lemma ix_live_live_of:
  assumes "index_ok s"
  shows "ix_live (ge_index s) = (\<lambda>n. (owner_score (group_str (ge_group s)) n, Reverse n)) |`| live_of s"
proof (rule fset_eqI)
  fix x :: "u64 \<times> node_id reverse"
  obtain sc n where x: "x = (sc, Reverse n)" by (metis reverse.exhaust surj_pair)
  have "x |\<in>| ix_live (ge_index s) \<longleftrightarrow> fd_score (fst (filed_of s n)) = Some sc"
    using assms by (simp add: x index_ok_def filing_ok_def live_filed_def)
  then show "x |\<in>| ix_live (ge_index s) \<longleftrightarrow>
      x |\<in>| (\<lambda>n. (owner_score (group_str (ge_group s)) n, Reverse n)) |`| live_of s"
    by (auto simp: x live_of_filed [OF assms])
qed


lemma compute_coordinator_owner:
  assumes "index_ok s"
  shows "compute_coordinator s = owner (group_str (ge_group s)) (live_of s)"
proof (cases "live_of s = {||}")
  case True
  then show ?thesis
    by (simp add: compute_coordinator_def ix_live_live_of [OF assms] owner_def owner_among_def fset_last_def)
next
  case False
  let ?key = "\<lambda>n. (owner_score (group_str (ge_group s)) n, Reverse n)"
  have "ix_live (ge_index s) \<noteq> {||}" using False ix_live_live_of [OF assms] by auto
  then obtain z where z: "fset_last (ix_live (ge_index s)) = Some z"
    by (cases "fset_last (ix_live (ge_index s))") auto
  then have top: "z |\<in>| ix_live (ge_index s)" "\<And>y. y |\<in>| ix_live (ge_index s) \<Longrightarrow> y \<le> z"
    by (auto simp: fset_last_Some_iff)
  then obtain n where n: "n |\<in>| live_of s" "z = ?key n"
    using ix_live_live_of [OF assms] by auto
  have "?key k \<le> ?key n" if "k |\<in>| live_of s" for k
    using top(2) [of "?key k"] that n(2) unfolding ix_live_live_of [OF assms] by blast
  moreover have "inj_on ?key (set (fset_list (live_of s)))" by (auto simp: inj_on_def)
  ultimately have "owner (group_str (ge_group s)) (live_of s) = Some n"
    using n(1) unfolding owner_def owner_among_def by (subst max_by_key_Some_iff) simp_all
  then show ?thesis by (simp add: compute_coordinator_def z n(2))
qed

text \<open>
  The local node is always a member, so its own record is there to merge into, and every
  member's deadline listing is exact.
\<close>

definition records_ok :: "group_engine \<Rightarrow> bool" where
  "records_ok s \<longleftrightarrow> ge_local s |\<in>| fmdom (ge_members s)
     \<and> (\<forall>n m. fmlookup (ge_members s) n = Some m \<longrightarrow> dues_ok (reap_after s) m)"

lemma records_okD: "records_ok s \<Longrightarrow> fmlookup (ge_members s) n = Some m \<Longrightarrow> dues_ok (reap_after s) m"
  by (simp add: records_ok_def)

lemma records_ok_self: "records_ok s \<Longrightarrow> \<exists>m. fmlookup (ge_members s) (ge_local s) = Some m"
  by (auto simp: records_ok_def fmlookup_dom_iff)

lemma dues_ok_cong:
  "m_entries m' = m_entries m \<Longrightarrow> m_entry_dues m' = m_entry_dues m \<Longrightarrow> dues_ok r m' = dues_ok r m"
  by (simp add: dues_ok_def)

lemma dues_ok_updates [simp]:
  "dues_ok r (m\<lparr>m_hash_cache := c\<rparr>) = dues_ok r m" "dues_ok r (m\<lparr>m_filed := f\<rparr>) = dues_ok r m"
  "dues_ok r (m\<lparr>m_changed_at := k\<rparr>) = dues_ok r m" "dues_ok r (m\<lparr>m_incarnation := i\<rparr>) = dues_ok r m"
  "dues_ok r (m\<lparr>m_max_state_version := v\<rparr>) = dues_ok r m" "dues_ok r (m\<lparr>m_dead_since := t\<rparr>) = dues_ok r m"
  "dues_ok r (m\<lparr>m_accuse_at := t\<rparr>) = dues_ok r m" "dues_ok r (m\<lparr>m_suspect_due := t\<rparr>) = dues_ok r m"
  "dues_ok r (adopt_status st now m) = dues_ok r m" "dues_ok r (arm_verdict s st now m) = dues_ok r m"
  "dues_ok r (suspect_here now w e m) = dues_ok r m" "dues_ok r (observe_version v m) = dues_ok r m"
  by (rule dues_ok_cong; simp add: adopt_status_def arm_verdict_def hear_suspicion_def suspect_here_def
        observe_version_def Let_def split: status.split)+

lemma reap_after_core: "core t = core s \<Longrightarrow> reap_after t = reap_after s"
  by (simp add: core_def reap_after_def)

lemma records_ok_upd:
  "records_ok s \<Longrightarrow> dues_ok (reap_after s) m \<Longrightarrow> records_ok (s\<lparr>ge_members := fmupd n m (ge_members s)\<rparr>)"
  by (auto simp: records_ok_def reap_after_core [of "s\<lparr>ge_members := fmupd n m (ge_members s)\<rparr>" s])

lemma records_ok_stamp [simp]:
  "records_ok (stamp n s) = records_ok s" "records_ok (stamp_self s) = records_ok s"
  "records_ok (reindex n s) = records_ok s"
proof -
  have same: "records_ok t = records_ok s"
    if "core t = core s" "\<And>k. map_option (\<lambda>m. (m_entries m, m_entry_dues m)) (fmlookup (ge_members t) k)
      = map_option (\<lambda>m. (m_entries m, m_entry_dues m)) (fmlookup (ge_members s) k)" for s t
  proof -
    have "(\<forall>m. fmlookup (ge_members t) k = Some m \<longrightarrow> dues_ok (reap_after s) m)
        = (\<forall>m. fmlookup (ge_members s) k = Some m \<longrightarrow> dues_ok (reap_after s) m)
      \<and> (fmlookup (ge_members t) k = None) = (fmlookup (ge_members s) k = None)" for k
      using that(2) [of k] by (auto simp: map_option_case dues_ok_def split: option.splits)
    then show ?thesis
      unfolding records_ok_def reap_after_core [OF that(1)] fmlookup_dom_iff
      using ge_group_core [OF that(1)] by (metis not_None_eq)
  qed
  have re: "records_ok (reindex n t) = records_ok t" for n t
    by (rule same) (auto simp: reindex_def Let_def case_prod_beta split: option.splits)
  moreover have "records_ok (restamp n k t) = records_ok t" for n k t
    by (rule same) (auto simp: restamp_def Let_def split: option.splits)
  moreover have "records_ok (t\<lparr>ge_change_clock := k\<rparr>) = records_ok t" for t k
    by (rule same) simp_all
  ultimately have st: "records_ok (stamp n t) = records_ok t" for n t
    by (simp add: stamp_def Let_def)
  show "records_ok (stamp n s) = records_ok s" "records_ok (stamp_self s) = records_ok s"
    "records_ok (reindex n s) = records_ok s"
    by (simp_all add: st re stamp_self_def)
qed

definition derived_ok :: "group_engine \<Rightarrow> bool" where
  "derived_ok s \<longleftrightarrow> index_ok s \<and> records_ok s \<and> ge_coordinator s = compute_coordinator s"

definition keeps_derived :: "group_engine \<Rightarrow> effect list \<Rightarrow> group_engine \<Rightarrow> bool" where
  "keeps_derived s e t \<longleftrightarrow> (derived_ok s \<longrightarrow> derived_ok t)"

interpretation dv: step_frame keeps_derived
  by unfold_locales (auto simp: keeps_derived_def)

lemma keeps_derived_iff: "keeps keeps_derived f \<longleftrightarrow> (\<forall>s. derived_ok s \<longrightarrow> derived_ok (snd (f s)))"
  by (auto simp: keeps_def keeps_derived_def)

lemma derived_ok_tables:
  assumes "tables t = tables s" "ge_coordinator t = ge_coordinator s" "derived_ok s"
  shows "derived_ok t"
  using assms index_ok_tables [OF assms(1)]
  by (simp add: derived_ok_def compute_coordinator_def tables_def records_ok_def reap_after_def)

text \<open>A step that keeps the live set and the index exact need not recompute the coordinator.\<close>

lemma derived_ok_live:
  assumes "derived_ok s" "index_ok t" "live_of t = live_of s" "ge_group t = ge_group s"
    and "ge_coordinator t = ge_coordinator s" "records_ok t"
  shows "derived_ok t"
  using assms by (simp add: derived_ok_def compute_coordinator_owner)

lemma derived_ok_recompute: "index_ok s \<Longrightarrow> records_ok s \<Longrightarrow> derived_ok (snd (recompute_coordinator s))"
  using index_ok_tables [of "s\<lparr>ge_coordinator := compute_coordinator s\<rparr>" s]
  by (simp add: recompute_coordinator_def Let_def derived_ok_def compute_coordinator_def records_ok_def reap_after_def)

lemma ge_coordinator_stamp [simp]:
  "ge_coordinator (reindex n s) = ge_coordinator s" "ge_coordinator (stamp n s) = ge_coordinator s"
  "ge_coordinator (stamp_self s) = ge_coordinator s" "ge_coordinator (forget n s) = ge_coordinator s"
proof -
  have ls: "ge_coordinator (live_set_changed n b t) = ge_coordinator t" for n b t
    by (simp add: live_set_changed_def Let_def)
  have re: "ge_coordinator (reindex n t) = ge_coordinator t" for n t
    by (auto simp: reindex_def Let_def case_prod_beta file_due_def file_score_def ls
        split: option.splits bool.splits)
  moreover have "ge_coordinator (restamp n k t) = ge_coordinator t" for n k t
    by (simp add: restamp_def Let_def split: option.splits)
  ultimately have st: "ge_coordinator (stamp n t) = ge_coordinator t" for n t
    by (simp add: stamp_def Let_def)
  show "ge_coordinator (reindex n s) = ge_coordinator s" by (rule re)
  show "ge_coordinator (stamp n s) = ge_coordinator s" "ge_coordinator (stamp_self s) = ge_coordinator s"
    by (simp_all add: st stamp_self_def)
  show "ge_coordinator (forget n s) = ge_coordinator s"
    by (simp add: forget_def Let_def ls split: option.split)
qed

text \<open>The status of every member, which filing never changes.\<close>

definition status_of :: "group_engine \<Rightarrow> node_id \<Rightarrow> status option" where
  "status_of s n = map_option m_status (fmlookup (ge_members s) n)"

lemma live_of_status: "status_of t = status_of s \<Longrightarrow> live_of t = live_of s"
proof (rule fset_eqI)
  fix n
  assume "status_of t = status_of s"
  then have "status_of t n = status_of s n" by simp
  then show "n |\<in>| live_of t \<longleftrightarrow> n |\<in>| live_of s"
    by (auto simp: in_live_of status_of_def map_option_case split: option.splits)
qed

lemma status_of_reindex [simp]: "status_of (reindex n s) = status_of s"
proof
  fix k
  show "status_of (reindex n s) k = status_of s k"
    by (auto simp: reindex_def Let_def case_prod_beta status_of_def split: option.splits)
qed

lemma status_of_stamp [simp]: "status_of (stamp n s) = status_of s" "status_of (stamp_self s) = status_of s"
proof -
  have "status_of (restamp n k t) x = status_of t x" for n k t x
    by (auto simp: restamp_def Let_def status_of_def split: option.splits)
  then have st: "status_of (stamp n t) = status_of t" for n t
    by (simp add: stamp_def Let_def fun_eq_iff) (simp add: status_of_def)
  show "status_of (stamp n s) = status_of s" "status_of (stamp_self s) = status_of s"
    by (simp_all add: st stamp_self_def)
qed

lemma status_of_upd:
  "status_of (s\<lparr>ge_members := fmupd n m (ge_members s)\<rparr>) = (status_of s)(n := Some (m_status m))"
  by (auto simp: status_of_def fun_eq_iff)



section \<open>Operations on one member\<close>

lemma index_ok_stamp_upd:
  assumes "index_ok s" "filed_of s n = (m_filed m, m_changed_at m)"
  shows "index_ok (stamp n (s\<lparr>ge_members := fmupd n m (ge_members s)\<rparr>))"
  by (rule index_ok_stamp [OF almost_ok_upd [OF assms]])

lemma filed_of_Some: "fmlookup (ge_members s) n = Some m \<Longrightarrow> filed_of s n = (m_filed m, m_changed_at m)"
  by (simp add: filed_of_def)

lemma filed_of_None: "fmlookup (ge_members s) n = None \<Longrightarrow> filed_of s n = (filed_none, 0)"
  by (simp add: filed_of_def)

lemma derived_ok_stamp_upd:
  assumes "derived_ok s" "fmlookup (ge_members s) n = Some m"
    and "m_filed m' = m_filed m" "m_changed_at m' = m_changed_at m" "m_status m' = m_status m"
    and "dues_ok (reap_after s) m'"
  shows "derived_ok (stamp n (s\<lparr>ge_members := fmupd n m' (ge_members s)\<rparr>))"
proof (rule derived_ok_live [OF assms(1)])
  show "index_ok (stamp n (s\<lparr>ge_members := fmupd n m' (ge_members s)\<rparr>))"
    using assms by (intro index_ok_stamp_upd) (auto simp: derived_ok_def filed_of_Some)
  show "live_of (stamp n (s\<lparr>ge_members := fmupd n m' (ge_members s)\<rparr>)) = live_of s"
    using assms(2,5) by (intro live_of_status) (auto simp: status_of_upd status_of_def fun_eq_iff)
  show "ge_group (stamp n (s\<lparr>ge_members := fmupd n m' (ge_members s)\<rparr>)) = ge_group s"
    using core_fields [OF core_stamp(1)] by simp
qed (use assms in \<open>simp_all add: derived_ok_def records_ok_upd\<close>)

lemma derived_ok_reindex_upd:
  assumes "derived_ok s" "fmlookup (ge_members s) n = Some m"
    and "m_filed m' = m_filed m" "m_changed_at m' = m_changed_at m" "m_status m' = m_status m"
    and "m_liveness_since m' = m_liveness_since m" "dues_ok (reap_after s) m'"
  shows "derived_ok (reindex n (s\<lparr>ge_members := fmupd n m' (ge_members s)\<rparr>))"
proof (rule derived_ok_live [OF assms(1)])
  have ix: "index_ok s" using assms(1) by (simp add: derived_ok_def)
  show "index_ok (reindex n (s\<lparr>ge_members := fmupd n m' (ge_members s)\<rparr>))"
  proof (rule index_ok_reindex)
    show "almost_ok n (s\<lparr>ge_members := fmupd n m' (ge_members s)\<rparr>)"
      using ix assms(2-4) by (intro almost_ok_upd) (auto simp: filed_of_Some)
    fix x
    assume "fmlookup (ge_members (s\<lparr>ge_members := fmupd n m' (ge_members s)\<rparr>)) n = Some x"
    then show "stamped_now x"
      using ix assms(2-6) by (auto simp: index_ok_def stamped_now_def)
  qed
  show "live_of (reindex n (s\<lparr>ge_members := fmupd n m' (ge_members s)\<rparr>)) = live_of s"
    using assms(2,5) by (intro live_of_status) (auto simp: status_of_upd status_of_def fun_eq_iff)
  show "ge_group (reindex n (s\<lparr>ge_members := fmupd n m' (ge_members s)\<rparr>)) = ge_group s"
    using core_fields [OF core_reindex] by simp
qed (use assms in \<open>simp_all add: derived_ok_def records_ok_upd\<close>)

lemma derived_ok_same:
  assumes "derived_ok s" "fmlookup (ge_members s) n = Some m"
    and "m_filed m' = m_filed m" "m_changed_at m' = m_changed_at m" "m_status m' = m_status m"
    and "m_suspect_due m' = m_suspect_due m" "m_accuse_at m' = m_accuse_at m"
    and "m_dead_since m' = m_dead_since m" "m_entry_dues m' = m_entry_dues m"
    and "m_liveness_since m' = m_liveness_since m" "m_entries m' = m_entries m"
  shows "derived_ok (s\<lparr>ge_members := fmupd n m' (ge_members s)\<rparr>)"
proof (rule derived_ok_live [OF assms(1)])
  show "index_ok (s\<lparr>ge_members := fmupd n m' (ge_members s)\<rparr>)"
    using assms by (intro index_ok_same [OF _ assms(2-10)]) (simp add: derived_ok_def)
  show "live_of (s\<lparr>ge_members := fmupd n m' (ge_members s)\<rparr>) = live_of s"
    using assms(2,5) by (intro live_of_status) (auto simp: status_of_upd status_of_def fun_eq_iff)
qed (use assms records_okD [OF _ assms(2)] dues_ok_cong [OF assms(11,9)]
     in \<open>simp_all add: derived_ok_def records_ok_upd\<close>)

lemma derived_ok_refresh: "derived_ok s \<Longrightarrow> derived_ok (refresh_content_hash now n s)"
  by (auto simp: refresh_content_hash_def intro!: derived_ok_same split: option.splits)

lemma derived_ok_fold: "(\<And>x s. derived_ok s \<Longrightarrow> derived_ok (f x s)) \<Longrightarrow> derived_ok s \<Longrightarrow> derived_ok (fold f xs s)"
  by (induction xs arbitrary: s) auto

lemma filed_put_entry [simp]:
  "m_changed_at (put_entry_due k e r m) = m_changed_at m"
  "m_liveness_since (put_entry_due k e r m) = m_liveness_since m"
  by (simp_all add: put_entry_due_def entries_changed_def Let_def)

lemma filed_adopt_delta [simp]:
  "m_filed (adopt_delta r now e m) = m_filed m" "m_changed_at (adopt_delta r now e m) = m_changed_at m"
  "m_status (adopt_delta r now e m) = m_status m" "m_liveness_since (adopt_delta r now e m) = m_liveness_since m"
  by (simp_all add: adopt_delta_def)

lemma filed_observe [simp]:
  "m_filed (observe_version v m) = m_filed m" "m_changed_at (observe_version v m) = m_changed_at m"
  "m_status (observe_version v m) = m_status m" "m_liveness_since (observe_version v m) = m_liveness_since m"
  by (simp_all add: observe_version_def)

lemma filed_arm [simp]:
  "m_filed (arm_verdict s st now m) = m_filed m" "m_changed_at (arm_verdict s st now m) = m_changed_at m"
  "m_status (arm_verdict s st now m) = m_status m"
  by (simp_all add: arm_verdict_def hear_suspicion_def Let_def split: status.split)

lemma filed_suspect_here [simp]:
  "m_filed (suspect_here now w e m) = m_filed m" "m_changed_at (suspect_here now w e m) = m_changed_at m"
  "m_status (suspect_here now w e m) = m_status m" "m_liveness_since (suspect_here now w e m) = m_liveness_since m"
  by (simp_all add: suspect_here_def)

lemma filed_member_new [simp]: "m_filed (member_new i st now) = filed_none" "m_changed_at (member_new i st now) = 0"
  "m_status (member_new i st now) = st"
  by (simp_all add: member_new_def)

end
