(* ===== verification/Derived_State.thy ===== *)
theory Derived_State
  imports Index_Inv
begin

text \<open>
  Every entry point keeps the derived state exact: the index, its caches, and the coordinator,
  which is the placement owner of the group over the members believed live, after every call,
  whatever arrived.
\<close>


section \<open>Merging\<close>

text \<open>While a merge runs: the index stays exact, and the coordinator too unless a change was noted.\<close>

definition merging_ok :: "bool \<Rightarrow> group_engine \<Rightarrow> bool" where
  "merging_ok changed s \<longleftrightarrow> index_ok s \<and> records_ok s \<and> (\<not> changed \<longrightarrow> derived_ok s)"

lemma merging_ok_changed: "index_ok s \<Longrightarrow> records_ok s \<Longrightarrow> merging_ok True s"
  by (simp add: merging_ok_def)

lemma merging_ok_derived: "derived_ok s \<Longrightarrow> merging_ok c s"
  by (simp add: merging_ok_def derived_ok_def)

lemma tables_incarnation_members:
  "index_ok s \<Longrightarrow> index_ok (s\<lparr>ge_incarnation := i\<rparr>)" 
  by (simp add: index_ok_tables [of "s\<lparr>ge_incarnation := i\<rparr>" s])

lemma index_ok_apply_refutation:
  assumes "index_ok s"
  shows "index_ok (snd (apply_refutation r s))"
proof (cases r)
  case (Some ni)
  define t where "t = s\<lparr>ge_incarnation := ni\<rparr>"
  have t: "index_ok t" unfolding t_def by (rule tables_incarnation_members [OF assms])
  show ?thesis
  proof (cases "fmlookup (ge_members t) (ge_local t)")
    case None
    have "apply_refutation r s = (True, stamp (ge_local t) t)"
      using Some None by (simp add: apply_refutation_def Let_def t_def stamp_self_def)
    with t show ?thesis by (simp add: index_ok_stamp index_ok_almost)
  next
    case (Some m)
    define m' where "m' = adopt_status Alive (ge_now_hint t) (m\<lparr>m_incarnation := ni\<rparr>)"
    have "apply_refutation r s = (True, stamp (ge_local t) (t\<lparr>ge_members := fmupd (ge_local t) m' (ge_members t)\<rparr>))"
      using \<open>r = Some ni\<close> Some by (simp add: apply_refutation_def Let_def t_def stamp_self_def m'_def)
    moreover have "index_ok (stamp (ge_local t) (t\<lparr>ge_members := fmupd (ge_local t) m' (ge_members t)\<rparr>))"
      using t Some by (intro index_ok_stamp_upd) (auto simp: filed_of_Some m'_def)
    ultimately show ?thesis by simp
  qed
qed (use assms in \<open>simp add: apply_refutation_def\<close>)

lemma merging_ok_refute:
  assumes "merging_ok c s"
  shows "merging_ok (c \<or> fst (apply_refutation r s)) (snd (apply_refutation r s))"
proof (cases r)
  case None
  with assms show ?thesis by (simp add: apply_refutation_def)
next
  case (Some ni)
  have "fst (apply_refutation r s)" using Some by (simp add: apply_refutation_def Let_def)
  moreover have "records_ok (snd (apply_refutation r s))"
  proof -
    have t: "records_ok (s\<lparr>ge_incarnation := ni\<rparr>)"
      using assms by (simp add: merging_ok_def records_ok_def reap_after_def)
    show ?thesis
      using Some t records_okD [OF t]
      by (auto simp: apply_refutation_def Let_def intro!: records_ok_upd [of "s\<lparr>ge_incarnation := ni\<rparr>", simplified]
          split: option.splits)
  qed
  ultimately show ?thesis
    using assms index_ok_apply_refutation [of s r] by (simp add: merging_ok_def)
qed

lemma derived_ok_membership_effects:
  assumes "merging_ok c s"
  shows "derived_ok (snd (membership_effects c s))"
proof (cases c)
  case True
  have "index_ok s" "records_ok s" using assms by (simp_all add: merging_ok_def)
  from derived_ok_recompute [OF this] True show ?thesis
    by (auto simp: membership_effects_def then_do_def emit_def silently_def case_prod_beta nudge_anti_entropy_def
        Let_def intro: derived_ok_tables [rotated 2])
qed (use assms in \<open>simp add: membership_effects_def skip_def merging_ok_def\<close>)

lemma merging_ok_remote_liveness:
  assumes "merging_ok c s"
  shows "merging_ok (c \<or> fst (merge_remote_liveness n i st now s)) (snd (merge_remote_liveness n i st now s))"
proof -
  have ix: "index_ok s" "records_ok s" using assms by (simp_all add: merging_ok_def)
  show ?thesis
  proof (cases "fmlookup (ge_members s) n")
    case None
    with ix show ?thesis
      by (auto simp: merge_remote_liveness_def Let_def filed_of_None records_ok_upd
          intro!: merging_ok_changed index_ok_stamp_upd)
  next
    case (Some m)
    with ix assms records_okD [OF ix(2) Some] show ?thesis
      by (auto simp: merge_remote_liveness_def Let_def filed_of_Some records_ok_upd
          intro!: merging_ok_changed index_ok_stamp_upd)
  qed
qed

lemma merging_ok_digest_line:
  assumes "merging_ok (fst acc) (snd (snd acc))"
  shows "merging_ok (fst (merge_digest_line now d acc)) (snd (snd (merge_digest_line now d acc)))"
proof -
  obtain c r s where acc: "acc = (c, r, s)" by (cases acc) auto
  show ?thesis
    using assms merging_ok_remote_liveness [of c s "nd_node d" "nd_incarnation d" _ now]
    by (auto simp: acc merge_digest_line_def Let_def case_prod_beta split: option.splits)
qed

lemma merging_ok_digest_lines:
  "merging_ok (fst acc) (snd (snd acc)) \<Longrightarrow>
     merging_ok (fst (fold (merge_digest_line now) ds acc)) (snd (snd (fold (merge_digest_line now) ds acc)))"
  by (induction ds arbitrary: acc) (auto simp: merging_ok_digest_line)

lemma keeps_derived_merge_digest: "keeps keeps_derived (merge_digest_liveness ds now)"
  unfolding keeps_derived_iff
proof (intro allI impI)
  fix s
  assume "derived_ok s"
  then have m: "merging_ok (fst (fold (merge_digest_line now) ds (False, None, s)))
      (snd (snd (fold (merge_digest_line now) ds (False, None, s))))"
    by (intro merging_ok_digest_lines) (simp add: merging_ok_derived)
  from derived_ok_membership_effects [OF merging_ok_refute [OF m]]
  show "derived_ok (snd (merge_digest_liveness ds now s))"
    by (simp add: merge_digest_liveness_def case_prod_beta)
qed


lemma merging_ok_stamp_upd:
  assumes "merging_ok c s" "fmlookup (ge_members s) n = Some m"
    and "m_filed m' = m_filed m" "m_changed_at m' = m_changed_at m" "m_status m' = m_status m"
    and "dues_ok (reap_after s) m'"
  shows "merging_ok c (stamp n (s\<lparr>ge_members := fmupd n m' (ge_members s)\<rparr>))"
proof -
  have "index_ok (stamp n (s\<lparr>ge_members := fmupd n m' (ge_members s)\<rparr>))"
    using assms by (intro index_ok_stamp_upd) (auto simp: merging_ok_def filed_of_Some)
  moreover have "derived_ok (stamp n (s\<lparr>ge_members := fmupd n m' (ge_members s)\<rparr>))" if "\<not> c"
    using that assms by (intro derived_ok_stamp_upd [OF _ assms(2-6)]) (simp add: merging_ok_def)
  ultimately show ?thesis
    using assms(1,6) by (simp add: merging_ok_def records_ok_upd)
qed

lemma filed_entries_changed [simp]: "entries_changed m = m\<lparr>m_hash_cache := None\<rparr>"
  by (simp add: entries_changed_def)

lemma dues_ok_adopt_delta: "dues_ok r m \<Longrightarrow> dues_ok r (adopt_delta r now e m)"
  by (simp add: adopt_delta_def dues_ok_put_entry)

lemma dues_ok_reversion:
  assumes "fmlookup (m_entries m) k = Some e" "dues_ok r m"
  shows "dues_ok r (m\<lparr>m_entries := fmupd k (e\<lparr>se_version := v\<rparr>) (m_entries m)\<rparr>)"
proof -
  have "(\<exists>x. fmlookup (fmupd k (e\<lparr>se_version := v\<rparr>) (m_entries m)) key = Some x \<and> reap_due x r = at)
      = (\<exists>x. fmlookup (m_entries m) key = Some x \<and> reap_due x r = at)" for key at
    using assms(1) by (auto simp: reap_due_def)
  with assms(2) show ?thesis by (simp add: dues_ok_def)
qed

lemma merging_ok_own_entry:
  assumes "merging_ok c (snd acc)"
  shows "merging_ok c (snd (merge_own_entry now e acc))"
proof -
  obtain sc s where acc: "acc = (sc, s)" by fastforce
  from assms obtain m where m: "fmlookup (ge_members s) (ge_local s) = Some m"
    using records_ok_self by (auto simp: acc merging_ok_def)
  have dm: "dues_ok (reap_after s) m"
    using assms records_okD [OF _ m] by (simp add: acc merging_ok_def)
  have up: "merging_ok c (stamp_self (s\<lparr>ge_members := fmupd (ge_local s) m' (ge_members s)\<rparr>))"
    if "m_filed m' = m_filed m" "m_changed_at m' = m_changed_at m" "m_status m' = m_status m"
      "dues_ok (reap_after s) m'" for m'
    using merging_ok_stamp_upd [OF _ m that] assms by (simp add: acc stamp_self_def)
  show ?thesis
    using assms unfolding acc merge_own_entry_def Let_def prod.case
    by (auto simp: m dm dues_ok_adopt_delta dues_ok_reversion split: option.splits intro!: up)
qed

lemma merging_ok_own_echo: "merging_ok c (snd acc) \<Longrightarrow> merging_ok c (snd (merge_own_echo es now acc))"
  unfolding merge_own_echo_def by (induction es arbitrary: acc) (auto simp: merging_ok_own_entry)

lemma merge_entry_filed:
  "m_filed (snd (merge_entry r now d acc)) = m_filed (snd acc)
   \<and> m_changed_at (snd (merge_entry r now d acc)) = m_changed_at (snd acc)
   \<and> m_status (snd (merge_entry r now d acc)) = m_status (snd acc)"
  by (auto simp: merge_entry_def case_prod_beta Let_def)

lemma merge_entry_dues: "dues_ok r (snd acc) \<Longrightarrow> dues_ok r (snd (merge_entry r now d acc))"
  by (auto simp: merge_entry_def case_prod_beta Let_def dues_ok_adopt_delta)

lemma merge_entries_dues: "dues_ok r (snd acc) \<Longrightarrow> dues_ok r (snd (fold (merge_entry r now) ds acc))"
  by (induction ds arbitrary: acc) (simp_all add: merge_entry_dues)

lemma merge_entries_filed:
  "m_filed (snd (fold (merge_entry r now) ds acc)) = m_filed (snd acc)
   \<and> m_changed_at (snd (fold (merge_entry r now) ds acc)) = m_changed_at (snd acc)
   \<and> m_status (snd (fold (merge_entry r now) ds acc)) = m_status (snd acc)"
  by (induction ds arbitrary: acc) (simp_all add: merge_entry_filed)

text \<open>Nothing adopted, nothing changed but the high-water mark.\<close>

lemma merge_entry_idle:
  "fst (merge_entry r now d acc) = fst acc \<Longrightarrow>
     \<exists>v. snd (merge_entry r now d acc) = (snd acc)\<lparr>m_max_state_version := v\<rparr>"
proof (cases "case fmlookup (m_entries (snd acc)) (ed_key d) of None \<Rightarrow> True | Some e \<Rightarrow> entry_wins d e")
  case True
  then have "fst (merge_entry r now d acc) = fst acc @ [ed_key d]"
    by (simp add: merge_entry_def case_prod_beta Let_def observe_version_def)
  moreover assume "fst (merge_entry r now d acc) = fst acc"
  ultimately show ?thesis by simp
next
  case False
  then have "snd (merge_entry r now d acc) = observe_version (ed_version d) (snd acc)"
    by (simp add: merge_entry_def case_prod_beta Let_def observe_version_def)
  then show ?thesis by (simp add: observe_version_def) blast
qed

lemma merge_entry_length: "length (fst acc) \<le> length (fst (merge_entry r now d acc))"
  by (auto simp: merge_entry_def case_prod_beta Let_def)

lemma merge_entries_length: "length (fst acc) \<le> length (fst (fold (merge_entry r now) ds acc))"
proof (induction ds arbitrary: acc)
  case (Cons d ds)
  have "length (fst acc) \<le> length (fst (merge_entry r now d acc))" by (rule merge_entry_length)
  also have "\<dots> \<le> length (fst (fold (merge_entry r now) ds (merge_entry r now d acc)))" by (rule Cons)
  finally show ?case by simp
qed simp

lemma merge_entries_idle:
  "fst (fold (merge_entry r now) ds ([], m)) = [] \<Longrightarrow>
     \<exists>v. snd (fold (merge_entry r now) ds ([], m)) = m\<lparr>m_max_state_version := v\<rparr>"
proof (induction ds arbitrary: m)
  case Nil
  show ?case by (intro exI [of _ "m_max_state_version m"]) simp
next
  case (Cons d ds)
  define a where "a = merge_entry r now d ([], m)"
  from Cons.prems merge_entries_length [of a r now ds] have "fst a = []" by (simp add: a_def)
  then obtain v where "snd a = m\<lparr>m_max_state_version := v\<rparr>"
    using merge_entry_idle [of r now d "([], m)"] by (auto simp: a_def)
  with \<open>fst a = []\<close> have a: "merge_entry r now d ([], m) = ([], m\<lparr>m_max_state_version := v\<rparr>)"
    by (simp add: a_def prod_eq_iff)
  with Cons.IH [of "m\<lparr>m_max_state_version := v\<rparr>"] Cons.prems show ?case by simp
qed


lemma merging_ok_same:
  assumes "merging_ok c s" "fmlookup (ge_members s) n = Some m"
  shows "merging_ok c (s\<lparr>ge_members := fmupd n (m\<lparr>m_max_state_version := v\<rparr>) (ge_members s)\<rparr>)"
  using assms index_ok_same [OF _ assms(2), of "m\<lparr>m_max_state_version := v\<rparr>"]
    derived_ok_same [OF _ assms(2), of "m\<lparr>m_max_state_version := v\<rparr>"]
    records_okD [OF _ assms(2)]
  by (auto simp: merging_ok_def records_ok_upd)

lemma adopt_unknown_dues: "dues_ok r m \<Longrightarrow> dues_ok r (fold (adopt_unknown_entry r now) ds m)"
  by (induction ds arbitrary: m) (simp_all add: adopt_unknown_entry_def dues_ok_adopt_delta)

lemma adopt_unknown_filed:
  "m_filed (fold (adopt_unknown_entry r now) ds m) = m_filed m
   \<and> m_changed_at (fold (adopt_unknown_entry r now) ds m) = m_changed_at m"
  by (induction ds arbitrary: m) (simp_all add: adopt_unknown_entry_def)

lemma merging_ok_peer_delta:
  assumes "merging_ok c s"
  shows "merging_ok (c \<or> fst (merge_peer_delta d st now s)) (snd (snd (merge_peer_delta d st now s)))"
proof (cases "fmlookup (ge_members s) (md_node d)")
  case None
  with assms show ?thesis
    by (auto simp: merge_peer_delta_def Let_def merging_ok_def records_ok_upd filed_of_None adopt_unknown_filed
        adopt_unknown_dues
        intro!: index_ok_stamp_upd)
next
  case (Some cur)
  define wins where "wins = superseded_by cur (md_incarnation d) st"
  define m where "m = (if wins
      then arm_verdict s st now (adopt_status st now (cur\<lparr>m_incarnation := md_incarnation d\<rparr>)) else cur)"
  obtain ks m' where f: "fold (merge_entry (reap_after s) now) (md_entries d) ([], m) = (ks, m')" by fastforce
  define m'' where "m'' = observe_version (md_max_version d) m'"
  have filed: "m_filed m'' = m_filed cur" "m_changed_at m'' = m_changed_at cur" "m_status m'' = m_status m"
    using merge_entries_filed [of "reap_after s" now "md_entries d" "([], m)"] f
    by (simp_all add: m''_def m_def)
  have "dues_ok (reap_after s) m"
    using assms records_okD [OF _ Some] by (simp add: merging_ok_def m_def)
  then have dues: "dues_ok (reap_after s) m''"
    using merge_entries_dues [of "reap_after s" "([], m)" now "md_entries d"] f by (simp add: m''_def)
  define moved where "moved \<longleftrightarrow> wins \<or> ks \<noteq> [] \<or> m_max_state_version m'' > m_max_state_version cur"
  define s1 where "s1 = s\<lparr>ge_members := fmupd (md_node d) m'' (ge_members s)\<rparr>"
  have res: "fst (merge_peer_delta d st now s) = wins"
    "snd (snd (merge_peer_delta d st now s)) = (if moved then stamp (md_node d) s1 else s1)"
    using Some by (simp_all add: merge_peer_delta_def Let_def wins_def [symmetric] m_def [symmetric] f
        m''_def [symmetric] moved_def s1_def)
  show ?thesis
  proof (cases wins)
    case True
    have "index_ok (stamp (md_node d) s1)"
      unfolding s1_def using assms Some filed
      by (intro index_ok_stamp_upd) (auto simp: merging_ok_def filed_of_Some)
    with True assms show ?thesis
      unfolding res by (simp add: moved_def merging_ok_def s1_def records_ok_upd dues)
  next
    case False
    then have m: "m = cur" by (simp add: m_def)
    show ?thesis
    proof (cases moved)
      case True
      then show ?thesis
        unfolding res s1_def using False merging_ok_stamp_upd [OF assms Some filed(1,2)] filed(3) m dues by simp
    next
      case False
      then have "ks = []" by (simp add: moved_def)
      with f merge_entries_idle [of "reap_after s" now "md_entries d" m]
      obtain v where "m' = m\<lparr>m_max_state_version := v\<rparr>" by auto
      then have "\<exists>w. m'' = cur\<lparr>m_max_state_version := w\<rparr>"
        unfolding m''_def m by (auto simp: observe_version_def)
      then obtain w where w: "m'' = cur\<lparr>m_max_state_version := w\<rparr>" by blast
      show ?thesis
        unfolding res using False \<open>\<not> wins\<close> merging_ok_same [OF assms Some, of w]
        by (simp add: s1_def w)
    qed
  qed
qed

lemma merging_ok_delta:
  assumes "merging_ok (fst acc) (snd (snd (snd acc)))"
  shows "merging_ok (fst (merge_delta now d acc)) (snd (snd (snd (merge_delta now d acc))))"
proof -
  obtain c sc r s where acc: "acc = (c, sc, r, s)" by (cases acc) auto
  show ?thesis
    using assms merging_ok_peer_delta [of c s d _ now] merging_ok_own_echo [of c "(sc, s)" "md_entries d" now]
    by (auto simp: acc merge_delta_def Let_def case_prod_beta split: option.splits)
qed

lemma merging_ok_deltas:
  "merging_ok (fst acc) (snd (snd (snd acc))) \<Longrightarrow>
     merging_ok (fst (fold (merge_delta now) ds acc)) (snd (snd (snd (fold (merge_delta now) ds acc))))"
  by (induction ds arbitrary: acc) (auto simp: merging_ok_delta)

lemma keeps_derived_merge_members: "keeps keeps_derived (merge_members ds now)"
  unfolding keeps_derived_iff
proof (intro allI impI)
  fix s
  assume "derived_ok s"
  then have m: "merging_ok (fst (fold (merge_delta now) ds (False, [], None, s)))
      (snd (snd (snd (fold (merge_delta now) ds (False, [], None, s)))))"
    by (intro merging_ok_deltas) (simp add: merging_ok_derived)
  from derived_ok_membership_effects [OF merging_ok_refute [OF m]]
  show "derived_ok (snd (merge_members ds now s))"
    by (simp add: merge_members_def case_prod_beta then_do_def emit_def)
qed



section \<open>Gossip\<close>

definition untouched :: "group_engine \<Rightarrow> group_engine \<Rightarrow> bool" where
  "untouched s t \<longleftrightarrow> tables t = tables s \<and> ge_coordinator t = ge_coordinator s"

lemma untouched_derived: "untouched s t \<Longrightarrow> derived_ok s \<Longrightarrow> derived_ok t"
  by (auto simp: untouched_def intro: derived_ok_tables)

lemma derived_at: "keeps keeps_derived f \<Longrightarrow> derived_ok s \<Longrightarrow> derived_ok (snd (f s))"
  by (simp add: keeps_derived_iff)

lemma untouched_refl [simp]: "untouched s s"
  by (simp add: untouched_def)

lemma untouched_trans: "untouched s t \<Longrightarrow> untouched t u \<Longrightarrow> untouched s u"
  by (simp add: untouched_def)

interpretation ut: step_frame "\<lambda>s e t. untouched s t"
  by unfold_locales (auto intro: untouched_trans)

lemma keeps_untouched_derived: "keeps (\<lambda>s e t. untouched s t) f \<Longrightarrow> keeps keeps_derived f"
  by (auto simp: keeps_def keeps_derived_def intro: untouched_derived)

lemma untouched_simps [simp]:
  "untouched s (nudge_anti_entropy s)" "untouched s (nudge_anti_entropy_now s)" "untouched s (hear_time now s)"
  "untouched s (count_digest_frame k s)" "untouched s (count_digest b k s)" "untouched s (count_delta_frames k l s)"
  "untouched s (clear_pending_if n s)" "untouched s (upd_el f s)" "untouched s (upd_q g s)"
  by (simp_all add: untouched_def nudge_anti_entropy_def nudge_anti_entropy_now_def hear_time_def Let_def
      count_digest_frame_def count_digest_def count_delta_frames_def clear_pending_if_def upd_el_def upd_q_def
      split: option.split)

lemma keeps_derived_silently: "(\<And>s. untouched s (f s)) \<Longrightarrow> keeps keeps_derived (silently f)"
  by (auto simp: keeps_derived_iff silently_def intro: untouched_derived)

lemma keeps_derived_emit: "keeps keeps_derived (emit es)"
  by (simp add: keeps_derived_iff emit_def)

lemma keeps_derived_recompute: "keeps keeps_derived recompute_coordinator"
  unfolding keeps_derived_iff by (metis derived_ok_def derived_ok_recompute)

lemmas derived_rules =
  dv.keeps_skip dv.keeps_then_do dv.keeps_for_each dv.keeps_if keeps_derived_silently keeps_derived_emit

lemma sorted_probe_candidates:
  "sorted_wrt (<) (probe_candidates s)"
  "n \<in> set (probe_candidates s) \<longleftrightarrow> n \<noteq> ge_local s \<and> n |\<in>| live_of s"
proof -
  have "sorted_wrt (<) (map fst (fentries (ge_members s)))"
    by (simp add: map_fst_fentries strict_sorted_iff sorted_keys_list distinct_keys_list)
  then have "sorted_wrt (\<lambda>x y. fst x < fst y) (fentries (ge_members s))"
    unfolding sorted_wrt_map .
  then show "sorted_wrt (<) (probe_candidates s)"
    unfolding probe_candidates_def sorted_wrt_map by (rule sorted_wrt_filter)
  show "n \<in> set (probe_candidates s) \<longleftrightarrow> n \<noteq> ge_local s \<and> n |\<in>| live_of s"
    by (force simp: probe_candidates_def in_fentries_iff in_live_of)
qed

lemma union_merge_sorted:
  assumes "sorted_wrt (<) xs" "sorted_wrt (<) ys"
  shows "sorted_wrt (<) (union_merge xs ys) \<and> set (union_merge xs ys) = set xs \<union> set ys"
  using assms
proof (induction xs ys rule: union_merge.induct)
  case (1 x xs y ys)
  consider "x < y" | "x = y" | "y < x" by fastforce
  then show ?case
  proof cases
    case 1
    with "1.IH"(1) "1.prems" have "sorted_wrt (<) (union_merge xs (y # ys))"
      "set (union_merge xs (y # ys)) = set xs \<union> set (y # ys)" by simp_all
    with 1 "1.prems" show ?thesis by auto
  next
    case 2
    with "1.IH"(3) "1.prems" have "sorted_wrt (<) (union_merge xs ys)"
      "set (union_merge xs ys) = set xs \<union> set ys" by simp_all
    with 2 "1.prems" show ?thesis by auto
  next
    case 3
    then have n: "\<not> x < y" by simp
    with 3 "1.IH"(2) "1.prems" have "sorted_wrt (<) (union_merge (x # xs) ys)"
      "set (union_merge (x # xs) ys) = set (x # xs) \<union> set ys" by simp_all
    with 3 n "1.prems" show ?thesis by auto
  qed
qed auto


lemma derived_ok_caches:
  assumes "derived_ok s"
    and "cache_ok r (\<lambda>n. n \<noteq> ge_local s \<and> n |\<in>| live_of s)"
    and "cache_ok ts (\<lambda>n. n \<noteq> ge_local s \<and> n |\<in>| live_of s \<or> n |\<in>| ge_seeds s \<or> n |\<in>| cs)"
  shows "derived_ok (s\<lparr>ge_ring := r, ge_targets := ts, ge_bootstrap_contacts := cs\<rparr>)"
proof -
  let ?t = "s\<lparr>ge_ring := r, ge_targets := ts, ge_bootstrap_contacts := cs\<rparr>"
  have ix: "index_ok s" using assms(1) by (simp add: derived_ok_def)
  have filed: "filed_of ?t = filed_of s" by (rule filed_of_other) simp
  have score: "fd_score (fst (filed_of s n)) \<noteq> None \<longleftrightarrow> n |\<in>| live_of s" for n
    by (simp add: live_of_filed [OF ix])
  have "filed_now ?t k m = filed_now s k m" for k m
    by (cases "m_status m") (simp_all add: filed_now_def liveness_due_def reap_after_def)
  moreover have "filing_ok ?t"
    using ix assms(2,3) unfolding index_ok_def filing_ok_def filed score by simp
  ultimately have "index_ok ?t" using ix by (simp add: index_ok_def)
  then show ?thesis
    using assms(1) by (simp add: derived_ok_def compute_coordinator_def records_ok_def reap_after_def)
qed

lemma cached_caches:
  assumes "derived_ok s"
  shows "cache_ok (ge_ring s) (\<lambda>n. n \<noteq> ge_local s \<and> n |\<in>| live_of s)"
    and "cache_ok (ge_targets s) (\<lambda>n. n \<noteq> ge_local s \<and> n |\<in>| live_of s \<or> n |\<in>| ge_seeds s
      \<or> n |\<in>| ge_bootstrap_contacts s)"
proof -
  have ix: "index_ok s" using assms(1) by (simp add: derived_ok_def)
  have score: "fd_score (fst (filed_of s n)) \<noteq> None \<longleftrightarrow> n |\<in>| live_of s" for n
    by (simp add: live_of_filed [OF ix])
  show "cache_ok (ge_ring s) (\<lambda>n. n \<noteq> ge_local s \<and> n |\<in>| live_of s)"
    and "cache_ok (ge_targets s) (\<lambda>n. n \<noteq> ge_local s \<and> n |\<in>| live_of s \<or> n |\<in>| ge_seeds s
      \<or> n |\<in>| ge_bootstrap_contacts s)"
    using ix unfolding index_ok_def filing_ok_def score by blast+
qed

lemma cache_ok_probe_candidates: "cache_ok (Some (probe_candidates s)) (\<lambda>n. n \<noteq> ge_local s \<and> n |\<in>| live_of s)"
  by (simp add: cache_ok_def sorted_probe_candidates)

lemma dissemination_targets_sorted:
  "sorted_wrt (<) (dissemination_targets s)"
  "set (dissemination_targets s) =
     {n. n \<noteq> ge_local s \<and> n |\<in>| live_of s} \<union> fset (ge_seeds s) \<union> fset (ge_bootstrap_contacts s)"
proof -
  define us where "us = union_merge (probe_candidates s) (fset_list (ge_seeds s))"
  have u: "sorted_wrt (<) us \<and> set us = set (probe_candidates s) \<union> set (fset_list (ge_seeds s))"
    unfolding us_def by (intro union_merge_sorted sorted_probe_candidates strict_sorted_fset_list)
  have "sorted_wrt (<) (union_merge us (fset_list (ge_bootstrap_contacts s)))
      \<and> set (union_merge us (fset_list (ge_bootstrap_contacts s))) = set us \<union> set (fset_list (ge_bootstrap_contacts s))"
    using u by (intro union_merge_sorted strict_sorted_fset_list) simp
  moreover have "set (probe_candidates s) = {n. n \<noteq> ge_local s \<and> n |\<in>| live_of s}"
    using sorted_probe_candidates(2) by blast
  moreover have "dissemination_targets s = union_merge us (fset_list (ge_bootstrap_contacts s))"
    by (simp add: dissemination_targets_def us_def)
  ultimately show "sorted_wrt (<) (dissemination_targets s)"
    "set (dissemination_targets s) =
       {n. n \<noteq> ge_local s \<and> n |\<in>| live_of s} \<union> fset (ge_seeds s) \<union> fset (ge_bootstrap_contacts s)"
    using u by simp_all
qed

lemma cache_ok_dissemination:
  "cache_ok (Some (dissemination_targets s))
     (\<lambda>n. n \<noteq> ge_local s \<and> n |\<in>| live_of s \<or> n |\<in>| ge_seeds s \<or> n |\<in>| ge_bootstrap_contacts s)"
  by (auto simp: cache_ok_def dissemination_targets_sorted)

lemma derived_ok_probe_ring: "derived_ok s \<Longrightarrow> derived_ok (snd (probe_ring s))"
  using derived_ok_caches [of s "Some (probe_candidates s)" "ge_targets s" "ge_bootstrap_contacts s"]
    cache_ok_probe_candidates [of s] cached_caches(2) [of s]
  by (simp add: probe_ring_def split: option.split)

lemma derived_ok_rotated: "derived_ok s \<Longrightarrow> derived_ok (snd (rotated_targets c k s))"
  using derived_ok_caches [of s "ge_ring s" "Some (dissemination_targets s)" "ge_bootstrap_contacts s"]
    cache_ok_dissemination [of s] cached_caches(1) [of s]
  by (simp add: rotated_targets_def cached_targets_def split: option.split)

lemma derived_ok_fanout: "derived_ok s \<Longrightarrow> derived_ok (snd (select_fanout_targets s))"
  using derived_ok_rotated [of s "ge_gossip_cursor s" "gossip_fanout (ge_config s)"]
  by (auto simp: select_fanout_targets_def case_prod_beta intro: derived_ok_tables [rotated 2])

lemma keeps_derived_liveness_notice: "keeps keeps_derived (liveness_notice to about now)"
  by (auto simp: keeps_derived_iff liveness_notice_def Let_def intro: untouched_derived [rotated]
      split: option.splits)

lemma untouched_fold: "(\<And>x s. untouched s (f x s)) \<Longrightarrow> untouched s (fold f xs s)"
  by (induction xs arbitrary: s) (auto intro: untouched_trans)

lemma keeps_derived_digest_to: "keeps keeps_derived (digest_to now to)"
  unfolding keeps_derived_iff
proof (intro allI impI)
  fix s
  assume "derived_ok s"
  obtain ls full p where df: "digest_for s to now = (ls, full, p)" by (metis prod_cases3)
  define u where "u = fold (refresh_content_hash now) ls (s\<lparr>ge_digest_peers := fmupd to p (ge_digest_peers s)\<rparr>)"
  have "derived_ok (s\<lparr>ge_digest_peers := fmupd to p (ge_digest_peers s)\<rparr>)"
    by (rule derived_ok_tables [of _ s]) (simp_all add: \<open>derived_ok s\<close>)
  then have "derived_ok u"
    unfolding u_def by (rule derived_ok_fold [rotated]) (rule derived_ok_refresh)
  moreover have "untouched u (snd (digest_to now to s))"
    unfolding digest_to_def df prod.case Let_def u_def [symmetric] snd_conv
    by (rule untouched_trans [OF _ untouched_fold]) simp_all
  ultimately show "derived_ok (snd (digest_to now to s))" by (rule untouched_derived [rotated])
qed

lemma keeps_derived_disseminate: "keeps keeps_derived (disseminate_digest now)"
  unfolding keeps_derived_iff
proof (intro allI impI)
  fix s
  assume "derived_ok s"
  then have "derived_ok (s\<lparr>ge_last_round := now\<rparr>)" by (rule derived_ok_tables [rotated 2]) simp_all
  from derived_ok_fanout [OF this]
  show "derived_ok (snd (disseminate_digest now s))"
    using derived_at [OF dv.keeps_for_each [of "digest_to now", OF keeps_derived_digest_to]]
    by (simp add: disseminate_digest_def case_prod_beta Let_def)
qed

lemma keeps_derived_answer_delta: "keeps keeps_derived (answer_delta to ws now)"
  by (auto simp: keeps_derived_iff answer_delta_def intro: untouched_derived [rotated] split: option.split)

lemma keeps_derived_send_request: "keeps keeps_derived (send_delta_request to ws)"
  by (simp add: keeps_derived_iff send_delta_request_def Let_def)

lemma keeps_derived_eager_push: "keeps keeps_derived eager_push"
  by (auto simp: keeps_derived_iff eager_push_def Let_def case_prod_beta
      intro: untouched_derived [rotated] dest: derived_ok_fanout split: option.splits)

lemma keeps_derived_metadata: "keeps keeps_derived (merge_metadata ds)"
proof -
  have "keeps keeps_derived (merge_meta d)" for d
    by (auto simp: keeps_derived_iff merge_meta_def intro: derived_ok_tables [rotated 2])
  then show ?thesis unfolding merge_metadata_def by (rule dv.keeps_for_each)
qed

lemma keeps_derived_on_digest: "keeps keeps_derived (on_digest from f now)"
proof -
  have ex: "keeps keeps_derived (exchange from ds now)" for ds
  proof -
    have "derived_ok s \<Longrightarrow> derived_ok (snd (exchange from ds now s))" for s
      unfolding exchange_def Let_def
      by (rule derived_at)
         (intro derived_rules keeps_derived_send_request keeps_derived_answer_delta)
    then show ?thesis by (simp add: keeps_derived_iff)
  qed
  have doubt: "keeps keeps_derived (answer_doubt from b i now)" for b i
    using keeps_derived_liveness_notice by (simp add: keeps_derived_iff answer_doubt_def)
  have refresh: "keeps keeps_derived (silently (fold (\<lambda>d. refresh_content_hash now (nd_node d)) ds))" for ds
    by (auto simp: keeps_derived_iff silently_def intro: derived_ok_fold derived_ok_refresh)
  have "derived_ok s \<Longrightarrow> derived_ok (snd (on_digest from f now s))" for s
    unfolding on_digest_def
    by (rule derived_at)
       (intro dv.keeps_then_do keeps_derived_merge_digest refresh doubt keeps_derived_metadata ex)
  then show ?thesis by (simp add: keeps_derived_iff)
qed



section \<open>Failure detection\<close>

lemma keeps_derived_probe: "keeps keeps_derived (probe now)"
  by (auto simp: keeps_derived_iff probe_def Let_def case_prod_beta
      dest: derived_ok_probe_ring intro: derived_ok_tables [rotated 2])

text \<open>What follows a change of someone's status.\<close>

lemma derived_ok_announce:
  assumes "index_ok s" "records_ok s" "keeps keeps_derived g"
  shows "derived_ok (snd (then_do (emit es) (then_do recompute_coordinator g) s))"
  using derived_at [OF assms(3) derived_ok_recompute [OF assms(1,2)]]
  by (simp add: then_do_def emit_def case_prod_beta)

lemma keeps_derived_nudge: "keeps keeps_derived (silently nudge_anti_entropy)"
    "keeps keeps_derived (silently nudge_anti_entropy_now)"
  by (simp_all add: keeps_derived_silently)

lemma keeps_derived_suspect: "keeps keeps_derived (suspect target now)"
  unfolding keeps_derived_iff
proof (intro allI impI)
  fix s
  assume ok: "derived_ok s"
  show "derived_ok (snd (suspect target now s))"
  proof (cases "fmlookup (ge_members s) target")
    case (Some m)
    define a where "a = suspect_here now (suspect_timeout_ms (ge_config s)) (probe_timeout_ms (ge_config s))
      (adopt_status Suspect now m)"
    define b where "b = (suspect_here now (suspect_timeout_ms (ge_config s)) (probe_timeout_ms (ge_config s)) m)
      \<lparr>m_suspect_due := min (m_suspect_due m) (time_saturating_add now (suspect_timeout_ms (ge_config s)))\<rparr>"
    have "index_ok (stamp target (s\<lparr>ge_members := fmupd target a (ge_members s)\<rparr>))"
      using ok Some by (intro index_ok_stamp_upd) (auto simp: a_def derived_ok_def filed_of_Some)
    moreover have "records_ok (stamp target (s\<lparr>ge_members := fmupd target a (ge_members s)\<rparr>))"
      using ok records_okD [OF _ Some] by (simp add: derived_ok_def records_ok_upd a_def)
    moreover have "keeps keeps_derived (then_do (liveness_notice target target now) (silently nudge_anti_entropy))"
      by (intro dv.keeps_then_do keeps_derived_liveness_notice keeps_derived_nudge)
    ultimately have alive: "derived_ok (snd (then_do (emit [MembershipChanged]) (then_do recompute_coordinator
        (then_do (liveness_notice target target now) (silently nudge_anti_entropy)))
        (stamp target (s\<lparr>ge_members := fmupd target a (ge_members s)\<rparr>))))"
      by (rule derived_ok_announce)
    have "derived_ok (reindex target (s\<lparr>ge_members := fmupd target b (ge_members s)\<rparr>))"
      using records_okD [OF _ Some] ok by (intro derived_ok_reindex_upd [OF ok Some]) (auto simp: b_def derived_ok_def)
    from derived_at [OF keeps_derived_liveness_notice this] alive ok Some show ?thesis
      by (simp add: suspect_def Let_def a_def b_def)
  qed (use ok in \<open>simp add: suspect_def Let_def\<close>)
qed

lemma keeps_derived_escalate: "keeps keeps_derived (escalate_indirect target now)"
  unfolding keeps_derived_iff
proof (intro allI impI)
  fix s
  assume "derived_ok s"
  then have r: "derived_ok (snd (probe_ring s))" by (rule derived_ok_probe_ring)
  have "derived_ok (snd (suspect target now ((snd (probe_ring s))\<lparr>ge_rng := x, ge_pending := None\<rparr>)))" for x
    by (rule derived_at [OF keeps_derived_suspect]) (rule derived_ok_tables [OF _ _ r], simp_all)
  moreover have "derived_ok ((snd (probe_ring s))\<lparr>ge_rng := x, ge_pending := p\<rparr>)" for x p
    by (rule derived_ok_tables [OF _ _ r]) simp_all
  ultimately show "derived_ok (snd (escalate_indirect target now s))"
    by (simp add: escalate_indirect_def Let_def case_prod_beta)
qed

lemma keeps_derived_accuse: "keeps keeps_derived (accuse now node)"
  unfolding keeps_derived_iff
proof (intro allI impI)
  fix s
  assume ok: "derived_ok s"
  show "derived_ok (snd (accuse now node s))"
  proof (cases "fmlookup (ge_members s) node")
    case None
    with ok show ?thesis
      using derived_at [OF keeps_derived_liveness_notice ok] by (simp add: accuse_def Let_def reindex_def)
  next
    case (Some m)
    have "derived_ok (reindex node (s\<lparr>ge_members := fmupd node (m\<lparr>m_accuse_at := x\<rparr>) (ge_members s)\<rparr>))" for x
      using records_okD [OF _ Some] ok by (intro derived_ok_reindex_upd [OF ok Some]) (auto simp: derived_ok_def)
    from derived_at [OF keeps_derived_liveness_notice this] Some show ?thesis
      by (simp add: accuse_def Let_def)
  qed
qed

lemma index_ok_declare_dead:
  "index_ok s \<and> records_ok s \<Longrightarrow> index_ok (declare_dead now n s) \<and> records_ok (declare_dead now n s)"
  by (cases "fmlookup (ge_members s) n")
     (auto simp: declare_dead_def Let_def filed_of_Some records_ok_upd index_ok_stamp index_ok_almost
       dest: records_okD intro!: index_ok_stamp_upd records_ok_upd)

lemma keeps_derived_reap_suspects: "keeps keeps_derived (reap_suspects now)"
  unfolding keeps_derived_iff
proof (intro allI impI)
  fix s
  assume ok: "derived_ok s"
  define dead where "dead = filter (suspect_due_at s now) (due_members now s)"
  define tail where "tail = then_do (for_each (\<lambda>node. liveness_notice node node now) dead) (silently nudge_anti_entropy)"
  have tail: "keeps keeps_derived tail"
    unfolding tail_def by (intro dv.keeps_then_do dv.keeps_for_each keeps_derived_liveness_notice keeps_derived_nudge)
  have fold: "index_ok (fold (declare_dead now) ns t) \<and> records_ok (fold (declare_dead now) ns t)"
    if "index_ok t \<and> records_ok t" for ns t
    using that by (induction ns arbitrary: t) (auto simp: index_ok_declare_dead)
  have "derived_ok (snd (then_do (emit [MembershipChanged]) (then_do recompute_coordinator tail)
      (fold (declare_dead now) dead t)))" if "derived_ok t" for t
    using fold [of t dead] that by (intro derived_ok_announce tail) (auto simp: derived_ok_def)
  then have "keeps keeps_derived (then_do (silently (fold (declare_dead now) dead))
      (then_do (emit [MembershipChanged]) (then_do recompute_coordinator tail)))"
    by (simp add: keeps_derived_iff then_do_def [of "silently _"] silently_def case_prod_beta)
  note dv.keeps_if [OF dv.keeps_skip this, of "dead = []"]
  then have "keeps keeps_derived (then_do (for_each (accuse now) as) (if dead = [] then skip
      else then_do (silently (fold (declare_dead now) dead))
        (then_do (emit [MembershipChanged]) (then_do recompute_coordinator tail))))" for as
    by (rule dv.keeps_then_do [OF dv.keeps_for_each [of "accuse now", OF keeps_derived_accuse]])
  from derived_at [OF this ok] show "derived_ok (snd (reap_suspects now s))"
    unfolding reap_suspects_def Let_def dead_def [symmetric] tail_def [symmetric] .
qed


lemma ge_members_forget [simp]: "ge_members (forget n s) = fmdrop n (ge_members s)"
proof (cases "fmlookup (ge_members s) n")
  case None
  then have "fmdrop n (ge_members s) = ge_members s" by (intro fmap_ext) auto
  with None show ?thesis by (simp add: forget_def)
next
  case (Some m)
  then show ?thesis by (simp add: forget_def Let_def split: option.split)
qed

lemma records_ok_forget: "records_ok s \<Longrightarrow> n \<noteq> ge_local s \<Longrightarrow> records_ok (forget n s)"
  using reap_after_core [OF core_forget [of n s]] ge_group_core [OF core_forget [of n s]]
  by (simp add: records_ok_def)

lemma dead_not_live: "fmlookup (ge_members s) n = Some m \<Longrightarrow> m_status m = Dead \<Longrightarrow> live_of (forget n s) = live_of s"
  by (rule fset_eqI) (auto simp: in_live_of)

lemma derived_ok_forget:
  assumes "derived_ok s" "n \<noteq> ge_local s" "status_of s n = None \<or> status_of s n = Some Dead"
  shows "derived_ok (forget n s)"
proof (cases "fmlookup (ge_members s) n")
  case None
  with assms(1) show ?thesis by (simp add: forget_def)
next
  case (Some m)
  with assms show ?thesis
    using ge_group_core [OF core_forget [of n s]]
    by (intro derived_ok_live [OF assms(1)])
       (auto simp: derived_ok_def index_ok_forget records_ok_forget status_of_def dead_not_live)
qed

lemma keeps_derived_reap_dead: "keeps keeps_derived (reap_dead now)"
  unfolding keeps_derived_iff
proof (intro allI impI)
  fix s
  assume ok: "derived_ok s"
  have st: "status_of (forget n t) k = (if k = n then None else status_of t k)" for n t k
    by (simp add: status_of_def)
  have "derived_ok (fold forget ns t)"
    if "derived_ok t" "\<And>n. n \<in> set ns \<Longrightarrow> n \<noteq> ge_local t \<and> (status_of t n = None \<or> status_of t n = Some Dead)"
    for ns t
    using that
  proof (induction ns arbitrary: t)
    case (Cons n ns)
    have "derived_ok (forget n t)" using Cons.prems by (intro derived_ok_forget) auto
    moreover have "ge_local (forget n t) = ge_local t" using ge_group_core [OF core_forget [of n t]] by simp
    moreover have "n' \<noteq> ge_local t \<and> (status_of (forget n t) n' = None \<or> status_of (forget n t) n' = Some Dead)"
      if "n' \<in> set ns" for n'
      using Cons.prems(2) [of n'] that by (simp add: st)
    ultimately show ?case by (simp add: Cons.IH)
  qed simp
  note fold = this
  define P where "P = (\<lambda>n. n \<noteq> ge_local s \<and> (case fmlookup (ge_members s) n of None \<Rightarrow> False
      | Some m \<Rightarrow> m_status m = Dead \<and> now \<ge> time_saturating_add (m_dead_since m) (reap_after s)))"
  have "n \<noteq> ge_local s \<and> (status_of s n = None \<or> status_of s n = Some Dead)" if "P n" for n
    using that by (auto simp: P_def status_of_def split: option.splits)
  then have "derived_ok (fold forget (filter P (due_members now s)) s)"
    using ok by (intro fold) auto
  with ok show "derived_ok (snd (reap_dead now s))"
    unfolding reap_dead_def Let_def P_def [symmetric] by simp
qed

lemma keeps_derived_reap_member: "keeps keeps_derived (reap_member_entries now node)"
  unfolding keeps_derived_iff
proof (intro allI impI)
  fix s
  assume ok: "derived_ok s"
  show "derived_ok (snd (reap_member_entries now node s))"
  proof (cases "fmlookup (ge_members s) node")
    case (Some m)
    have dm: "dues_ok (reap_after s) m"
      using ok records_okD [OF _ Some] by (simp add: derived_ok_def)
    obtain due m' where t: "take_due_entries now m = (due, m')" by fastforce
    have same: "m_filed m' = m_filed m" "m_changed_at m' = m_changed_at m" "m_status m' = m_status m"
      "m_liveness_since m' = m_liveness_since m" "m_suspect_due m' = m_suspect_due m"
      "m_accuse_at m' = m_accuse_at m" "m_dead_since m' = m_dead_since m"
      using t by (auto simp: take_due_entries_def case_prod_beta Let_def)
    show ?thesis
    proof (cases "due = []")
      case True
      with t have "derived_ok (s\<lparr>ge_members := fmupd node m' (ge_members s)\<rparr>)"
        using same take_due_idle [OF dm] by (intro derived_ok_same [OF ok Some]) auto
      with True Some t show ?thesis by (simp add: reap_member_entries_def)
    next
      case False
      have "derived_ok (reindex node (s\<lparr>ge_members := fmupd node m' (ge_members s)\<rparr>))"
        by (rule derived_ok_reindex_upd [OF ok Some same(1-4) dues_ok_take_due [OF dm t]])
      with False Some t show ?thesis by (simp add: reap_member_entries_def)
    qed
  qed (use ok in \<open>simp add: reap_member_entries_def\<close>)
qed


section \<open>Elections leave the tables alone\<close>

lemma untouched_activate [simp]: "untouched s (snd (activate e l s))"
  by (simp add: activate_def Let_def)

lemma untouched_election [simp]:
  "untouched s (snd (demote_host s))" "untouched s (snd (adopt e h s))" "untouched s (snd (learn_self_named e s))"
  "untouched s (abandon_claim s)" "untouched s (snd (record_grant e c now s))"
  "untouched s (learn_granted_epoch e c g s)" "untouched s (open_round now s)"
  "untouched s (note_resign_receipt n e h s)" "untouched s (snd (broadcast_resign e s))"
  "untouched s (election_start now s)"
proof -
  have el: "untouched s (s\<lparr>ge_election := x\<rparr>)" for x by (simp add: untouched_def)
  show "untouched s (snd (demote_host s))" "untouched s (snd (adopt e h s))" "untouched s (snd (learn_self_named e s))"
    by (simp_all add: demote_host_def adopt_def learn_self_named_def Let_def el split: option.split)
  show ab: "untouched s (abandon_claim s)" for s
    by (simp add: abandon_claim_def)
  show "untouched s (snd (record_grant e c now s))"
    by (simp add: record_grant_def Let_def split: option.split verdict.split)
  have "untouched s (abandon_claim (s\<lparr>ge_election := x\<rparr>))" for x
    by (rule untouched_trans [OF el ab])
  then show "untouched s (learn_granted_epoch e c g s)"
    by (simp add: learn_granted_epoch_def Let_def el split: option.split)
  show "untouched s (open_round now s)" "untouched s (note_resign_receipt n e h s)"
    "untouched s (snd (broadcast_resign e s))" "untouched s (election_start now s)"
    by (simp_all add: open_round_def note_resign_receipt_def broadcast_resign_def election_start_def Let_def)
qed

lemma untouched_close [simp]: "untouched s (snd (close_round_if_majority e s))"
  by (simp add: close_round_if_majority_def Let_def split: option.split role.split)

lemma untouched_close_after [simp]: "untouched s t \<Longrightarrow> untouched s (snd (close_round_if_majority e t))"
  by (erule untouched_trans) (rule untouched_close)

lemma untouched_self_grant [simp]: "untouched s (snd (self_grant e now s))"
proof -
  have "untouched s (upd_q f (snd (record_grant e c now s)))" for f c
    by (rule untouched_trans [of s "snd (record_grant e c now s)"]) simp_all
  then show ?thesis
    by (simp add: self_grant_def Let_def case_prod_beta then_do_def emit_def)
qed

lemma untouched_rounds [simp]:
  "untouched s (snd (quorum_retry_self_grant e now s))" "untouched s (snd (quorum_open_round e now s))"
  "untouched s (snd (renewal_round now s))"
proof -
  have "untouched s (snd (self_grant e now (open_round now s)))" for e
    by (rule untouched_trans [of s "open_round now s"]) simp_all
  then show "untouched s (snd (quorum_retry_self_grant e now s))" "untouched s (snd (quorum_open_round e now s))"
    "untouched s (snd (renewal_round now s))"
    by (simp_all add: quorum_retry_self_grant_def quorum_open_round_def renewal_round_def Let_def
        case_prod_beta split: option.split)
qed

lemma untouched_frames [simp]:
  "untouched s (snd (on_claim_as_voter e c now s))" "untouched s (snd (on_lead_grant e c g s))"
  "untouched s (snd (on_lead_resign n e h now s))" "untouched s (snd (on_lead_state n e x s))"
  "untouched s (snd (repair_claimant n e c s))"
proof -
  have el: "untouched s (t\<lparr>ge_election := x\<rparr>)" if "untouched s t" for x t
    using that by (simp add: untouched_def)
  have q: "untouched s (upd_q f t)" if "untouched s t" for f t
    by (rule untouched_trans [OF that]) simp
  show "untouched s (snd (on_claim_as_voter e c now s))" "untouched s (snd (on_lead_grant e c g s))"
    "untouched s (snd (on_lead_resign n e h now s))" "untouched s (snd (repair_claimant n e c s))"
    by (simp_all add: on_claim_as_voter_def on_lead_grant_def on_lead_resign_def repair_claimant_def Let_def
        case_prod_beta el q split: option.split)
  have "untouched s (snd (learn_self_named e t))" "untouched s (snd (adopt e x t))" if "untouched s t" for t x
    by (rule untouched_trans [OF that], simp)+
  then show "untouched s (snd (on_lead_state n e x s))"
    by (simp add: on_lead_state_def Let_def split: option.split ordering.split)
qed

lemma derived_ok_untouched: "(\<And>s. untouched s (snd (f s))) \<Longrightarrow> keeps keeps_derived f"
  by (auto simp: keeps_derived_iff intro: untouched_derived)

lemma derived_ok_upd_el: "derived_ok s \<Longrightarrow> derived_ok (upd_el f s)"
  by (rule untouched_derived) simp_all

lemma keeps_derived_beacon: "keeps keeps_derived beacon"
  by (simp add: keeps_derived_iff beacon_def beacon_targets_def Let_def case_prod_beta
      derived_ok_upd_el derived_ok_rotated)

lemma untouched_tick_follower: "untouched s (snd (tick_follower now due s))"
proof -
  have "untouched s (snd (quorum_open_round e now (upd_el f s)))" for e f
    by (rule untouched_trans [of s "upd_el f s"]) simp_all
  then show ?thesis by (simp add: tick_follower_def Let_def case_prod_beta split: option.split)
qed

lemma untouched_tick_claimant: "untouched s (snd (tick_claimant now due s))"
  by (simp add: tick_claimant_def Let_def case_prod_beta split: option.split)

lemma keeps_derived_tick_host: "keeps keeps_derived (tick_host now due)"
  unfolding keeps_derived_iff
proof (intro allI impI)
  fix s
  assume ok: "derived_ok s"
  define t where "t = (if is_coordinator s \<and> is_settle s
     then upd_el (\<lambda>el. el\<lparr>el_lease_until := time_saturating_add now (lease_ms_of s)\<rparr>) s else s)"
  have t: "derived_ok t" unfolding t_def using ok by (simp add: derived_ok_upd_el)
  have "keeps keeps_derived (then_do (renewal_round now) (then_do (\<lambda>s. (external_renewal_prompt s, s)) beacon))"
    by (intro dv.keeps_then_do keeps_derived_beacon derived_ok_untouched) simp_all
  from derived_at [OF this t] t untouched_derived [OF untouched_election(1) t]
  show "derived_ok (snd (tick_host now due s))"
    unfolding tick_host_def Let_def t_def [symmetric] by simp
qed

lemma keeps_derived_election_tick: "keeps keeps_derived (election_tick now due)"
proof -
  have "keeps keeps_derived (case el of None \<Rightarrow> skip | Some el \<Rightarrow> (case el_role el of
        Follower \<Rightarrow> tick_follower now due | Claimant \<Rightarrow> tick_claimant now due | Host \<Rightarrow> tick_host now due))" for el
    by (auto intro: dv.keeps_skip keeps_derived_tick_host derived_ok_untouched
        untouched_tick_follower untouched_tick_claimant split: option.split role.split)
  then have "keeps keeps_derived (then_do (case el of None \<Rightarrow> skip | Some el \<Rightarrow> (case el_role el of
        Follower \<Rightarrow> tick_follower now due | Claimant \<Rightarrow> tick_claimant now due | Host \<Rightarrow> tick_host now due))
      (\<lambda>s. (resend_resign due s, s)))" for el
    by (rule dv.keeps_then_do) (simp add: derived_ok_untouched)
  from derived_at [OF this] show ?thesis
    unfolding keeps_derived_iff election_tick_def by blast
qed

lemma merging_ok_newcomer:
  assumes "derived_ok s" "n |\<notin>| fmdom (ge_members s)"
  shows "merging_ok True (stamp n (s\<lparr>ge_members := fmupd n (member_new 0 Alive now) (ge_members s)\<rparr>))"
  using assms by (intro merging_ok_changed index_ok_stamp_upd)
    (auto simp: derived_ok_def filed_of_None records_ok_upd fmdom_notD)

lemma keeps_derived_learn_claimant: "keeps keeps_derived (learn_claimant c now)"
  by (auto simp: keeps_derived_iff learn_claimant_def Let_def intro!: derived_ok_membership_effects merging_ok_newcomer)

lemma keeps_derived_on_lead: "keeps keeps_derived (on_lead from f now)"
proof -
  have "keeps keeps_derived (on_lead_claim from e c now)" for e c
    unfolding on_lead_claim_def
    by (intro dv.keeps_then_do keeps_derived_learn_claimant keeps_derived_silently derived_ok_untouched) simp_all
  moreover have "keeps keeps_derived (on_lead_state from e h)" "keeps keeps_derived (on_lead_grant e c g)"
    "keeps keeps_derived (on_lead_resign from e c now)" for e h c g
    by (rule derived_ok_untouched, simp)+
  ultimately show ?thesis
    unfolding keeps_derived_iff by (simp add: on_lead_def split: option.split lead_body.split)
qed


section \<open>Entry points\<close>

lemma keeps_derived_on_delta: "keeps keeps_derived (on_delta from f now)"
  using derived_at [OF keeps_derived_merge_members] derived_at [OF keeps_derived_send_request]
  by (simp add: keeps_derived_iff on_delta_def Let_def case_prod_beta then_do_def emit_def skip_def)

lemma keeps_derived_on_delta_request: "keeps keeps_derived (on_delta_request from f now)"
  using derived_at [OF keeps_derived_answer_delta] by (simp add: keeps_derived_iff on_delta_request_def)

lemma keeps_derived_dispatch: "keeps keeps_derived (dispatch from f now)"
proof -
  have "keeps keeps_derived (on_ack from)" "keeps keeps_derived (on_ping_req from t)" for t
    by (auto simp: on_ack_def on_ping_req_def Let_def untouched_def clear_pending_if_def
        intro!: derived_ok_untouched split: option.split)
  then show ?thesis
    using keeps_derived_on_digest keeps_derived_on_delta_request keeps_derived_on_delta keeps_derived_on_lead
      untouched_derived [OF untouched_simps(7)]
    unfolding keeps_derived_iff by (auto simp: dispatch_def split: kind.split option.split)
qed



lemma keeps_derived_on_message: "keeps keeps_derived (on_message from b now)"
  using derived_at [OF keeps_derived_dispatch] untouched_derived [OF untouched_simps(3)]
  by (auto simp: keeps_derived_iff on_message_def Let_def split: option.split)

lemma keeps_derived_arm_timer: "keeps keeps_derived arm_timer"
  by (simp add: keeps_derived_iff arm_timer_def)

lemma keeps_derived_on_tick: "keeps keeps_derived (on_tick now)"
proof -
  have "keeps keeps_derived (expire_probe now)"
    using derived_at [OF keeps_derived_escalate] derived_at [OF keeps_derived_suspect]
      untouched_derived [of _ "_\<lparr>ge_pending := None\<rparr>"]
    by (auto simp: keeps_derived_iff expire_probe_def untouched_def split: option.split probe_phase.split)
  moreover have "keeps keeps_derived (reap_entries now)"
    using derived_at [OF dv.keeps_for_each [of "reap_member_entries now", OF keeps_derived_reap_member]]
    by (simp add: keeps_derived_iff reap_entries_def)
  moreover have "keeps keeps_derived (probe_round now)"
    using derived_at [OF keeps_derived_probe] untouched_derived [of _ "_\<lparr>ge_next_probe := _\<rparr>"]
    by (auto simp: keeps_derived_iff probe_round_def untouched_def)
  moreover have "keeps keeps_derived (gossip_and_election now)"
  proof -
    have "keeps keeps_derived (if due then (\<lambda>s. disseminate_digest now (s\<lparr>ge_next_anti_entropy :=
        time_saturating_add now (gossip_interval_ms (ge_config s))\<rparr>)) else skip)" for due
      using derived_at [OF keeps_derived_disseminate] untouched_derived [of _ "_\<lparr>ge_next_anti_entropy := _\<rparr>"]
      by (auto simp: keeps_derived_iff untouched_def skip_def)
    from derived_at [OF dv.keeps_then_do [OF this keeps_derived_election_tick]] show ?thesis
      unfolding keeps_derived_iff gossip_and_election_def Let_def by blast
  qed
  ultimately have body: "keeps keeps_derived (then_do (expire_probe now) (then_do (reap_suspects now)
      (then_do (reap_dead now) (then_do (reap_entries now) (then_do (probe_round now)
        (then_do (gossip_and_election now) arm_timer))))))"
    by (intro dv.keeps_then_do keeps_derived_reap_suspects keeps_derived_reap_dead keeps_derived_arm_timer)
  have "derived_ok ((hear_time now s)\<lparr>ge_stats := x\<rparr>)" if "derived_ok s" for s x
    by (rule derived_ok_tables [OF _ _ untouched_derived [OF untouched_simps(3) that]]) simp_all
  with derived_at [OF body] show ?thesis
    unfolding keeps_derived_iff on_tick_def Let_def by blast
qed

lemma keeps_derived_start: "keeps keeps_derived (start now)"
proof -
  have "derived_ok (election_start now ((hear_time now s)\<lparr>ge_next_anti_entropy := a, ge_next_probe := b\<rparr>))"
    if "derived_ok s" for s a b
  proof (rule untouched_derived [OF untouched_election(10)])
    show "derived_ok ((hear_time now s)\<lparr>ge_next_anti_entropy := a, ge_next_probe := b\<rparr>)"
      by (rule derived_ok_tables [OF _ _ untouched_derived [OF untouched_simps(3) that]]) simp_all
  qed
  with derived_at [OF dv.keeps_then_do [OF keeps_derived_disseminate keeps_derived_arm_timer]] show ?thesis
    unfolding keeps_derived_iff start_def Let_def by blast
qed

lemma derived_ok_local_upd:
  assumes "derived_ok s" "fmlookup (ge_members s) (ge_local s) = Some m"
    and "m_filed m' = m_filed m" "m_changed_at m' = m_changed_at m" "m_status m' = m_status m"
    and "dues_ok (reap_after s) m'"
  shows "derived_ok (stamp_self (s\<lparr>ge_members := fmupd (ge_local s) m' (ge_members s), ge_authored := a\<rparr>))"
proof -
  have "derived_ok (s\<lparr>ge_authored := a\<rparr>)" by (rule derived_ok_tables [OF _ _ assms(1)]) simp_all
  then have "derived_ok (stamp (ge_local s) ((s\<lparr>ge_authored := a\<rparr>)\<lparr>ge_members := fmupd (ge_local s) m' (ge_members s)\<rparr>))"
    using derived_ok_stamp_upd [of "s\<lparr>ge_authored := a\<rparr>" "ge_local s" m m'] assms(2-6)
    by (simp add: reap_after_def)
  moreover have "s\<lparr>ge_authored := a, ge_members := ms\<rparr> = s\<lparr>ge_members := ms, ge_authored := a\<rparr>" for ms
    by simp
  ultimately show ?thesis by (simp only: stamp_self_def) simp
qed

lemma keeps_derived_author_entry: "keeps keeps_derived (author_entry key v ttl tomb)"
  unfolding keeps_derived_iff
proof (intro allI impI)
  fix s
  assume ok: "derived_ok s"
  then obtain m where m: "fmlookup (ge_members s) (ge_local s) = Some m"
    using records_ok_self by (auto simp: derived_ok_def)
  have dm: "dues_ok (reap_after s) m" using ok records_okD [OF _ m] by (simp add: derived_ok_def)
  have up: "derived_ok (stamp_self (s\<lparr>ge_members := fmupd (ge_local s)
      (put_entry_due key e (reap_after s) (m\<lparr>m_max_state_version := w\<rparr>)) (ge_members s), ge_authored := a\<rparr>))" for e w a
    by (rule derived_ok_local_upd [OF ok m]) (simp_all add: dues_ok_put_entry dm)
  have "derived_ok (snd (eager_push (nudge_anti_entropy_now (stamp_self (s\<lparr>ge_members := fmupd (ge_local s)
      (put_entry_due key e (reap_after s) (m\<lparr>m_max_state_version := w\<rparr>)) (ge_members s), ge_authored := a\<rparr>)))))" for e w a
    by (rule derived_at [OF keeps_derived_eager_push untouched_derived [OF untouched_simps(2) up]])
  with m show "derived_ok (snd (author_entry key v ttl tomb s))"
    by (simp add: author_entry_def Let_def then_do_def emit_def case_prod_beta)
qed

lemma keeps_derived_leave: "keeps keeps_derived leave"
  unfolding leave_split
proof (rule dv.keeps_then_do)
  have "keeps (\<lambda>s e t. untouched s t) (then_do (case r of Host \<Rightarrow> demote_host
      | Claimant \<Rightarrow> silently abandon_claim | Follower \<Rightarrow> skip)
      (case x of None \<Rightarrow> skip | Some e \<Rightarrow> broadcast_resign e))" for r x
    by (rule ut.keeps_then_do) (auto simp: keeps_def skip_def silently_def split: role.split option.split)
  then have "untouched s (snd (then_do (case r of Host \<Rightarrow> demote_host | Claimant \<Rightarrow> silently abandon_claim
      | Follower \<Rightarrow> skip) (case x of None \<Rightarrow> skip | Some e \<Rightarrow> broadcast_resign e) s))" for s r x
    by (simp add: keeps_def)
  then show "keeps keeps_derived election_on_leave"
    by (intro derived_ok_untouched) (simp add: election_on_leave_def Let_def)
  show "keeps keeps_derived leave_tail"
    unfolding keeps_derived_iff
  proof (intro allI impI)
    fix s
    assume ok: "derived_ok s"
    define t where "t = s\<lparr>ge_leaving := True\<rparr>"
    have t: "derived_ok t" unfolding t_def by (rule derived_ok_tables [OF _ _ ok]) simp_all
    then obtain m where m: "fmlookup (ge_members t) (ge_local t) = Some m"
      using records_ok_self by (auto simp: derived_ok_def)
    define m' where "m' = (adopt_status Dead (ge_now_hint t) m)\<lparr>m_dead_since := ge_now_hint t\<rparr>"
    define u where "u = stamp_self (t\<lparr>ge_members := fmupd (ge_local t) m' (ge_members t)\<rparr>)"
    have "index_ok u"
      unfolding u_def stamp_self_def using t m
      by (simp add: m'_def) (intro index_ok_stamp_upd, auto simp: derived_ok_def filed_of_Some)
    moreover have "records_ok u"
      unfolding u_def using t records_okD [OF _ m] by (simp add: derived_ok_def records_ok_upd m'_def)
    ultimately have "derived_ok (snd (then_do (emit [MembershipChanged])
        (then_do recompute_coordinator (silently nudge_anti_entropy_now)) u))"
      by (rule derived_ok_announce) (rule keeps_derived_nudge)
    moreover have "leave_tail s = then_do (emit [MembershipChanged])
        (then_do recompute_coordinator (silently nudge_anti_entropy_now)) u"
      using m by (simp add: leave_tail_def then_do_def [of "silently _"] silently_def [of "\<lambda>s. _ s"] Let_def
          t_def u_def m'_def case_prod_beta)
    ultimately show "derived_ok (snd (leave_tail s))" by simp
  qed
qed

lemma keeps_derived_add_peer: "keeps keeps_derived (add_peer n)"
  by (auto simp: keeps_derived_iff add_peer_def Let_def
      intro!: derived_ok_announce keeps_derived_nudge dest: merging_ok_newcomer [unfolded merging_ok_def])

lemma derived_ok_contacts:
  assumes "derived_ok s"
  shows "derived_ok (set_bootstrap_contacts cs s)"
proof -
  have "derived_ok (s\<lparr>ge_ring := ge_ring s, ge_targets := None, ge_bootstrap_contacts := new\<rparr>)" for new
    using assms cached_caches [OF assms] by (intro derived_ok_caches) (auto simp: cache_ok_def)
  then have "derived_ok (nudge_anti_entropy
      (s\<lparr>ge_digest_peers := ps, ge_bootstrap_contacts := new, ge_targets := None\<rparr>))" for ps new
    by (intro untouched_derived [OF untouched_simps(1)])
       (rule derived_ok_tables [of _ "s\<lparr>ge_targets := None, ge_bootstrap_contacts := new\<rparr>"], simp_all add: tables_def)
  with assms show ?thesis by (simp add: set_bootstrap_contacts_def Let_def)
qed

lemma keeps_derived_apply_cmd: "keeps keeps_derived (apply_cmd c)"
proof (cases c)
  case (UpdateMetadata k v)
  then show ?thesis
    by (auto simp: update_metadata_def Let_def intro!: derived_ok_untouched)
       (auto simp: untouched_def nudge_anti_entropy_now_def)
next
  case (SetBootstrapContacts cs)
  then show ?thesis by (simp add: keeps_derived_iff silently_def derived_ok_contacts)
next
  case (AnchorActivated e l)
  then show ?thesis
    by (auto simp: on_anchor_activated_def intro!: derived_ok_untouched split: option.split)
next
  case (AnchorObserved e h)
  then show ?thesis
    by (auto simp: on_anchor_observed_def intro!: derived_ok_untouched split: option.split)
qed (simp_all add: set_local_entry_def delete_local_entry_def keeps_derived_author_entry keeps_derived_leave
      keeps_derived_add_peer)

lemma derived_ok_engine_new:
  assumes "engine_new grp n seeds cfg = Inr s"
  shows "derived_ok s"
proof -
  define i where "i = initial_engine grp n seeds cfg"
  define t where "t = reindex n (restamp n 1 i)"
  have mem: "ge_members i = fmupd n (member_new 0 Alive time_zero) fmempty" "ge_local i = n"
    "ge_index i = index_default" "ge_change_clock i = 1" "ge_ring i = None" "ge_targets i = None"
    by (simp_all add: i_def initial_engine_def Let_def)
  have filed: "filed_of i = (\<lambda>_. (filed_none, 0))"
    by (auto simp: filed_of_def mem fun_eq_iff)
  have "almost_ok n i"
    by (auto simp: almost_ok_def filing_ok_def filed mem dues_filed_def live_filed_def stamps_filed_def
        index_default_def filed_none_def cache_ok_def)
  then have "index_ok t"
    unfolding t_def by (rule index_ok_restamp) (simp_all add: mem filed)
  moreover have "records_ok t"
  proof -
    have "records_ok (restamp n 1 i)" by (auto simp: restamp_def mem Let_def records_ok_def)
    then show ?thesis by (simp add: t_def)
  qed
  ultimately have "derived_ok (t\<lparr>ge_coordinator := compute_coordinator t\<rparr>)"
    using index_ok_tables [of "t\<lparr>ge_coordinator := compute_coordinator t\<rparr>" t]
    by (simp add: derived_ok_def compute_coordinator_def records_ok_def reap_after_def)
  with assms show ?thesis
    by (auto simp: engine_new_def Let_def i_def t_def split: sum.splits)
qed



section \<open>Any history of calls\<close>

datatype engine_call = CallStart time | CallMessage node_id bytes time | CallTick time | CallApply command

fun invoke :: "engine_call \<Rightarrow> step" where
  "invoke (CallStart now) = start now"
| "invoke (CallMessage from bytes now) = on_message from bytes now"
| "invoke (CallTick now) = on_tick now"
| "invoke (CallApply c) = apply_cmd c"

lemma keeps_derived_invoke: "keeps keeps_derived (invoke c)"
  by (cases c) (simp_all add: keeps_derived_start keeps_derived_on_message keeps_derived_on_tick
      keeps_derived_apply_cmd)

definition history :: "engine_call list \<Rightarrow> group_engine \<Rightarrow> group_engine" where
  "history calls s = snd (for_each invoke calls s)"

lemma cache_ok_unique: "cache_ok c P \<Longrightarrow> cache_ok (Some ys) P \<Longrightarrow> c = Some xs \<Longrightarrow> xs = ys"
  by (intro sorted_distinct_set_unique) (auto simp: cache_ok_def strict_sorted_iff)

lemma derived_ok_history: "engine_new grp n seeds cfg = Inr s \<Longrightarrow> derived_ok (history calls s)"
  unfolding history_def
  by (rule derived_at [OF dv.keeps_for_each [of invoke, OF keeps_derived_invoke] derived_ok_engine_new])

text \<open>
  C9. The coordinator is derived, never elected: after every history of entry-point calls, with
  any frames, ticks and commands in any order, the cached coordinator of an engine is the
  placement owner of its group over exactly the members it does not believe dead.
\<close>

theorem coordinator_is_owner:
  assumes "engine_new grp n seeds cfg = Inr s"
  shows "ge_coordinator (history calls s) =
    owner (group_str (ge_group (history calls s))) (live_of (history calls s))"
  using derived_ok_history [OF assms, of calls] by (simp add: derived_ok_def compute_coordinator_owner)


definition sample_calls :: "engine_call list" where
  "sample_calls = [CallStart 0, CallApply (AddPeer (NodeId [98])), CallTick 1000, CallApply Leave, CallTick 5000]"

definition sample_new :: "config_error + group_engine" where
  "sample_new = engine_new (GroupId [103]) (NodeId [97]) [NodeId [98]] config_default"

lemma sample_new_ok: "\<exists>s. sample_new = Inr s"
  by (simp add: sample_new_def engine_new_def Let_def validate_def config_default_def)

theorem coordinator_is_owner_witness:
  "\<exists>s. sample_new = Inr s \<and> ge_coordinator (history sample_calls s) =
    owner (group_str (ge_group (history sample_calls s))) (live_of (history sample_calls s))"
  using sample_new_ok coordinator_is_owner unfolding sample_new_def by blast


end
