(* ===== verification/Change_Tracking.thy ===== *)
theory Change_Tracking
  imports Derived_State
begin

text \<open>
  The change feed a mirror of the members relies on (\<open>engine/index.rs\<close>): every member whose status moves
  is stamped above the change clock, every node whose live entries move is named by an effect, and every
  member that goes is either listed as forgotten or the listing says it is too short.
\<close>


section \<open>What a mirror shows of a member\<close>

definition m_open :: "member \<Rightarrow> (str \<times> bytes) list" where
  "m_open m = map (\<lambda>(k, e). (k, se_value e)) (filter (\<lambda>(_, e). \<not> se_tombstone e) (fentries (m_entries m)))"

type_synonym face = "status \<times> time \<times> nat \<times> (str \<times> bytes) list"

definition face_of :: "member \<Rightarrow> face" where
  "face_of m = (m_status m, m_status_since m, m_changed_at m, m_open m)"

definition face :: "group_engine \<Rightarrow> node_id \<Rightarrow> face option" where
  "face s n = map_option face_of (fmlookup (ge_members s) n)"

definition forgotten :: "group_engine \<Rightarrow> (nat, node_id) fmap \<times> nat" where
  "forgotten s = (ix_forgotten (ge_index s), ix_forgotten_floor (ge_index s))"

definition open_of :: "face option \<Rightarrow> (str \<times> bytes) list" where
  "open_of x = (case x of None \<Rightarrow> [] | Some (_, _, _, es) \<Rightarrow> es)"

lemma open_of_face: "open_of (face s n) = node_entries s n"
  by (simp add: open_of_def face_def face_of_def node_entries_def m_open_def split: option.split)

definition moved :: "node_id set \<Rightarrow> nat \<Rightarrow> node_id \<Rightarrow> face option \<Rightarrow> face option \<Rightarrow> bool" where
  "moved K c n x y = (case y of
      None \<Rightarrow> x = None
    | Some (st, since, at, es) \<Rightarrow>
        (c < at \<or> (\<exists>es'. x = Some (st, since, at, es'))) \<and> (es = open_of x \<or> n \<in> K))"

definition tracks :: "node_id set \<Rightarrow> group_engine \<Rightarrow> group_engine \<Rightarrow> bool" where
  "tracks K s t \<longleftrightarrow> ge_change_clock s \<le> ge_change_clock t \<and> forgotten t = forgotten s
     \<and> (\<forall>n. moved K (ge_change_clock s) n (face s n) (face t n))"

lemma moved_refl [simp]: "moved K c n x x"
  by (auto simp: moved_def open_of_def split: option.split)

lemma moved_Some:
  "moved K c n x (Some (st, since, at, es)) \<longleftrightarrow>
     (c < at \<or> (\<exists>es'. x = Some (st, since, at, es'))) \<and> (es = open_of x \<or> n \<in> K)"
  by (simp add: moved_def)

lemma moved_trans:
  "\<lbrakk>moved K c n x y; moved L d n y z; c \<le> d\<rbrakk> \<Longrightarrow> moved (K \<union> L) c n x z"
  by (auto simp: moved_def open_of_def split: option.splits)

lemma moved_mono: "moved K c n x y \<Longrightarrow> K \<subseteq> L \<Longrightarrow> moved L c n x y"
  by (auto simp: moved_def split: option.splits)

lemma tracks_refl [simp]: "tracks K s s"
  by (simp add: tracks_def)

lemma tracks_trans: "\<lbrakk>tracks K s t; tracks L t u\<rbrakk> \<Longrightarrow> tracks (K \<union> L) s u"
  unfolding tracks_def using moved_trans by fastforce

lemma tracks_mono: "\<lbrakk>tracks K s t; K \<subseteq> L\<rbrakk> \<Longrightarrow> tracks L s t"
  unfolding tracks_def using moved_mono by blast

lemma tracks_face:
  "\<lbrakk>face t = face s; ge_change_clock t = ge_change_clock s; forgotten t = forgotten s\<rbrakk> \<Longrightarrow> tracks K s t"
  by (simp add: tracks_def)

lemma tracks_into:
  "\<lbrakk>tracks K s t; face u = face t; ge_change_clock u = ge_change_clock t; forgotten u = forgotten t\<rbrakk> \<Longrightarrow> tracks K s u"
  by (simp add: tracks_def)


section \<open>Filing and stamping\<close>

lemma face_reindex [simp]: "face (reindex n s) = face s"
proof
  fix k
  have "ge_members (live_set_changed n b t) = ge_members t" for b t
    by (simp add: live_set_changed_def Let_def)
  then show "face (reindex n s) k = face s k"
    by (auto simp: reindex_def Let_def case_prod_beta file_due_def file_score_def face_def face_of_def m_open_def
        split: option.splits bool.splits)
qed

lemma reindex_clock [simp]:
  "ge_change_clock (reindex n s) = ge_change_clock s" "forgotten (reindex n s) = forgotten s"
proof -
  have l: "ge_change_clock (live_set_changed n b t) = ge_change_clock t"
    "ge_index (live_set_changed n b t) = ge_index t" for b t
    by (simp_all add: live_set_changed_def Let_def)
  show "ge_change_clock (reindex n s) = ge_change_clock s" "forgotten (reindex n s) = forgotten s"
    by (auto simp: reindex_def Let_def case_prod_beta file_due_def file_score_def forgotten_def l
        split: option.splits bool.splits)
qed

lemma restamp_clock [simp]:
  "ge_change_clock (restamp n at s) = ge_change_clock s" "forgotten (restamp n at s) = forgotten s"
  by (simp_all add: restamp_def Let_def forgotten_def unstamp_def split: option.split)

lemma stamp_clock [simp]:
  "ge_change_clock (stamp n s) = Suc (ge_change_clock s)" "forgotten (stamp n s) = forgotten s"
  by (simp_all add: stamp_def Let_def) (simp add: forgotten_def)

lemma forgotten_members [simp]: "forgotten (s\<lparr>ge_members := ms\<rparr>) = forgotten s"
  by (simp add: forgotten_def)

lemma face_stamp:
  "face (stamp n s) = (face s)(n := map_option (\<lambda>(st, since, at, es). (st, since, Suc (ge_change_clock s), es)) (face s n))"
  by (rule ext) (simp add: stamp_def Let_def, auto simp: restamp_def face_def face_of_def m_open_def Let_def split: option.splits)

lemma face_upd: "face (s\<lparr>ge_members := fmupd n m (ge_members s)\<rparr>) = (face s)(n := Some (face_of m))"
  by (auto simp: face_def)

lemma tracks_stamp:
  assumes "m_open m = node_entries s n \<or> n \<in> K"
  shows "tracks K s (stamp n (s\<lparr>ge_members := fmupd n m (ge_members s)\<rparr>))"
  using assms by (auto simp: tracks_def face_stamp face_upd moved_Some face_of_def open_of_face)

lemma tracks_stamp_same [simp]: "tracks K s (stamp n s)"
  by (auto simp: tracks_def face_stamp moved_def open_of_def split: option.split)

lemma tracks_upd:
  assumes "fmlookup (ge_members s) n = Some m" "m_status m' = m_status m" "m_status_since m' = m_status_since m"
    "m_changed_at m' = m_changed_at m" "m_open m' = m_open m \<or> n \<in> K"
  shows "tracks K s (s\<lparr>ge_members := fmupd n m' (ge_members s)\<rparr>)"
proof -
  have "face s n = Some (face_of m)" using assms(1) by (simp add: face_def)
  with assms(2-) show ?thesis
    by (auto simp: tracks_def face_upd moved_Some face_of_def open_of_def)
qed

lemma tracks_reindex: "tracks K s t \<Longrightarrow> tracks K s (reindex n t)"
  by (rule tracks_into) simp_all

lemma untouched_tracks: "untouched s t \<Longrightarrow> tracks K s t"
  by (rule tracks_face) (simp_all add: untouched_def tables_def face_def forgotten_def fun_eq_iff)


section \<open>Steps that touch no member a mirror shows\<close>

definition still :: "group_engine \<Rightarrow> group_engine \<Rightarrow> bool" where
  "still s t \<longleftrightarrow> face t = face s \<and> ge_change_clock t = ge_change_clock s \<and> forgotten t = forgotten s"

lemma still_refl [simp]: "still s s"
  by (simp add: still_def)

lemma still_trans: "still s t \<Longrightarrow> still t u \<Longrightarrow> still s u"
  by (simp add: still_def)

lemma still_tracks: "still s t \<Longrightarrow> tracks K s t"
  by (simp add: still_def tracks_face)

lemma untouched_still: "untouched s t \<Longrightarrow> still s t"
  by (simp add: untouched_def tables_def still_def face_def forgotten_def fun_eq_iff)

interpretation st: step_frame "\<lambda>s e t. still s t"
  by unfold_locales (auto intro: still_trans)

lemma keeps_still_untouched: "(\<And>s. untouched s (snd (f s))) \<Longrightarrow> keeps (\<lambda>s e t. still s t) f"
  by (simp add: keeps_def untouched_still)

lemma still_at: "keeps (\<lambda>s e t. still s t) f \<Longrightarrow> still s (snd (f s))"
  by (simp add: keeps_def)

lemma still_update [simp]:
  "still s (s\<lparr>ge_digest_peers := a\<rparr>)" "still s (s\<lparr>ge_coordinator := b\<rparr>)" "still s (s\<lparr>ge_next_anti_entropy := c\<rparr>)"
  "still s (s\<lparr>ge_last_round := c\<rparr>)" "still s (s\<lparr>ge_next_probe := c\<rparr>)" "still s (s\<lparr>ge_probe_cursor := d\<rparr>)"
  "still s (s\<lparr>ge_gossip_cursor := d\<rparr>)" "still s (s\<lparr>ge_rng := e\<rparr>)" "still s (s\<lparr>ge_pending := f\<rparr>)"
  "still s (s\<lparr>ge_relaying := g\<rparr>)" "still s (s\<lparr>ge_now_hint := c\<rparr>)" "still s (s\<lparr>ge_authored := h\<rparr>)"
  "still s (s\<lparr>ge_election := i\<rparr>)" "still s (s\<lparr>ge_stats := j\<rparr>)" "still s (s\<lparr>ge_metadata := k\<rparr>)"
  "still s (s\<lparr>ge_ring := l\<rparr>)" "still s (s\<lparr>ge_targets := l\<rparr>)" "still s (s\<lparr>ge_incarnation := d\<rparr>)"
  "still s (s\<lparr>ge_leaving := m\<rparr>)" "still s (s\<lparr>ge_bootstrap_contacts := n\<rparr>)"
  by (simp_all add: still_def face_def forgotten_def fun_eq_iff)

lemma still_caches:
  "still s (snd (probe_ring s))" "still s (snd (rotated_targets c k s))" "still s (snd (select_fanout_targets s))"
proof -
  show "still s (snd (probe_ring s))" by (simp add: probe_ring_def split: option.split)
  have r: "still s (snd (rotated_targets c k s))" for c k
    by (simp add: rotated_targets_def cached_targets_def split: option.split)
  then show "still s (snd (rotated_targets c k s))" .
  from still_trans [OF r still_update(7)] show "still s (snd (select_fanout_targets s))"
    by (simp add: select_fanout_targets_def case_prod_beta r)
qed

lemma still_refresh [simp]: "still s (refresh_content_hash now n s)"
proof -
  have "face (s\<lparr>ge_members := fmupd n (m\<lparr>m_hash_cache := x\<rparr>) (ge_members s)\<rparr>) = face s"
    if "fmlookup (ge_members s) n = Some m" for m x
    using that by (auto simp: face_def face_of_def m_open_def fun_eq_iff)
  then show ?thesis
    by (simp add: refresh_content_hash_def still_def split: option.split)
qed

lemma still_fold: "(\<And>x s. still s (f x s)) \<Longrightarrow> still s (fold f xs s)"
  by (induction xs arbitrary: s) (auto intro: still_trans)

lemma keeps_still_digest_to: "keeps (\<lambda>s e t. still s t) (digest_to now to)"
  unfolding keeps_def
proof
  fix s
  obtain ls full p where df: "digest_for s to now = (ls, full, p)" by (metis prod_cases3)
  define u where "u = fold (refresh_content_hash now) ls (s\<lparr>ge_digest_peers := fmupd to p (ge_digest_peers s)\<rparr>)"
  have "still s u" unfolding u_def by (rule still_trans [OF still_update(1) still_fold]) simp
  moreover have "untouched u (snd (digest_to now to s))"
    unfolding digest_to_def df prod.case Let_def u_def [symmetric] snd_conv
    by (rule untouched_trans [OF _ untouched_fold]) simp_all
  ultimately show "still s (snd (digest_to now to s))" using still_trans untouched_still by blast
qed

lemma keeps_still_disseminate: "keeps (\<lambda>s e t. still s t) (disseminate_digest now)"
  unfolding keeps_def
proof
  fix s
  define u where "u = snd (select_fanout_targets (s\<lparr>ge_last_round := now\<rparr>))"
  have "still s u" unfolding u_def by (rule still_trans [OF still_update(4) still_caches(3)])
  moreover have "still u (snd (for_each (digest_to now) ts u))" for ts
    by (rule still_at [OF st.keeps_for_each [OF keeps_still_digest_to]])
  ultimately show "still s (snd (disseminate_digest now s))"
    using still_trans by (fastforce simp: disseminate_digest_def case_prod_beta Let_def u_def)
qed

lemma keeps_still_gossip:
  "keeps (\<lambda>s e t. still s t) (liveness_notice to about now)" "keeps (\<lambda>s e t. still s t) (answer_delta to ws now)"
  "keeps (\<lambda>s e t. still s t) (send_delta_request to wants)" "keeps (\<lambda>s e t. still s t) (answer_doubt to b i now)"
  by (auto simp: keeps_def liveness_notice_def answer_delta_def send_delta_request_def answer_doubt_def Let_def
      intro: untouched_still split: option.split)

lemma keeps_still_eager_push: "keeps (\<lambda>s e t. still s t) eager_push"
proof -
  have "still s (count_delta_frames k l (snd (select_fanout_targets s)))" for k l s
    by (rule still_trans [OF still_caches(3) untouched_still]) simp
  then show ?thesis by (simp add: keeps_def eager_push_def Let_def case_prod_beta split: option.split)
qed

lemma keeps_still_metadata: "keeps (\<lambda>s e t. still s t) (merge_metadata ds)"
  unfolding merge_metadata_def by (rule st.keeps_for_each) (simp add: keeps_def merge_meta_def)

lemma keeps_still_exchange: "keeps (\<lambda>s e t. still s t) (exchange from ds now)"
proof -
  have "keeps (\<lambda>s e t. still s t) (then_do (if wants \<noteq> [] then send_delta_request from wants else skip)
      (answer_delta from offers now))" for wants offers
    by (intro st.keeps_then_do st.keeps_if keeps_still_gossip st.keeps_skip)
  from still_at [OF this] show ?thesis unfolding keeps_def exchange_def Let_def by blast
qed

lemma keeps_still_probe: "keeps (\<lambda>s e t. still s t) (probe now)"
proof -
  have "still s ((snd (probe_ring s))\<lparr>ge_probe_cursor := a, ge_pending := b\<rparr>)" for s a b
    by (rule still_trans [OF still_caches(1) still_trans [OF still_update(6) still_update(9)]])
  then show ?thesis by (simp add: keeps_def probe_def Let_def case_prod_beta still_caches)
qed

lemma keeps_still_simple:
  "keeps (\<lambda>s e t. still s t) recompute_coordinator" "keeps (\<lambda>s e t. still s t) (emit es)"
  "keeps (\<lambda>s e t. still s t) arm_timer" "keeps (\<lambda>s e t. still s t) (silently nudge_anti_entropy)"
  "keeps (\<lambda>s e t. still s t) (silently nudge_anti_entropy_now)"
  by (simp_all add: keeps_def recompute_coordinator_def Let_def emit_def arm_timer_def silently_def untouched_still)

lemmas still_rules = st.keeps_skip st.keeps_then_do st.keeps_for_each st.keeps_if keeps_still_simple keeps_still_gossip


lemma keeps_still_tick_host: "keeps (\<lambda>s e t. still s t) (tick_host now due)"
  unfolding keeps_def
proof
  fix s
  define t where "t = (if is_coordinator s \<and> is_settle s
     then upd_el (\<lambda>el. el\<lparr>el_lease_until := time_saturating_add now (lease_ms_of s)\<rparr>) s else s)"
  have t: "still s t" unfolding t_def by (simp add: untouched_still)
  have "keeps (\<lambda>s e t. still s t) beacon"
    using still_trans [OF still_caches(2) untouched_still [OF untouched_simps(8)]]
    by (simp add: keeps_def beacon_def beacon_targets_def Let_def case_prod_beta untouched_still still_caches)
  moreover have "keeps (\<lambda>s e t. still s t) (renewal_round now)"
    "keeps (\<lambda>s e t. still s t) (\<lambda>s. (external_renewal_prompt s, s))"
    by (rule keeps_still_untouched, simp)+
  ultimately have "keeps (\<lambda>s e t. still s t)
      (then_do (renewal_round now) (then_do (\<lambda>s. (external_renewal_prompt s, s)) beacon))"
    by (intro st.keeps_then_do)
  from still_trans [OF t still_at [OF this]] t still_trans [OF t untouched_still [OF untouched_election(1)]]
  show "still s (snd (tick_host now due s))"
    unfolding tick_host_def Let_def t_def [symmetric] by simp
qed

lemma keeps_still_election_tick: "keeps (\<lambda>s e t. still s t) (election_tick now due)"
proof -
  have "keeps (\<lambda>s e t. still s t) (case el of None \<Rightarrow> skip | Some el \<Rightarrow> (case el_role el of
        Follower \<Rightarrow> tick_follower now due | Claimant \<Rightarrow> tick_claimant now due | Host \<Rightarrow> tick_host now due))" for el
    by (auto intro: st.keeps_skip keeps_still_tick_host keeps_still_untouched
        untouched_tick_follower untouched_tick_claimant split: option.split role.split)
  then have "keeps (\<lambda>s e t. still s t) (then_do (case el of None \<Rightarrow> skip | Some el \<Rightarrow> (case el_role el of
        Follower \<Rightarrow> tick_follower now due | Claimant \<Rightarrow> tick_claimant now due | Host \<Rightarrow> tick_host now due))
      (\<lambda>s. (resend_resign due s, s)))" for el
    by (rule st.keeps_then_do) (simp add: keeps_def)
  from still_at [OF this] show ?thesis
    unfolding keeps_def election_tick_def by blast
qed

lemma keeps_still_gossip_and_election: "keeps (\<lambda>s e t. still s t) (gossip_and_election now)"
proof -
  have "keeps (\<lambda>s e t. still s t) (if due then (\<lambda>s. disseminate_digest now (s\<lparr>ge_next_anti_entropy :=
      time_saturating_add now (gossip_interval_ms (ge_config s))\<rparr>)) else skip)" for due
    using still_trans [OF still_update(3) still_at [OF keeps_still_disseminate]]
    by (simp add: keeps_def skip_def)
  from still_at [OF st.keeps_then_do [OF this keeps_still_election_tick]] show ?thesis
    unfolding keeps_def gossip_and_election_def Let_def by blast
qed

lemma keeps_still_probe_round: "keeps (\<lambda>s e t. still s t) (probe_round now)"
  using still_trans [OF still_update(5) still_at [OF keeps_still_probe]]
  by (simp add: keeps_def probe_round_def)

lemma keeps_still_start: "keeps (\<lambda>s e t. still s t) (start now)"
  unfolding keeps_def
proof
  fix s
  define u where "u = election_start now ((hear_time now s)\<lparr>ge_next_anti_entropy := time_saturating_add now
      (gossip_interval_ms (ge_config s)), ge_next_probe := time_saturating_add now (probe_interval_ms (ge_config s))\<rparr>)"
  have "still s u"
    unfolding u_def hear_time_def
    by (rule still_trans [OF still_trans [OF still_update(11) still_trans [OF still_update(3) still_update(5)]]
          untouched_still]) (rule untouched_election(10))
  moreover have "keeps (\<lambda>s e t. still s t) (then_do (disseminate_digest now) arm_timer)"
    by (intro still_rules keeps_still_disseminate)
  moreover have "start now s = then_do (disseminate_digest now) arm_timer u"
    by (simp add: start_def Let_def u_def hear_time_def)
  ultimately show "still s (snd (start now s))" using still_trans still_at by metis
qed


section \<open>Steps that change members\<close>

text \<open>The nodes a batch of effects names.\<close>

definition named :: "effect list \<Rightarrow> node_id set" where
  "named es = {n. \<exists>k. NodeStateChanged n k \<in> set es}"

lemma named_simps [simp]:
  "named [] = {}" "named (es @ es') = named es \<union> named es'" "named (map (\<lambda>(n, k). NodeStateChanged n k) xs) = fst ` set xs"
  by (force simp: named_def)+

definition tracked :: "group_engine \<Rightarrow> effect list \<Rightarrow> group_engine \<Rightarrow> bool" where
  "tracked s es t \<longleftrightarrow> tracks (named es) s t"

interpretation tr: step_frame tracked
  by unfold_locales (auto simp: tracked_def intro: tracks_trans)

lemma keeps_tracked_still: "keeps (\<lambda>s e t. still s t) f \<Longrightarrow> keeps tracked f"
  by (simp add: keeps_def tracked_def still_tracks)

lemma tracked_at: "keeps tracked f \<Longrightarrow> tracks (named (fst (f s))) s (snd (f s))"
  by (simp add: keeps_def tracked_def)

text \<open>A change of members, then a step that changes none.\<close>

lemma tracked_then: "\<lbrakk>tracks {} s u; keeps tracked f; f u = g s\<rbrakk> \<Longrightarrow> tracked s (fst (g s)) (snd (g s))"
  using tracks_trans [of "{}" s u "named (fst (g s))" "snd (g s)"] tracked_at [of f u] by (simp add: tracked_def)

lemma m_open_cong: "m_entries m' = m_entries m \<Longrightarrow> m_open m' = m_open m"
  by (simp add: m_open_def)

lemma m_open_simps [simp]:
  "m_open (adopt_status st now m) = m_open m" "m_open (arm_verdict s st now m) = m_open m"
  "m_open (observe_version v m) = m_open m" "m_open (suspect_here a b c m) = m_open m"
  "m_open (m\<lparr>m_incarnation := i\<rparr>) = m_open m" "m_open (m\<lparr>m_dead_since := t\<rparr>) = m_open m"
  "m_open (m\<lparr>m_suspect_due := t\<rparr>) = m_open m" "m_open (m\<lparr>m_accuse_at := t\<rparr>) = m_open m"
  "m_open (m\<lparr>m_max_state_version := v\<rparr>) = m_open m" "m_open (member_new i st now) = []"
  by (auto simp: adopt_status_def arm_verdict_def observe_version_def suspect_here_def hear_suspicion_def Let_def
      member_new_def intro!: m_open_cong split: status.split) (simp add: m_open_def fentries_def keys_list_def)

lemma node_entries_open: "fmlookup (ge_members s) n = Some m \<Longrightarrow> node_entries s n = m_open m"
  "fmlookup (ge_members s) n = None \<Longrightarrow> node_entries s n = []"
  by (simp_all add: node_entries_def m_open_def)

lemma tracks_remote_liveness: "tracks {} s (snd (merge_remote_liveness n i st now s))"
  by (auto simp: merge_remote_liveness_def Let_def node_entries_open intro!: tracks_stamp split: option.split)

lemma tracks_refutation: "tracks {} s (snd (apply_refutation r s))"
proof (cases r)
  case (Some ni)
  define t where "t = s\<lparr>ge_incarnation := ni\<rparr>"
  have t: "tracks {} s t" unfolding t_def by (simp add: still_tracks)
  have "tracks {} t (snd (apply_refutation r s))"
    by (auto simp: Some apply_refutation_def Let_def t_def [symmetric] stamp_self_def node_entries_open
        intro!: tracks_stamp split: option.split)
  from tracks_trans [OF t this] show ?thesis by simp
qed (simp add: apply_refutation_def)

lemma keeps_tracked_membership: "keeps tracked (membership_effects c)"
  unfolding membership_effects_def by (intro keeps_tracked_still still_rules)

lemma tracks_digest_lines:
  "tracks {} s (snd (snd (fold (merge_digest_line now) ds (c, r, s))))"
proof (induction ds arbitrary: c r s)
  case (Cons d ds)
  obtain c' r' s' where d: "merge_digest_line now d (c, r, s) = (c', r', s')" by (metis prod_cases3)
  then have "tracks {} s s'"
    using tracks_remote_liveness [of s "nd_node d" "nd_incarnation d" _ now]
    by (auto simp: merge_digest_line_def Let_def case_prod_beta split: option.splits if_splits)
  from tracks_trans [OF this Cons.IH [of s' c' r']] d show ?case by simp
qed simp

lemma keeps_tracked_merge_digest: "keeps tracked (merge_digest_liveness ds now)"
  unfolding keeps_def
proof
  fix s
  define u where "u = snd (snd (fold (merge_digest_line now) ds (False, None, s)))"
  define r where "r = fst (snd (fold (merge_digest_line now) ds (False, None, s)))"
  define c where "c = fst (fold (merge_digest_line now) ds (False, None, s))"
  have "tracks {} s u" unfolding u_def by (rule tracks_digest_lines)
  from tracks_trans [OF this tracks_refutation] have "tracks {} s (snd (apply_refutation r u))" by simp
  then show "tracked s (fst (merge_digest_liveness ds now s)) (snd (merge_digest_liveness ds now s))"
    by (rule tracked_then [OF _ keeps_tracked_membership [of "c \<or> fst (apply_refutation r u)"]])
       (simp add: merge_digest_liveness_def case_prod_beta c_def r_def u_def)
qed


lemma tracks_own_entry:
  "\<exists>ns. fst (merge_own_entry now e (sc, s)) = sc @ ns \<and> tracks (fst ` set ns) s (snd (merge_own_entry now e (sc, s)))"
  by (auto simp: merge_own_entry_def Let_def stamp_self_def intro!: tracks_stamp split: option.split)

lemma tracks_own_echo:
  "\<exists>ns. fst (merge_own_echo es now (sc, s)) = sc @ ns \<and> tracks (fst ` set ns) s (snd (merge_own_echo es now (sc, s)))"
  unfolding merge_own_echo_def
proof (induction es arbitrary: sc s)
  case (Cons e es)
  obtain sc' s' where e: "merge_own_entry now e (sc, s) = (sc', s')" by fastforce
  with tracks_own_entry [of now e sc s] obtain ns where ns: "sc' = sc @ ns" "tracks (fst ` set ns) s s'" by auto
  from Cons.IH [of sc' s'] obtain ks where ks: "fst (fold (merge_own_entry now) es (sc', s')) = sc' @ ks"
    "tracks (fst ` set ks) s' (snd (fold (merge_own_entry now) es (sc', s')))" by blast
  from tracks_trans [OF ns(2) ks(2)] ks(1) ns(1) e show ?case
    by (intro exI [of _ "ns @ ks"]) (simp add: image_Un)
qed simp

lemma merge_entries_shown:
  "m_status (snd (fold (merge_entry r now) ds acc)) = m_status (snd acc)
   \<and> m_status_since (snd (fold (merge_entry r now) ds acc)) = m_status_since (snd acc)"
proof -
  have "m_status (snd (merge_entry r now d acc)) = m_status (snd acc)
      \<and> m_status_since (snd (merge_entry r now d acc)) = m_status_since (snd acc)" for d acc
    by (auto simp: merge_entry_def case_prod_beta Let_def adopt_delta_def put_entry_due_def observe_version_def)
  then show ?thesis by (induction ds arbitrary: acc) simp_all
qed

lemma tracks_peer_delta:
  "tracks (fst ` set (fst (snd (merge_peer_delta d st now s)))) s (snd (snd (merge_peer_delta d st now s)))"
proof (cases "fmlookup (ge_members s) (md_node d)")
  case None
  then show ?thesis
    by (cases "md_entries d") (auto simp: merge_peer_delta_def Let_def node_entries_open intro!: tracks_stamp)
next
  case (Some cur)
  define wins where "wins = superseded_by cur (md_incarnation d) st"
  define m where "m = (if wins
      then arm_verdict s st now (adopt_status st now (cur\<lparr>m_incarnation := md_incarnation d\<rparr>)) else cur)"
  obtain ks m' where f: "fold (merge_entry (reap_after s) now) (md_entries d) ([], m) = (ks, m')" by fastforce
  define m'' where "m'' = observe_version (md_max_version d) m'"
  define moved where "moved \<longleftrightarrow> wins \<or> ks \<noteq> [] \<or> m_max_state_version m'' > m_max_state_version cur"
  define s1 where "s1 = s\<lparr>ge_members := fmupd (md_node d) m'' (ge_members s)\<rparr>"
  have res: "fst (snd (merge_peer_delta d st now s)) = map (\<lambda>k. (md_node d, k)) ks"
    "snd (snd (merge_peer_delta d st now s)) = (if moved then stamp (md_node d) s1 else s1)"
    using Some by (simp_all add: merge_peer_delta_def Let_def wins_def [symmetric] m_def [symmetric] f
        m''_def [symmetric] moved_def s1_def)
  have idle: "\<exists>v. m'' = m\<lparr>m_max_state_version := v\<rparr>" if "ks = []"
    using f merge_entries_idle [of "reap_after s" now "md_entries d" m] that
    by (auto simp: m''_def observe_version_def)
  have "m_open m = node_entries s (md_node d)" by (simp add: m_def node_entries_open(1) [OF Some])
  with idle have entries: "m_open m'' = node_entries s (md_node d) \<or> ks \<noteq> []" by force
  show ?thesis
  proof (cases moved)
    case True
    have "m_open m'' = node_entries s (md_node d) \<or> md_node d \<in> fst ` set (map (\<lambda>k. (md_node d, k)) ks)"
      using entries by (cases ks) auto
    with True show ?thesis unfolding res s1_def by (simp add: tracks_stamp)
  next
    case False
    then have "m = cur" "ks = []" by (simp_all add: moved_def m_def)
    with idle obtain v where "m'' = cur\<lparr>m_max_state_version := v\<rparr>" by blast
    then show ?thesis unfolding res using False by (auto simp: s1_def intro!: tracks_upd [OF Some])
  qed
qed

lemma tracks_deltas:
  "\<exists>ns. fst (snd (fold (merge_delta now) ds (c, sc, r, s))) = sc @ ns
     \<and> tracks (fst ` set ns) s (snd (snd (snd (fold (merge_delta now) ds (c, sc, r, s)))))"
proof (induction ds arbitrary: c sc r s)
  case (Cons d ds)
  obtain c' sc' r' s' where d: "merge_delta now d (c, sc, r, s) = (c', sc', r', s')" by (metis prod_cases4)
  have "\<exists>ns. sc' = sc @ ns \<and> tracks (fst ` set ns) s s'"
  proof (cases "md_node d = ge_local s \<and> status_from_wire (md_status d) \<noteq> None")
    case True
    with d have "(sc', s') = merge_own_echo (md_entries d) now (sc, s)"
      by (auto simp: merge_delta_def Let_def case_prod_beta split: option.splits)
    with tracks_own_echo [of "md_entries d" now sc s] show ?thesis by (metis fst_conv snd_conv)
  next
    case False
    with d tracks_peer_delta [of d _ now s] show ?thesis
      by (auto simp: merge_delta_def Let_def case_prod_beta split: option.splits)
  qed
  then obtain ns where ns: "sc' = sc @ ns" "tracks (fst ` set ns) s s'" by blast
  from Cons.IH [of c' sc' r' s'] obtain ks where
    ks: "fst (snd (fold (merge_delta now) ds (c', sc', r', s'))) = sc' @ ks"
    "tracks (fst ` set ks) s' (snd (snd (snd (fold (merge_delta now) ds (c', sc', r', s')))))" by blast
  from tracks_trans [OF ns(2) ks(2)] ks(1) ns(1) d show ?case
    by (intro exI [of _ "ns @ ks"]) (simp add: image_Un)
qed simp

lemma keeps_tracked_merge_members: "keeps tracked (merge_members ds now)"
  unfolding keeps_def
proof
  fix s
  obtain c sc r u where f: "fold (merge_delta now) ds (False, [], None, s) = (c, sc, r, u)" by (metis prod_cases4)
  define t where "t = snd (apply_refutation r u)"
  have "tracks (fst ` set sc) s u" using tracks_deltas [of now ds False "[]" None s] f by auto
  from tracks_trans [OF this tracks_refutation] have t: "tracks (fst ` set sc) s t" by (simp add: t_def)
  define b where "b = (c \<or> fst (apply_refutation r u))"
  have "merge_members ds now s = (fst (membership_effects b t) @ map (\<lambda>(n, k). NodeStateChanged n k) sc,
      snd (membership_effects b t))"
    by (simp add: merge_members_def f case_prod_beta then_do_def emit_def b_def t_def)
  moreover have "tracks (named (fst (membership_effects b t))) t (snd (membership_effects b t))"
    by (rule tracked_at [OF keeps_tracked_membership])
  ultimately show "tracked s (fst (merge_members ds now s)) (snd (merge_members ds now s))"
    using tracks_trans [OF t] by (simp add: tracked_def) (metis Un_commute)
qed


lemma keeps_tracked_on_digest: "keeps tracked (on_digest from f now)"
proof -
  have refresh: "keeps tracked (silently (fold (\<lambda>d. refresh_content_hash now (nd_node d)) ds))" for ds
    by (rule keeps_tracked_still) (simp add: keeps_def silently_def still_fold)
  have "keeps tracked (then_do (merge_digest_liveness ds now)
      (then_do (silently (fold (\<lambda>d. refresh_content_hash now (nd_node d)) ds))
        (then_do (answer_doubt from b i now) (then_do (merge_metadata ms) (exchange from ds now)))))" for ds b i ms
    by (intro tr.keeps_then_do keeps_tracked_merge_digest refresh)
       (simp_all add: keeps_tracked_still keeps_still_gossip keeps_still_metadata keeps_still_exchange)
  then show ?thesis unfolding keeps_def on_digest_def by blast
qed

lemma keeps_tracked_on_delta: "keeps tracked (on_delta from f now)"
proof -
  have "tracked s (es @ fst ((if b then send_delta_request from wants else skip) t))
      (snd ((if b then send_delta_request from wants else skip) t))" if "tracked s es t" for s es t b wants
  proof (rule tr.frame_trans [OF that])
    have "keeps tracked (if b then send_delta_request from wants else skip)"
      by (intro keeps_tracked_still still_rules)
    then show "tracked t (fst ((if b then send_delta_request from wants else skip) t))
        (snd ((if b then send_delta_request from wants else skip) t))" by (simp add: keeps_def)
  qed
  moreover have "tracked s (fst (merge_members (fr_members f) now s)) (snd (merge_members (fr_members f) now s))" for s
    using keeps_tracked_merge_members by (simp add: keeps_def)
  ultimately show ?thesis
    unfolding keeps_def by (simp add: on_delta_def Let_def case_prod_beta then_do_def emit_def)
qed

lemma keeps_tracked_newcomer:
  "keeps tracked (learn_claimant c now)" "keeps tracked (add_peer n)"
proof -
  have new: "tracks {} s (stamp n (s\<lparr>ge_members := fmupd n (member_new 0 Alive now) (ge_members s)\<rparr>))"
    if "n |\<notin>| fmdom (ge_members s)" for n now s
    using that by (intro tracks_stamp) (simp add: node_entries_open fmdom_notD)
  have after: "tracked s (fst (g u)) (snd (g u))" if "tracks {} s u" "keeps tracked g" for s u g
    using that tracks_trans [of "{}" s u "named (fst (g u))" "snd (g u)"] by (simp add: tracked_def tracked_at)
  have a: "keeps tracked (then_do (emit [MembershipChanged])
      (then_do recompute_coordinator (silently nudge_anti_entropy_now)))"
    by (intro keeps_tracked_still still_rules)
  show "keeps tracked (learn_claimant c now)"
    using after [OF new keeps_tracked_membership] by (simp add: keeps_def learn_claimant_def Let_def tr.frame_refl)
  show "keeps tracked (add_peer n)"
    using after [OF new a] by (simp add: keeps_def add_peer_def Let_def tr.frame_refl)
qed

lemma keeps_tracked_on_lead: "keeps tracked (on_lead from f now)"
proof -
  have u: "keeps tracked g" if "\<And>s. untouched s (snd (g s))" for g
    by (intro keeps_tracked_still keeps_still_untouched that)
  have "keeps tracked (on_lead_claim from e c now)" for e c
    unfolding on_lead_claim_def
    by (intro tr.keeps_then_do keeps_tracked_newcomer u) (simp_all add: silently_def)
  moreover have "keeps tracked (on_lead_state from e h)" "keeps tracked (on_lead_grant e c g)"
    "keeps tracked (on_lead_resign from e c now)" for e h c g
    by (rule u, simp)+
  ultimately show ?thesis
    by (simp add: keeps_def on_lead_def tr.frame_refl split: option.split lead_body.split)
qed

lemma keeps_tracked_dispatch: "keeps tracked (dispatch from f now)"
proof -
  have "keeps (\<lambda>s e t. still s t) (on_ack from)" "keeps (\<lambda>s e t. still s t) (on_ping_req from t)" for t
    by (auto simp: on_ack_def on_ping_req_def Let_def untouched_def clear_pending_if_def
        intro!: keeps_still_untouched split: option.split)
  then have "keeps tracked (on_ack from)" "keeps tracked (on_ping_req from t)" for t
    by (intro keeps_tracked_still, simp)+
  moreover have "keeps tracked (on_delta_request from f now)"
    using keeps_still_gossip(2) by (intro keeps_tracked_still) (simp add: keeps_def on_delta_request_def)
  moreover have "tracked s [] (clear_pending_if n s)" "tracked s [send_probe s from Ack None] s" for s n
    by (simp_all add: tracked_def still_tracks untouched_still)
  ultimately show ?thesis
    using keeps_tracked_on_digest keeps_tracked_on_delta keeps_tracked_on_lead
    unfolding keeps_def by (auto simp: dispatch_def tr.frame_refl split: kind.split option.split)
qed

lemma keeps_tracked_on_message: "keeps tracked (on_message from b now)"
  unfolding keeps_def
proof
  fix s
  have h: "tracked s [] (hear_time now s)" by (simp add: tracked_def still_tracks untouched_still)
  have "tracked (hear_time now s) (fst (dispatch from f now (hear_time now s)))
      (snd (dispatch from f now (hear_time now s)))" for f
    using keeps_tracked_dispatch by (simp add: keeps_def)
  from tr.frame_trans [OF h this] h show "tracked s (fst (on_message from b now s)) (snd (on_message from b now s))"
    by (simp add: on_message_def Let_def split: option.split)
qed


lemma tracked_after: "\<lbrakk>tracks {} s u; keeps tracked g\<rbrakk> \<Longrightarrow> tracked s (fst (g u)) (snd (g u))"
  using tracks_trans [of "{}" s u "named (fst (g u))" "snd (g u)"] by (simp add: tracked_def tracked_at)

lemma keeps_tracked_suspect: "keeps tracked (suspect target now)"
  unfolding keeps_def
proof
  fix s
  show "tracked s (fst (suspect target now s)) (snd (suspect target now s))"
  proof (cases "fmlookup (ge_members s) target")
    case (Some m)
    define a where "a = suspect_here now (suspect_timeout_ms (ge_config s)) (probe_timeout_ms (ge_config s))
      (adopt_status Suspect now m)"
    define b where "b = (suspect_here now (suspect_timeout_ms (ge_config s)) (probe_timeout_ms (ge_config s)) m)
      \<lparr>m_suspect_due := min (m_suspect_due m) (time_saturating_add now (suspect_timeout_ms (ge_config s)))\<rparr>"
    have a: "tracks {} s (stamp target (s\<lparr>ge_members := fmupd target a (ge_members s)\<rparr>))"
      by (rule tracks_stamp) (simp add: a_def node_entries_open(1) [OF Some])
    have "m_status b = m_status m" "m_status_since b = m_status_since m" "m_changed_at b = m_changed_at m" "m_open b = m_open m"
      by (simp_all add: b_def suspect_here_def m_open_def)
    then have b: "tracks {} s (reindex target (s\<lparr>ge_members := fmupd target b (ge_members s)\<rparr>))"
      by (intro tracks_reindex tracks_upd [OF Some]) simp_all
    have "keeps tracked (then_do (emit [MembershipChanged]) (then_do recompute_coordinator
        (then_do (liveness_notice target target now) (silently nudge_anti_entropy))))"
      by (intro keeps_tracked_still still_rules)
    from tracked_after [OF a this] tracked_after [OF b keeps_tracked_still [OF keeps_still_gossip(1)]] Some
    show ?thesis by (simp add: suspect_def Let_def a_def b_def tr.frame_refl)
  qed (simp add: suspect_def Let_def tr.frame_refl)
qed

lemma keeps_tracked_escalate: "keeps tracked (escalate_indirect target now)"
  unfolding keeps_def
proof
  fix s
  have r: "still s ((snd (probe_ring s))\<lparr>ge_rng := x, ge_pending := p\<rparr>)" for x p
    by (rule still_trans [OF still_caches(1) still_trans [OF still_update(8) still_update(9)]])
  have "tracked s (fst (suspect target now ((snd (probe_ring s))\<lparr>ge_rng := x, ge_pending := None\<rparr>)))
      (snd (suspect target now ((snd (probe_ring s))\<lparr>ge_rng := x, ge_pending := None\<rparr>)))" for x
    by (rule tracked_after [OF still_tracks [OF r] keeps_tracked_suspect])
  with r show "tracked s (fst (escalate_indirect target now s)) (snd (escalate_indirect target now s))"
    by (simp add: escalate_indirect_def Let_def case_prod_beta) (simp add: tracked_def still_tracks)
qed

lemma keeps_tracked_expire_probe: "keeps tracked (expire_probe now)"
  using keeps_tracked_escalate tracked_after [OF still_tracks [OF still_update(9)] keeps_tracked_suspect]
  unfolding keeps_def by (simp add: expire_probe_def tr.frame_refl split: option.split probe_phase.split)

lemma keeps_tracked_accuse: "keeps tracked (accuse now node)"
  unfolding keeps_def
proof
  fix s :: group_engine
  define u where "u = (case fmlookup (ge_members s) node of None \<Rightarrow> s
     | Some m \<Rightarrow> s\<lparr>ge_members := fmupd node (m\<lparr>m_accuse_at := time_saturating_add now
         (if m_suspected_here m then probe_timeout_ms (ge_config s) else gossip_interval_ms (ge_config s))\<rparr>) (ge_members s)\<rparr>)"
  have "tracks {} s (reindex node u)"
    unfolding u_def by (rule tracks_reindex) (auto intro!: tracks_upd split: option.split)
  from tracked_after [OF this keeps_tracked_still [OF keeps_still_gossip(1)]]
  show "tracked s (fst (accuse now node s)) (snd (accuse now node s))"
    by (simp add: accuse_def Let_def u_def cong: option.case_cong)
qed

lemma tracks_declare_dead: "tracks {} s (fold (declare_dead now) ns s)"
proof (induction ns arbitrary: s)
  case (Cons n ns)
  have "tracks {} s (declare_dead now n s)"
    by (auto simp: declare_dead_def Let_def node_entries_open intro!: tracks_stamp split: option.split)
  from tracks_trans [OF this Cons.IH] show ?case by simp
qed simp

lemma keeps_tracked_reap_suspects: "keeps tracked (reap_suspects now)"
proof -
  have "keeps tracked (silently (fold (declare_dead now) dead))" for dead
    by (simp add: keeps_def silently_def tracked_def tracks_declare_dead)
  then have "keeps tracked (then_do (for_each (accuse now) accused) (if dead = [] then skip
      else then_do (silently (fold (declare_dead now) dead)) (then_do (emit [MembershipChanged])
        (then_do recompute_coordinator (then_do (for_each (\<lambda>node. liveness_notice node node now) dead)
          (silently nudge_anti_entropy))))))" for accused dead
    by (intro tr.keeps_then_do tr.keeps_for_each keeps_tracked_accuse tr.keeps_if tr.keeps_skip)
       (simp_all add: keeps_tracked_still keeps_still_simple keeps_still_gossip)
  then show ?thesis unfolding keeps_def reap_suspects_def Let_def by blast
qed

section \<open>Forgetting\<close>

definition listed :: "nat \<Rightarrow> node_id \<Rightarrow> group_engine \<Rightarrow> bool" where
  "listed c n s \<longleftrightarrow> c < snd (forgotten s) \<or> (\<exists>at. c < at \<and> fmlookup (fst (forgotten s)) at = Some n)"

definition forgotten_ok :: "group_engine \<Rightarrow> bool" where
  "forgotten_ok s \<longleftrightarrow> snd (forgotten s) \<le> ge_change_clock s
     \<and> (\<forall>at n. fmlookup (fst (forgotten s)) at = Some n \<longrightarrow> snd (forgotten s) < at \<and> at \<le> ge_change_clock s)"

lemma forgotten_ok_tracks: "forgotten_ok s \<Longrightarrow> tracks K s t \<Longrightarrow> forgotten_ok t"
  unfolding forgotten_ok_def tracks_def by force

definition pop :: "(nat, node_id) fmap \<times> nat \<Rightarrow> (nat, node_id) fmap \<times> nat" where
  "pop x = (case keys_list (fst x) of [] \<Rightarrow> x
     | at # _ \<Rightarrow> if fcard (fmdom (fst x)) > FORGOTTEN_KEPT then (fmdrop at (fst x), at) else x)"

lemma pop_forgotten_pop:
  "(ix_forgotten (pop_forgotten ix), ix_forgotten_floor (pop_forgotten ix)) = pop (ix_forgotten ix, ix_forgotten_floor ix)"
  by (simp add: pop_forgotten_def pop_def split: list.split)

lemma forgotten_forget:
  assumes "fmlookup (ge_members s) n = Some m"
  shows "forgotten (forget n s) = pop (fmupd (Suc (ge_change_clock s)) n (fst (forgotten s)), snd (forgotten s))"
    and "ge_change_clock (forget n s) = Suc (ge_change_clock s)"
proof -
  have l: "ge_change_clock (live_set_changed n b t) = ge_change_clock t"
    "ge_index (live_set_changed n b t) = ge_index t" for b t
    by (simp_all add: live_set_changed_def Let_def)
  show "ge_change_clock (forget n s) = Suc (ge_change_clock s)"
    using assms by (simp add: forget_def Let_def l split: option.split)
  show "forgotten (forget n s) = pop (fmupd (Suc (ge_change_clock s)) n (fst (forgotten s)), snd (forgotten s))"
    using assms by (simp add: forget_def Let_def l forgotten_def unstamp_def pop_forgotten_pop split: option.split)
qed


definition log_ok :: "nat \<Rightarrow> (nat, node_id) fmap \<times> nat \<Rightarrow> bool" where
  "log_ok c x \<longleftrightarrow> snd x \<le> c \<and> (\<forall>at n. fmlookup (fst x) at = Some n \<longrightarrow> snd x < at \<and> at \<le> c)"

lemma forgotten_ok_log: "forgotten_ok s \<longleftrightarrow> log_ok (ge_change_clock s) (forgotten s)"
  by (simp add: forgotten_ok_def log_ok_def)

lemma pop_cases:
  obtains "pop x = x" | k where "pop x = (fmdrop k (fst x), k)" "k |\<in>| fmdom (fst x)"
    "\<And>at n. fmlookup (fst x) at = Some n \<Longrightarrow> k \<le> at"
proof (cases "keys_list (fst x)")
  case Nil
  then show ?thesis using that(1) by (simp add: pop_def)
next
  case (Cons k ks)
  have "k |\<in>| fmdom (fst x)" using Cons set_keys_list [of "fst x"] by (metis list.set_intros(1))
  moreover have "k \<le> at" if "fmlookup (fst x) at = Some n" for at n
  proof -
    from that have "at \<in> set (keys_list (fst x))" by (simp add: fmlookup_dom_iff)
    with sorted_keys_list [of "fst x"] Cons show ?thesis by auto
  qed
  ultimately show ?thesis using that Cons by (cases "fcard (fmdom (fst x)) > FORGOTTEN_KEPT") (simp_all add: pop_def)
qed

lemma log_ok_pop: "log_ok c x \<Longrightarrow> log_ok c (pop x)"
proof (cases x rule: pop_cases)
  case (2 k)
  assume ok: "log_ok c x"
  from 2(2) obtain n where "fmlookup (fst x) k = Some n" by (auto simp: fmlookup_dom_iff)
  with ok have "k \<le> c" by (auto simp: log_ok_def)
  with ok 2 show ?thesis by (auto simp: log_ok_def order_le_less)
qed simp

lemma log_pop_listed:
  assumes "log_ok d x" "c < snd x \<or> (\<exists>at. c < at \<and> fmlookup (fst x) at = Some n)"
  shows "c < snd (pop x) \<or> (\<exists>at. c < at \<and> fmlookup (fst (pop x)) at = Some n)"
proof (cases x rule: pop_cases)
  case (2 k)
  from 2(2) obtain n' where "fmlookup (fst x) k = Some n'" by (auto simp: fmlookup_dom_iff)
  with assms(1) have "snd x < k" by (auto simp: log_ok_def)
  with assms(2) 2 show ?thesis by fastforce
qed (use assms in simp)

lemma forget_step:
  assumes "forgotten_ok s"
  shows "forgotten_ok (forget n s)"
    and "ge_change_clock s \<le> ge_change_clock (forget n s)"
    and "listed c k s \<Longrightarrow> listed c k (forget n s)"
    and "face s n \<noteq> None \<Longrightarrow> listed (ge_change_clock s) n (forget n s)"
    and "face (forget n s) = (face s)(n := None)"
proof -
  show "face (forget n s) = (face s)(n := None)" by (auto simp: face_def fun_eq_iff)
  let ?x = "(fmupd (Suc (ge_change_clock s)) n (fst (forgotten s)), snd (forgotten s))"
  have "forgotten_ok (forget n s) \<and> ge_change_clock s \<le> ge_change_clock (forget n s)
    \<and> (listed c k s \<longrightarrow> listed c k (forget n s)) \<and> (face s n \<noteq> None \<longrightarrow> listed (ge_change_clock s) n (forget n s))"
  proof (cases "fmlookup (ge_members s) n")
    case None
    with assms show ?thesis by (simp add: forget_def face_def)
  next
    case (Some m)
    note f = forgotten_forget [OF Some]
    have x: "log_ok (Suc (ge_change_clock s)) ?x"
      using assms by (auto simp: forgotten_ok_log log_ok_def le_SucI)
    have "listed c k (forget n s)" if "listed c k s"
    proof -
      have "c < snd ?x \<or> (\<exists>at. c < at \<and> fmlookup (fst ?x) at = Some k)"
        using that assms by (fastforce simp: listed_def forgotten_ok_def)
      from log_pop_listed [OF x this] show ?thesis by (simp add: listed_def f)
    qed
    moreover have "ge_change_clock s < snd ?x \<or> (\<exists>at. ge_change_clock s < at \<and> fmlookup (fst ?x) at = Some n)"
      by (intro disjI2 exI [of _ "Suc (ge_change_clock s)"]) simp
    from log_pop_listed [OF x this] have "listed (ge_change_clock s) n (forget n s)" by (simp add: listed_def f)
    ultimately show ?thesis
      using log_ok_pop [OF x] by (simp add: forgotten_ok_log f)
  qed
  then show "forgotten_ok (forget n s)" "ge_change_clock s \<le> ge_change_clock (forget n s)"
    "listed c k s \<Longrightarrow> listed c k (forget n s)" "face s n \<noteq> None \<Longrightarrow> listed (ge_change_clock s) n (forget n s)" by auto
qed

text \<open>Some members go, each of them listed; the others stay as they are.\<close>

definition forgets :: "group_engine \<Rightarrow> group_engine \<Rightarrow> bool" where
  "forgets s t \<longleftrightarrow> ge_change_clock s \<le> ge_change_clock t \<and> forgotten_ok t
     \<and> (\<forall>n. face t n = face s n \<or> (face t n = None \<and> listed (ge_change_clock s) n t))
     \<and> (\<forall>c n. listed c n s \<longrightarrow> listed c n t)"

lemma listed_mono: "listed d n t \<Longrightarrow> c \<le> d \<Longrightarrow> listed c n t"
  by (auto simp: listed_def)

lemma forgets_fold: "forgotten_ok s \<Longrightarrow> forgets s (fold forget ns s)"
proof (induction ns arbitrary: s)
  case (Cons n ns)
  note f = forget_step [OF Cons.prems, where n = n]
  note t = Cons.IH [OF f(1)]
  define u where "u = fold forget ns (forget n s)"
  have "face u k = face s k \<or> (face u k = None \<and> listed (ge_change_clock s) k u)" for k
  proof (cases "k = n")
    case True
    have "face u n = face (forget n s) n \<or> face u n = None" using t by (auto simp: forgets_def u_def)
    with f(5) have "face u n = None" by auto
    moreover have "face s n \<noteq> None \<Longrightarrow> listed (ge_change_clock s) n u"
      using f(4) t by (auto simp: forgets_def u_def)
    ultimately show ?thesis using True by (cases "face s n") auto
  next
    case False
    have "face u k = face (forget n s) k \<or> (face u k = None \<and> listed (ge_change_clock (forget n s)) k u)"
      using t unfolding forgets_def u_def by blast
    with False f(5) have "face u k = face s k \<or> (face u k = None \<and> listed (ge_change_clock (forget n s)) k u)"
      by simp
    with listed_mono f(2) show ?thesis by blast
  qed
  with t f(2,3) show ?case by (auto simp: forgets_def u_def)
qed (simp add: forgets_def)

lemma forgets_reap_dead: "forgotten_ok s \<Longrightarrow> forgets s (snd (reap_dead now s)) \<and> named (fst (reap_dead now s)) = {}"
  by (simp add: reap_dead_def Let_def forgets_fold named_def) (simp add: forgets_def)


section \<open>What a mirror is told\<close>

text \<open>A step that keeps the set of members.\<close>

definition settled :: "group_engine \<Rightarrow> effect list \<Rightarrow> group_engine \<Rightarrow> bool" where
  "settled s es t \<longleftrightarrow> tracks (named es) s t \<and> (\<forall>n. face t n = None \<longleftrightarrow> face s n = None)"

interpretation sd: step_frame settled
  by unfold_locales (auto simp: settled_def intro: tracks_trans)

lemma keeps_settled_still: "keeps (\<lambda>s e t. still s t) f \<Longrightarrow> keeps settled f"
  by (auto simp: keeps_def settled_def still_tracks) (auto simp: still_def)

lemma fentries_drop: "fentries (fmdrop k m) = filter (\<lambda>p. fst p \<noteq> k) (fentries m)"
proof -
  have "keys_list (fmdrop k m) = filter (\<lambda>x. x \<noteq> k) (keys_list m)"
    by (intro sorted_distinct_set_unique) (auto simp: sorted_wrt_filter)
  then show ?thesis by (auto simp: fentries_def filter_map comp_def intro!: map_cong)
qed

lemma remove_keys_open:
  "\<forall>p \<in> set (fst (remove_keys ks es)). se_tombstone (snd p) \<Longrightarrow>
     filter (\<lambda>p. \<not> se_tombstone (snd p)) (fentries (snd (remove_keys ks es))) =
     filter (\<lambda>p. \<not> se_tombstone (snd p)) (fentries es)"
proof (induction ks arbitrary: es)
  case (Cons k ks)
  show ?case
  proof (cases "fmlookup es k")
    case (Some e)
    with Cons.prems have "se_tombstone e" by (simp add: case_prod_beta)
    have keep: "\<not> se_tombstone e' \<longrightarrow> k' \<noteq> k" if "(k', e') \<in> set (fentries es)" for k' e'
      using that Some \<open>se_tombstone e\<close> by (auto simp: in_fentries_iff)
    then have "filter (\<lambda>p. \<not> se_tombstone (snd p)) (fentries (fmdrop k es)) =
        filter (\<lambda>p. \<not> se_tombstone (snd p)) (fentries es)"
      unfolding fentries_drop filter_filter by (intro filter_cong) (use keep in fastforce)+
    with Some Cons show ?thesis by (simp add: case_prod_beta)
  qed (use Cons in simp)
qed simp

lemma keeps_settled_reap_member: "keeps settled (reap_member_entries now node)"
  unfolding keeps_def
proof
  fix s
  show "settled s (fst (reap_member_entries now node s)) (snd (reap_member_entries now node s))"
  proof (cases "fmlookup (ge_members s) node")
    case (Some m)
    obtain due m' where t: "take_due_entries now m = (due, m')" by fastforce
    define K where "K = named (map (\<lambda>(key, _). NodeStateChanged node key) (filter (\<lambda>(_, e). \<not> se_tombstone e) due))"
    have same: "m_status m' = m_status m" "m_status_since m' = m_status_since m" "m_changed_at m' = m_changed_at m"
      using t by (auto simp: take_due_entries_def case_prod_beta Let_def)
    have "m_open m' = m_open m \<or> node \<in> K"
    proof (cases "\<forall>p \<in> set due. se_tombstone (snd p)")
      case True
      have "due = fst (remove_keys (due_keys now (m_entry_dues m)) (m_entries m))"
        "m_entries m' = snd (remove_keys (due_keys now (m_entry_dues m)) (m_entries m))"
        using t by (auto simp: take_due_entries_def case_prod_beta Let_def)
      with remove_keys_open [of "due_keys now (m_entry_dues m)" "m_entries m"] True show ?thesis
        by (simp add: m_open_def case_prod_unfold)
    next
      case False
      then show ?thesis by (force simp: K_def named_def)
    qed
    then have "tracks K s (s\<lparr>ge_members := fmupd node m' (ge_members s)\<rparr>)"
      by (rule tracks_upd [OF Some same])
    then have "settled s (map (\<lambda>(key, _). NodeStateChanged node key) (filter (\<lambda>(_, e). \<not> se_tombstone e) due))
        (s\<lparr>ge_members := fmupd node m' (ge_members s)\<rparr>)"
      using Some by (auto simp: settled_def K_def face_upd face_def)
    moreover from this tracks_reindex have
      "settled s (map (\<lambda>(key, _). NodeStateChanged node key) (filter (\<lambda>(_, e). \<not> se_tombstone e) due))
        (reindex node (s\<lparr>ge_members := fmupd node m' (ge_members s)\<rparr>))"
      by (auto simp: settled_def)
    ultimately show ?thesis using Some t by (auto simp: reap_member_entries_def Let_def)
  qed (simp add: reap_member_entries_def sd.frame_refl)
qed

lemma keeps_settled_author: "keeps settled (author_entry key v ttl tomb)"
  unfolding keeps_def
proof
  fix s
  show "settled s (fst (author_entry key v ttl tomb s)) (snd (author_entry key v ttl tomb s))"
  proof (cases "fmlookup (ge_members s) (ge_local s)")
    case (Some m)
    define m' where "m' = put_entry_due key (entry_adopted (sat_add (m_max_state_version m) 1) v ttl tomb (ge_now_hint s))
      (reap_after s) (m\<lparr>m_max_state_version := sat_add (m_max_state_version m) 1\<rparr>)"
    define a where "a = s\<lparr>ge_authored := finsert key (ge_authored s)\<rparr>"
    define u where "u = nudge_anti_entropy_now (stamp (ge_local s) (a\<lparr>ge_members := fmupd (ge_local s) m' (ge_members a)\<rparr>))"
    have a: "face a = face s" "ge_change_clock a = ge_change_clock s" "forgotten a = forgotten s"
      using still_update(12) [of s] by (simp_all add: a_def still_def)
    have "tracks {ge_local s} a (stamp (ge_local s) (a\<lparr>ge_members := fmupd (ge_local s) m' (ge_members a)\<rparr>))"
      by (rule tracks_stamp) simp
    from tracks_trans [OF this untouched_tracks [OF untouched_simps(2), of "{}"]]
    have "tracks {ge_local s} s u" by (simp add: u_def tracks_def a)
    moreover have "face u n = None \<longleftrightarrow> face s n = None" for n
      using Some untouched_still [OF untouched_simps(2)]
      by (auto simp: u_def still_def face_stamp face_upd a) (simp add: face_def face_of_def)
    ultimately have "settled s [NodeStateChanged (ge_local s) key] u" by (auto simp: settled_def named_def)
    moreover have "settled u (fst (eager_push u)) (snd (eager_push u))"
      using keeps_settled_still [OF keeps_still_eager_push] by (simp add: keeps_def)
    moreover have "author_entry key v ttl tomb s =
        ([NodeStateChanged (ge_local s) key] @ fst (eager_push u), snd (eager_push u))"
    proof -
      have eq: "a\<lparr>ge_members := fmupd (ge_local s) m' (ge_members a)\<rparr> =
          s\<lparr>ge_members := fmupd (ge_local s) m' (ge_members s), ge_authored := finsert key (ge_authored s)\<rparr>"
        by (simp add: a_def)
      have "u = nudge_anti_entropy_now (stamp_self (s\<lparr>ge_members := fmupd (ge_local s) m' (ge_members s),
          ge_authored := finsert key (ge_authored s)\<rparr>))"
        unfolding u_def eq stamp_self_def by simp
      moreover have "ge_local (nudge_anti_entropy_now (stamp_self x)) = ge_local x" for x
        using ge_group_core [OF core_stamp(2) [of x]] by (simp add: nudge_anti_entropy_now_def)
      ultimately show ?thesis
        using Some by (simp add: author_entry_def Let_def then_do_def emit_def case_prod_beta m'_def)
    qed
    ultimately show ?thesis using sd.frame_trans [of s "[NodeStateChanged (ge_local s) key]" u] by simp
  qed (simp add: author_entry_def sd.frame_refl)
qed


text \<open>
  What a mirror of \<open>s\<close> has to know to follow the engine to \<open>t\<close>: the members stamped since, the nodes named,
  and who is gone.
\<close>

definition feeds :: "node_id set \<Rightarrow> group_engine \<Rightarrow> group_engine \<Rightarrow> bool" where
  "feeds K s t \<longleftrightarrow> forgotten_ok t \<and> (\<forall>n. moved K (ge_change_clock s) n (face s n) (face t n)
     \<or> (face t n = None \<and> listed (ge_change_clock s) n t))"

lemma feeds_tracks: "forgotten_ok s \<Longrightarrow> tracks K s t \<Longrightarrow> feeds K s t"
  by (simp add: feeds_def forgotten_ok_tracks) (simp add: tracks_def)

lemma feeds_phases:
  assumes "forgotten_ok s" "tracks K s u" "forgets u v" "settled v es t"
  shows "feeds (K \<union> named es) s t"
  unfolding feeds_def
proof (intro conjI allI)
  have c: "ge_change_clock s \<le> ge_change_clock u" "ge_change_clock u \<le> ge_change_clock v"
    and f: "forgotten t = forgotten v"
    using assms(2-4) by (simp_all add: tracks_def forgets_def settled_def)
  show "forgotten_ok t"
    using assms(3,4) forgotten_ok_tracks by (auto simp: forgets_def settled_def)
  fix n
  have su: "moved K (ge_change_clock s) n (face s n) (face u n)" using assms(2) by (simp add: tracks_def)
  have vt: "moved (named es) (ge_change_clock v) n (face v n) (face t n)" using assms(4) by (simp add: settled_def tracks_def)
  have none: "face t n = None \<longleftrightarrow> face v n = None" using assms(4) by (simp add: settled_def)
  show "moved (K \<union> named es) (ge_change_clock s) n (face s n) (face t n) \<or> (face t n = None \<and> listed (ge_change_clock s) n t)"
  proof (cases "face v n = face u n")
    case True
    with moved_trans [OF su, of "named es" "ge_change_clock v" "face t n"] vt c show ?thesis by simp
  next
    case False
    with assms(3) have "face v n = None" "listed (ge_change_clock u) n v" by (auto simp: forgets_def)
    with none f listed_mono [OF _ c(1)] show ?thesis by (simp add: listed_def)
  qed
qed

lemma keeps_tracked_settled: "keeps settled f \<Longrightarrow> keeps tracked f"
  by (simp add: keeps_def tracked_def settled_def)

lemma tick_phases:
  assumes "forgotten_ok s"
  obtains e1 u v e3 where "tracks (named e1) s u" "forgets u v" "settled v e3 (snd (on_tick now s))"
    "named (fst (on_tick now s)) = named e1 \<union> named e3"
proof -
  define s0 where "s0 = (hear_time now s)\<lparr>ge_stats := (ge_stats (hear_time now s))
    \<lparr>ns_ticks := ns_ticks (ge_stats (hear_time now s)) + 1\<rparr>\<rparr>"
  have s0: "tracks {} s s0"
    unfolding s0_def by (rule still_tracks) (rule still_trans [OF untouched_still still_update(14)], simp)
  define f where "f = then_do (expire_probe now) (reap_suspects now)"
  define g where "g = then_do (reap_entries now) (then_do (probe_round now) (then_do (gossip_and_election now) arm_timer))"
  define u where "u = snd (f s0)"
  define v where "v = snd (reap_dead now u)"
  have split: "on_tick now s = (fst (f s0) @ fst (reap_dead now u) @ fst (g v), snd (g v))"
  proof -
    have "on_tick now s = then_do (expire_probe now) (then_do (reap_suspects now) (then_do (reap_dead now)
        (then_do (reap_entries now) (then_do (probe_round now) (then_do (gossip_and_election now) arm_timer))))) s0"
      by (simp add: on_tick_def Let_def s0_def)
    then show ?thesis by (simp add: f_def g_def u_def v_def then_do_def case_prod_beta)
  qed
  have "keeps tracked f"
    unfolding f_def by (intro tr.keeps_then_do keeps_tracked_expire_probe keeps_tracked_reap_suspects)
  from tracks_trans [OF s0 tracked_at [OF this]] have su: "tracks (named (fst (f s0))) s u" by (simp add: u_def)
  have "forgets u v" "named (fst (reap_dead now u)) = {}"
    unfolding v_def using forgets_reap_dead [OF forgotten_ok_tracks [OF assms su]] by blast+
  moreover have "keeps settled g"
  proof -
    have re: "keeps settled (reap_entries now)"
      using sd.keeps_for_each [of "reap_member_entries now", OF keeps_settled_reap_member] by (simp add: keeps_def reap_entries_def)
    show ?thesis
      unfolding g_def by (intro sd.keeps_then_do re keeps_settled_still [OF keeps_still_probe_round]
          keeps_settled_still [OF keeps_still_gossip_and_election] keeps_settled_still [OF keeps_still_simple(3)])
  qed
  then have "settled v (fst (g v)) (snd (g v))" by (simp add: keeps_def)
  ultimately show thesis using that [OF su] split by (metis fst_conv named_simps(2) snd_conv sup_bot_left)
qed

lemma feeds_on_tick:
  assumes "forgotten_ok s"
  shows "feeds (named (fst (on_tick now s))) s (snd (on_tick now s))"
proof -
  obtain e1 u v e3 where "tracks (named e1) s u" "forgets u v" "settled v e3 (snd (on_tick now s))"
    "named (fst (on_tick now s)) = named e1 \<union> named e3"
    using tick_phases [OF assms] by blast
  with feeds_phases [OF assms] show ?thesis by metis
qed

lemma feeds_tick_then:
  assumes "forgotten_ok s" "keeps settled g" "on_tick now s = (es, t)" "g t = (es', t')"
  shows "feeds (named (es @ es')) s t'"
proof -
  obtain e1 u v e3 where p: "tracks (named e1) s u" "forgets u v" "settled v e3 t" "named es = named e1 \<union> named e3"
    using tick_phases [OF assms(1), of now] assms(3) by (metis fst_conv snd_conv)
  have "settled t es' t'" using assms(2,4) by (metis sd.keepsD)
  from feeds_phases [OF assms(1) p(1,2) sd.frame_trans [OF p(3) this]] p(4) show ?thesis by (simp add: Un_assoc)
qed

lemma keeps_tracked_leave: "keeps tracked leave"
proof -
  have "keeps (\<lambda>s e t. untouched s t) (then_do (case r of Host \<Rightarrow> demote_host
      | Claimant \<Rightarrow> silently abandon_claim | Follower \<Rightarrow> skip)
      (case x of None \<Rightarrow> skip | Some e \<Rightarrow> broadcast_resign e))" for r x
    by (rule ut.keeps_then_do) (auto simp: keeps_def skip_def silently_def split: role.split option.split)
  then have "untouched s (snd (then_do (case r of Host \<Rightarrow> demote_host | Claimant \<Rightarrow> silently abandon_claim
      | Follower \<Rightarrow> skip) (case x of None \<Rightarrow> skip | Some e \<Rightarrow> broadcast_resign e) s))" for s r x
    by (simp add: keeps_def)
  then have el: "keeps tracked election_on_leave"
    by (intro keeps_tracked_still keeps_still_untouched) (simp add: election_on_leave_def Let_def)
  have "tracks {} s (stamp_self (case fmlookup (ge_members (s\<lparr>ge_leaving := True\<rparr>)) (ge_local (s\<lparr>ge_leaving := True\<rparr>)) of
      None \<Rightarrow> s\<lparr>ge_leaving := True\<rparr>
    | Some m \<Rightarrow> s\<lparr>ge_leaving := True\<rparr>\<lparr>ge_members := fmupd (ge_local (s\<lparr>ge_leaving := True\<rparr>))
        ((adopt_status Dead (ge_now_hint (s\<lparr>ge_leaving := True\<rparr>)) m)\<lparr>m_dead_since := ge_now_hint (s\<lparr>ge_leaving := True\<rparr>)\<rparr>)
        (ge_members (s\<lparr>ge_leaving := True\<rparr>))\<rparr>))" for s
  proof -
    define t where "t = s\<lparr>ge_leaving := True\<rparr>"
    have t: "tracks {} s t" unfolding t_def by (simp add: still_tracks)
    have "tracks {} t (stamp_self (case fmlookup (ge_members t) (ge_local t) of None \<Rightarrow> t
      | Some m \<Rightarrow> t\<lparr>ge_members := fmupd (ge_local t)
        ((adopt_status Dead (ge_now_hint t) m)\<lparr>m_dead_since := ge_now_hint t\<rparr>) (ge_members t)\<rparr>))"
      by (auto simp: stamp_self_def node_entries_open intro!: tracks_stamp split: option.split)
    from tracks_trans [OF t this] show ?thesis unfolding t_def sup_bot_left .
  qed
  then have "keeps tracked (silently (\<lambda>s. let s = s\<lparr>ge_leaving := True\<rparr>
           in stamp_self (case fmlookup (ge_members s) (ge_local s) of
                None \<Rightarrow> s
              | Some m \<Rightarrow> s\<lparr>ge_members := fmupd (ge_local s)
                  ((adopt_status Dead (ge_now_hint s) m)\<lparr>m_dead_since := ge_now_hint s\<rparr>) (ge_members s)\<rparr>)))"
    unfolding keeps_def silently_def Let_def tracked_def fst_conv snd_conv named_simps by blast
  then show ?thesis
    unfolding leave_def
    by (intro tr.keeps_then_do el) (simp_all add: keeps_tracked_still keeps_still_simple)
qed

lemma keeps_tracked_apply_cmd: "keeps tracked (apply_cmd c)"
proof (cases c)
  case (UpdateMetadata k v)
  then show ?thesis
    by (intro keeps_tracked_still)
       (simp add: keeps_def update_metadata_def Let_def still_trans [OF still_update(15) untouched_still [OF untouched_simps(2)]])
next
  case (SetBootstrapContacts cs)
  have "still s (nudge_anti_entropy (s\<lparr>ge_digest_peers := a, ge_bootstrap_contacts := b, ge_targets := d\<rparr>))" for s a b d
    by (rule still_trans [OF still_trans [OF still_update(1) still_trans [OF still_update(20) still_update(17)]]
          untouched_still [OF untouched_simps(1)]])
  with SetBootstrapContacts show ?thesis
    by (intro keeps_tracked_still) (simp add: keeps_def silently_def set_bootstrap_contacts_def Let_def)
next
  case (AnchorActivated e l)
  then show ?thesis
    by (auto simp: on_anchor_activated_def intro!: keeps_tracked_still keeps_still_untouched split: option.split)
next
  case (AnchorObserved e h)
  then show ?thesis
    by (auto simp: on_anchor_observed_def intro!: keeps_tracked_still keeps_still_untouched split: option.split)
qed (simp_all add: set_local_entry_def delete_local_entry_def keeps_tracked_settled keeps_settled_author
      keeps_tracked_leave keeps_tracked_newcomer)

end
