(* ===== verification/Persistent_Map.thy ===== *)
theory Persistent_Map
  imports Prelude
begin

text \<open>
  The persistent ordered map of \<open>groupnet-runtime/src/pmap.rs\<close> in which the group actor keeps its
  published views: an AVL tree whose nodes store their height in one byte, with lookup, insertion,
  removal, and iteration over an explicit stack.  The \<open>expect\<close> calls of \<open>balance\<close> are branches that
  return \<open>None\<close>, so that an operation returning \<open>Some\<close> is an operation that did not panic.

  The lemmas show that the operations keep the search order, the AVL balance and the exactness of the
  stored heights and of the entry counter, that none of them panics, and that through \<open>entries\<close>, the
  entries in key order, they implement a finite map.
\<close>


section \<open>The tree\<close>

datatype ('k, 'v) link = Leaf | Node 'k 'v u8 "('k, 'v) link" "('k, 'v) link"

record ('k, 'v) pmap =
  pmap_root :: "('k, 'v) link"
  pmap_len :: u64

definition pmap_default :: "('k, 'v) pmap" where
  "pmap_default = \<lparr>pmap_root = Leaf, pmap_len = 0\<rparr>"

fun link_height :: "('k, 'v) link \<Rightarrow> u8" where
  "link_height Leaf = 0" |
  "link_height (Node k v h l r) = h"

definition pnode :: "'k \<Rightarrow> 'v \<Rightarrow> ('k, 'v) link \<Rightarrow> ('k, 'v) link \<Rightarrow> ('k, 'v) link" where
  "pnode k v l r = Node k v (1 + max (link_height l) (link_height r)) l r"

definition balance ::
    "'k \<Rightarrow> 'v \<Rightarrow> ('k, 'v) link \<Rightarrow> ('k, 'v) link \<Rightarrow> ('k, 'v) link option" where
  "balance k v left right = (
    let hl = link_height left; hr = link_height right in
    if hl > hr + 1 then
      case left of
        Leaf \<Rightarrow> None
      | Node lk lv _ ll lr \<Rightarrow>
          if link_height ll \<ge> link_height lr
          then Some (pnode lk lv ll (pnode k v lr right))
          else (case lr of
              Leaf \<Rightarrow> None
            | Node lrk lrv _ lrl lrr \<Rightarrow>
                Some (pnode lrk lrv (pnode lk lv ll lrl) (pnode k v lrr right)))
    else if hr > hl + 1 then
      case right of
        Leaf \<Rightarrow> None
      | Node rk rv _ rl rr \<Rightarrow>
          if link_height rr \<ge> link_height rl
          then Some (pnode rk rv (pnode k v left rl) rr)
          else (case rl of
              Leaf \<Rightarrow> None
            | Node rlk rlv _ rll rlr \<Rightarrow>
                Some (pnode rlk rlv (pnode k v left rll) (pnode rk rv rlr rr)))
    else Some (pnode k v left right))"

fun link_insert ::
    "('k :: linorder, 'v) link \<Rightarrow> 'k \<Rightarrow> 'v \<Rightarrow> (('k, 'v) link \<times> bool) option" where
  "link_insert Leaf key val = Some (pnode key val Leaf Leaf, True)" |
  "link_insert (Node k v h l r) key val = (
    if key < k then do {
      (left, added) \<leftarrow> link_insert l key val;
      root \<leftarrow> balance k v left r;
      Some (root, added)
    }
    else if k < key then do {
      (right, added) \<leftarrow> link_insert r key val;
      root \<leftarrow> balance k v l right;
      Some (root, added)
    }
    else Some (pnode key val l r, False))"

text \<open>
  \<open>pop_min\<close> is called on a node only; on the empty link the model has the value that the type of
  the Rust function excludes.
\<close>

fun pop_min :: "('k, 'v) link \<Rightarrow> ('k \<times> 'v \<times> ('k, 'v) link) option" where
  "pop_min Leaf = None" |
  "pop_min (Node k v h l r) = (
    case l of
      Leaf \<Rightarrow> Some (k, v, r)
    | Node _ _ _ _ _ \<Rightarrow> do {
        (mk, mv, rest) \<leftarrow> pop_min l;
        root \<leftarrow> balance k v rest r;
        Some (mk, mv, root)
      })"

text \<open>
  The outer option is the panic, the inner one the source's: \<open>Some None\<close> says that the key is absent
  and nothing was copied.
\<close>

fun link_remove :: "('k :: linorder, 'v) link \<Rightarrow> 'k \<Rightarrow> ('k, 'v) link option option" where
  "link_remove Leaf key = Some None" |
  "link_remove (Node k v h l r) key = (
    if key < k then do {
      removed \<leftarrow> link_remove l key;
      case removed of
        None \<Rightarrow> Some None
      | Some left \<Rightarrow> do { root \<leftarrow> balance k v left r; Some (Some root) }
    }
    else if k < key then do {
      removed \<leftarrow> link_remove r key;
      case removed of
        None \<Rightarrow> Some None
      | Some right \<Rightarrow> do { root \<leftarrow> balance k v l right; Some (Some root) }
    }
    else if l = Leaf then Some (Some r)
    else if r = Leaf then Some (Some l)
    else do {
      (mk, mv, rest) \<leftarrow> pop_min r;
      root \<leftarrow> balance mk mv l rest;
      Some (Some root)
    })"

fun link_get :: "('k :: linorder, 'v) link \<Rightarrow> 'k \<Rightarrow> 'v option" where
  "link_get Leaf key = None" |
  "link_get (Node k v h l r) key =
    (if key < k then link_get l key else if k < key then link_get r key else Some v)"


section \<open>The map\<close>

definition pmap_get :: "('k :: linorder, 'v) pmap \<Rightarrow> 'k \<Rightarrow> 'v option" where
  "pmap_get m key = link_get (pmap_root m) key"

definition pmap_contains_key :: "('k :: linorder, 'v) pmap \<Rightarrow> 'k \<Rightarrow> bool" where
  "pmap_contains_key m key \<longleftrightarrow> pmap_get m key \<noteq> None"

definition pmap_insert ::
    "('k :: linorder, 'v) pmap \<Rightarrow> 'k \<Rightarrow> 'v \<Rightarrow> ('k, 'v) pmap option" where
  "pmap_insert m key val = do {
    (root, added) \<leftarrow> link_insert (pmap_root m) key val;
    Some \<lparr>pmap_root = root, pmap_len = pmap_len m + (if added then 1 else 0)\<rparr>
  }"

definition pmap_remove ::
    "('k :: linorder, 'v) pmap \<Rightarrow> 'k \<Rightarrow> (bool \<times> ('k, 'v) pmap) option" where
  "pmap_remove m key = do {
    removed \<leftarrow> link_remove (pmap_root m) key;
    Some (case removed of
        Some root \<Rightarrow> (True, \<lparr>pmap_root = root, pmap_len = pmap_len m - 1\<rparr>)
      | None \<Rightarrow> (False, m))
  }"

fun pmap_extend ::
    "('k :: linorder, 'v) pmap \<Rightarrow> ('k \<times> 'v) list \<Rightarrow> ('k, 'v) pmap option" where
  "pmap_extend m [] = Some m" |
  "pmap_extend m ((k, v) # kvs) = do { m' \<leftarrow> pmap_insert m k v; pmap_extend m' kvs }"

definition pmap_from_iter :: "('k :: linorder \<times> 'v) list \<Rightarrow> ('k, 'v) pmap option" where
  "pmap_from_iter kvs = pmap_extend pmap_default kvs"


section \<open>Iteration\<close>

text \<open>
  An iterator is its stack of nodes, the top first.  \<open>iter_next\<close> pops a node and descends into its
  right subtree.
\<close>

fun descend :: "('k, 'v) link list \<Rightarrow> ('k, 'v) link \<Rightarrow> ('k, 'v) link list" where
  "descend stack Leaf = stack" |
  "descend stack (Node k v h l r) = descend (Node k v h l r # stack) l"

definition pmap_iter :: "('k, 'v) pmap \<Rightarrow> ('k, 'v) link list" where
  "pmap_iter m = descend [] (pmap_root m)"

fun iter_next :: "('k, 'v) link list \<Rightarrow> (('k \<times> 'v) \<times> ('k, 'v) link list) option" where
  "iter_next (Node k v h l r # stack) = Some ((k, v), descend stack r)" |
  "iter_next _ = None"

text \<open>
  Draining the iterator, as a \<open>for\<close> loop does.  Nothing in the type bounds the number of turns, so
  the loop is a partial function; \<open>iter_collect_total\<close> below shows that it ends.
\<close>

partial_function (option) iter_collect :: "('k, 'v) link list \<Rightarrow> ('k \<times> 'v) list option" where
  "iter_collect stack = (
    case iter_next stack of
      None \<Rightarrow> Some []
    | Some (kv, rest) \<Rightarrow> do { kvs \<leftarrow> iter_collect rest; Some (kv # kvs) })"

declare iter_collect.simps [code]


section \<open>The entries of a tree\<close>

fun entries :: "('k, 'v) link \<Rightarrow> ('k \<times> 'v) list" where
  "entries Leaf = []" |
  "entries (Node k v h l r) = entries l @ (k, v) # entries r"

abbreviation ordered :: "('k :: linorder \<times> 'v) list \<Rightarrow> bool" where
  "ordered kvs \<equiv> sorted_wrt (<) (map fst kvs)"

lemma entries_pnode [simp]: "entries (pnode k v l r) = entries l @ (k, v) # entries r"
  by (simp add: pnode_def)

text \<open>
  \<open>balance\<close> never panics: a link that is strictly taller than another has a node, whatever the
  stored heights are.
\<close>

lemma balance_entries:
  obtains t where "balance k v l r = Some t" "entries t = entries l @ (k, v) # entries r" "t \<noteq> Leaf"
proof -
  have "\<exists>t. balance k v l r = Some t \<and> entries t = entries l @ (k, v) # entries r \<and> t \<noteq> Leaf"
    by (auto simp: balance_def Let_def pnode_def not_le split: link.split)
  then show thesis using that by blast
qed

text \<open>
  A tree is in order when its entries are; the order of a node gives the order of its parts and the
  bounds on them.
\<close>

lemma ordered_node:
  "ordered (l @ (k, v) # r) \<longleftrightarrow>
     ordered l \<and> ordered r \<and> (\<forall>x \<in> fst ` set l. x < k) \<and> (\<forall>x \<in> fst ` set r. k < x)"
  by (force simp: sorted_wrt_append intro: less_trans)

lemma map_of_node:
  assumes "ordered (l @ (k, v) # r)"
  shows "map_of (l @ (k, v) # r) =
    (\<lambda>x. if x < k then map_of l x else if k < x then map_of r x else Some v)"
proof
  fix x
  have low: "\<forall>x \<in> fst ` set l. x < k" and high: "\<forall>x \<in> fst ` set r. k < x"
    using assms unfolding ordered_node by auto
  have "map_of r x = None" if "x \<le> k"
    using high that by (force simp: map_of_eq_None_iff)
  moreover have "map_of l x = None" if "k \<le> x"
    using low that by (force simp: map_of_eq_None_iff)
  ultimately show "map_of (l @ (k, v) # r) x =
      (if x < k then map_of l x else if k < x then map_of r x else Some v)"
    by (auto simp: map_add_def split: option.split)
qed

lemma link_get_map_of: "ordered (entries t) \<Longrightarrow> link_get t = map_of (entries t)"
proof (induction t)
  case Leaf
  show ?case by (rule ext) simp
next
  case (Node k v h l r)
  then have "ordered (entries l)" "ordered (entries r)"
    by (simp_all only: entries.simps ordered_node)
  with Node.IH have "link_get l = map_of (entries l)" "link_get r = map_of (entries r)" by auto
  with map_of_node [of "entries l" k v "entries r"] Node.prems show ?case
    by (auto simp del: map_of_append)
qed


section \<open>Heights\<close>

fun lheight :: "('k, 'v) link \<Rightarrow> nat" where
  "lheight Leaf = 0" |
  "lheight (Node k v h l r) = Suc (max (lheight l) (lheight r))"

fun avl_ok :: "('k, 'v) link \<Rightarrow> bool" where
  "avl_ok Leaf \<longleftrightarrow> True" |
  "avl_ok (Node k v h l r) \<longleftrightarrow>
     h = of_nat (Suc (max (lheight l) (lheight r))) \<and>
     lheight l \<le> lheight r + 1 \<and> lheight r \<le> lheight l + 1 \<and> avl_ok l \<and> avl_ok r"

text \<open>
  A balanced tree of height \<open>h\<close> has at least \<open>2 ^ (h div 2) - 1\<close> entries, so one whose entries a
  64-bit counter can count is nowhere near the 255 levels that one byte can record.
\<close>

lemma avl_ok_size: "avl_ok t \<Longrightarrow> 2 ^ (lheight t div 2) \<le> Suc (length (entries t))"
proof (induction t)
  case (Node k v h l r)
  let ?m = "max (lheight l) (lheight r)"
  show ?case
  proof (cases ?m)
    case (Suc n)
    have "n div 2 \<le> lheight l div 2" "n div 2 \<le> lheight r div 2"
      using Node.prems Suc by (auto intro!: div_le_mono)
    then have "(2::nat) ^ (n div 2) \<le> 2 ^ (lheight l div 2)"
      "(2::nat) ^ (n div 2) \<le> 2 ^ (lheight r div 2)"
      by (simp_all only: power_increasing one_le_numeral)
    moreover have "2 ^ (lheight l div 2) \<le> Suc (length (entries l))"
      "2 ^ (lheight r div 2) \<le> Suc (length (entries r))"
      using Node by simp_all
    ultimately have "2 * 2 ^ (n div 2) \<le> Suc (length (entries (Node k v h l r)))"
      unfolding entries.simps length_append list.size by linarith
    then show ?thesis using Suc by simp
  qed simp
qed simp

lemma avl_ok_height:
  assumes "avl_ok t" "length (entries t) < 2 ^ 64"
  shows "lheight t \<le> 129"
proof (rule ccontr)
  assume "\<not> lheight t \<le> 129"
  then have "65 \<le> lheight t div 2" by simp
  then have "(2::nat) ^ 65 \<le> 2 ^ (lheight t div 2)" by (rule power_increasing) simp
  with avl_ok_size [OF assms(1)] assms(2) show False by simp
qed

lemma link_height_lheight: "avl_ok t \<Longrightarrow> link_height t = of_nat (lheight t)"
  by (cases t) simp_all

lemma unat_link_height: "avl_ok t \<Longrightarrow> lheight t < 256 \<Longrightarrow> unat (link_height t) = lheight t"
  by (simp add: link_height_lheight unat_of_nat)

lemma pnode_height:
  assumes "avl_ok l" "avl_ok r" "lheight l < 255" "lheight r < 255"
  shows "1 + max (link_height l) (link_height r) = of_nat (Suc (max (lheight l) (lheight r)))"
  using assms unat_link_height [of l] unat_link_height [of r]
  by (auto simp: link_height_lheight max_def word_le_nat_alt unat_of_nat)

lemma lheight_pnode [simp]: "lheight (pnode k v l r) = Suc (max (lheight l) (lheight r))"
  by (simp add: pnode_def)

lemma avl_ok_pnode:
  assumes "avl_ok l" "avl_ok r" "lheight l < 255" "lheight r < 255"
    "lheight l \<le> lheight r + 1" "lheight r \<le> lheight l + 1"
  shows "avl_ok (pnode k v l r)"
  unfolding pnode_def avl_ok.simps pnode_height [OF assms(1-4)] using assms by simp

lemma link_height_less_iff:
  assumes "avl_ok l" "avl_ok r" "lheight l < 255" "lheight r < 255"
  shows "link_height r + 1 < link_height l \<longleftrightarrow> lheight r + 1 < lheight l"
    and "link_height r \<le> link_height l \<longleftrightarrow> lheight r \<le> lheight l"
  using assms unat_link_height [of l] unat_link_height [of r]
  by (auto simp: word_less_nat_alt word_le_nat_alt unat_word_ariths)

text \<open>
  Rebalancing two balanced trees whose heights differ by at most two gives a balanced tree, no
  lower than the taller one and at most one level higher.
\<close>

lemma balance_avl:
  assumes "avl_ok l" "avl_ok r" "lheight l < 200" "lheight r < 200"
    "lheight l \<le> lheight r + 2" "lheight r \<le> lheight l + 2"
    and t: "balance k v l r = Some t"
  shows "avl_ok t \<and> max (lheight l) (lheight r) \<le> lheight t \<and>
    lheight t \<le> Suc (max (lheight l) (lheight r)) \<and>
    (lheight l \<le> lheight r + 1 \<and> lheight r \<le> lheight l + 1 \<longrightarrow>
      lheight t = Suc (max (lheight l) (lheight r)))"
proof -
  have lr: "link_height r + 1 < link_height l \<longleftrightarrow> lheight r + 1 < lheight l"
    and rl: "link_height l + 1 < link_height r \<longleftrightarrow> lheight l + 1 < lheight r"
    using link_height_less_iff [of l r] link_height_less_iff [of r l] assms by simp_all
  consider "lheight r + 1 < lheight l" | "lheight l + 1 < lheight r"
    | "lheight l \<le> lheight r + 1" "lheight r \<le> lheight l + 1" by linarith
  then show ?thesis
  proof cases
    case 1
    then obtain lk lv lh ll lr' where l: "l = Node lk lv lh ll lr'" by (cases l) auto
    have "link_height lr' \<le> link_height ll \<longleftrightarrow> lheight lr' \<le> lheight ll"
      using link_height_less_iff [of ll lr'] assms l by simp
    with 1 lr t assms show ?thesis unfolding l
      by (cases lr') (auto simp: balance_def Let_def avl_ok_pnode split: if_splits)
  next
    case 2
    then obtain rk rv rh rl' rr where r: "r = Node rk rv rh rl' rr" by (cases r) auto
    have "link_height rl' \<le> link_height rr \<longleftrightarrow> lheight rl' \<le> lheight rr"
      using link_height_less_iff [of rr rl'] assms r by simp
    with 2 lr rl t assms show ?thesis unfolding r
      by (cases rl') (auto simp: balance_def Let_def avl_ok_pnode split: if_splits)
  next
    case 3
    with lr rl t assms show ?thesis by (auto simp: balance_def Let_def avl_ok_pnode)
  qed
qed


section \<open>Insertion and removal\<close>

text \<open>
  What an operation does to the entries: \<open>updates key u es es'\<close> says that \<open>es'\<close>, again in key order,
  are the entries \<open>es\<close> with the binding of \<open>key\<close> replaced by \<open>u\<close>.
\<close>

definition updates ::
    "'k :: linorder \<Rightarrow> 'v option \<Rightarrow> ('k \<times> 'v) list \<Rightarrow> ('k \<times> 'v) list \<Rightarrow> bool" where
  "updates key u es es' \<longleftrightarrow> ordered es' \<and> map_of es' = (map_of es)(key := u)"

lemma dom_keys: "fst ` set es = dom (map_of es)"
  by (simp add: dom_map_of_conv_image_fst)

lemma updates_keys: "updates key u es es' \<Longrightarrow> fst ` set es' \<subseteq> insert key (fst ` set es)"
  by (auto simp: updates_def dom_keys split: if_splits)

lemma updates_left:
  assumes ord: "ordered (l @ (k, v) # r)" and l': "updates key u l l'" and "key < k"
  shows "updates key u (l @ (k, v) # r) (l' @ (k, v) # r)"
proof -
  have low: "\<forall>x \<in> fst ` set l. x < k" using ord unfolding ordered_node by auto
  have ord': "ordered (l' @ (k, v) # r)"
    unfolding ordered_node
  proof (intro conjI)
    show "ordered l'" using l' by (simp add: updates_def)
    show "\<forall>x \<in> fst ` set l'. x < k"
      using low \<open>key < k\<close> updates_keys [OF l'] by blast
  qed (use ord in \<open>auto simp: sorted_wrt_append\<close>)
  have "map_of l' = (map_of l)(key := u)" using l' by (simp add: updates_def)
  then show ?thesis
    unfolding updates_def map_of_node [OF ord] map_of_node [OF ord'] using ord' \<open>key < k\<close>
    by (auto simp: fun_eq_iff)
qed

lemma updates_right:
  assumes ord: "ordered (l @ (k, v) # r)" and r': "updates key u r r'" and "k < key"
  shows "updates key u (l @ (k, v) # r) (l @ (k, v) # r')"
proof -
  have high: "\<forall>x \<in> fst ` set r. k < x" using ord unfolding ordered_node by auto
  have ord': "ordered (l @ (k, v) # r')"
    unfolding ordered_node
  proof (intro conjI)
    show "ordered r'" using r' by (simp add: updates_def)
    show "\<forall>x \<in> fst ` set r'. k < x"
      using high \<open>k < key\<close> updates_keys [OF r'] by blast
  qed (use ord in \<open>auto simp: sorted_wrt_append\<close>)
  have "map_of r' = (map_of r)(key := u)" using r' by (simp add: updates_def)
  then show ?thesis
    unfolding updates_def map_of_node [OF ord] map_of_node [OF ord'] using ord' \<open>k < key\<close>
    by (auto simp: fun_eq_iff)
qed

lemma updates_here:
  assumes ord: "ordered (l @ (k, v) # r)"
  shows "updates k (Some w) (l @ (k, v) # r) (l @ (k, w) # r)"
proof -
  have ord': "ordered (l @ (k, w) # r)" using ord unfolding ordered_node .
  then show ?thesis
    unfolding updates_def map_of_node [OF ord] map_of_node [OF ord'] by (auto simp: fun_eq_iff)
qed

lemma updates_cut:
  assumes ord: "ordered (l @ (k, v) # r)"
  shows "updates k None (l @ (k, v) # r) (l @ r)"
proof -
  have low: "x < k" if "x \<in> fst ` set l" for x using ord that unfolding ordered_node by blast
  have high: "k < x" if "x \<in> fst ` set r" for x using ord that unfolding ordered_node by blast
  have "ordered (l @ r)"
    using ord by (simp add: sorted_wrt_append)
  moreover have "map_of r x = None" if "x \<le> k" for x
    unfolding map_of_eq_None_iff using high [of x] that leD by blast
  moreover have "map_of l x = None" if "k \<le> x" for x
    unfolding map_of_eq_None_iff using low [of x] that leD by blast
  ultimately show ?thesis
    by (auto simp: updates_def fun_eq_iff map_add_def split: option.split)
qed

lemma link_insert_entries:
  "ordered (entries t) \<Longrightarrow> \<exists>t' added. link_insert t key val = Some (t', added) \<and>
    updates key (Some val) (entries t) (entries t') \<and> (added \<longleftrightarrow> key \<notin> fst ` set (entries t))"
proof (induction t)
  case Leaf
  show ?case by (auto simp: updates_def)
next
  case (Node k v h l r)
  have ord: "ordered (entries l @ (k, v) # entries r)" using Node.prems by simp
  then have l: "ordered (entries l)" and r: "ordered (entries r)"
    and low: "\<forall>x \<in> fst ` set (entries l). x < k" and high: "\<forall>x \<in> fst ` set (entries r). k < x"
    unfolding ordered_node by auto
  consider (less) "key < k" | (greater) "k < key" "\<not> key < k" | (equal) "key = k" by fastforce
  then show ?case
  proof cases
    case less
    obtain left added where left: "link_insert l key val = Some (left, added)"
      "updates key (Some val) (entries l) (entries left)" "added \<longleftrightarrow> key \<notin> fst ` set (entries l)"
      using Node.IH(1) [OF l] by blast
    obtain root where root: "balance k v left r = Some root"
      "entries root = entries left @ (k, v) # entries r"
      by (rule balance_entries)
    show ?thesis using less left(1,3) root updates_left [OF ord left(2) less] high by fastforce
  next
    case greater
    obtain right added where right: "link_insert r key val = Some (right, added)"
      "updates key (Some val) (entries r) (entries right)" "added \<longleftrightarrow> key \<notin> fst ` set (entries r)"
      using Node.IH(2) [OF r] by blast
    obtain root where root: "balance k v l right = Some root"
      "entries root = entries l @ (k, v) # entries right"
      by (rule balance_entries)
    show ?thesis using greater right(1,3) root updates_right [OF ord right(2) greater(1)] low by fastforce
  next
    case equal
    then show ?thesis using updates_here [OF ord] by auto
  qed
qed

lemma link_insert_avl:
  "avl_ok t \<Longrightarrow> lheight t < 190 \<Longrightarrow> link_insert t key val = Some (t', added) \<Longrightarrow>
    avl_ok t' \<and> lheight t \<le> lheight t' \<and> lheight t' \<le> Suc (lheight t)"
proof (induction t arbitrary: t' added)
  case Leaf
  then show ?case by (auto simp: pnode_def)
next
  case (Node k v h l r)
  have parts: "avl_ok l" "avl_ok r" "lheight l < 189" "lheight r < 189"
    "lheight l \<le> lheight r + 1" "lheight r \<le> lheight l + 1"
    using Node.prems by auto
  consider (less) "key < k" | (greater) "k < key" "\<not> key < k" | (equal) "key = k" by fastforce
  then show ?case
  proof cases
    case less
    with Node.prems(3) obtain left where left: "link_insert l key val = Some (left, added)"
      and t': "balance k v left r = Some t'"
      by (auto simp: bind_eq_Some_conv)
    have "avl_ok left" "lheight l \<le> lheight left" "lheight left \<le> Suc (lheight l)"
      using Node.IH(1) [OF _ _ left] parts by auto
    with balance_avl [OF _ _ _ _ _ _ t'] parts show ?thesis by (auto simp: max_def)
  next
    case greater
    with Node.prems(3) obtain right where right: "link_insert r key val = Some (right, added)"
      and t': "balance k v l right = Some t'"
      by (auto simp: bind_eq_Some_conv)
    have "avl_ok right" "lheight r \<le> lheight right" "lheight right \<le> Suc (lheight r)"
      using Node.IH(2) [OF _ _ right] parts by auto
    with balance_avl [OF _ _ _ _ _ _ t'] parts show ?thesis by (auto simp: max_def)
  next
    case equal
    then show ?thesis using Node.prems parts by (auto intro!: avl_ok_pnode)
  qed
qed


lemma pop_min_step:
  "l \<noteq> Leaf \<Longrightarrow> pop_min (Node k v h l r) = do {
    (mk, mv, rest) \<leftarrow> pop_min l;
    root \<leftarrow> balance k v rest r;
    Some (mk, mv, root)
  }"
  by (cases l) simp_all

lemma pop_min_entries:
  "t \<noteq> Leaf \<Longrightarrow> \<exists>k v rest. pop_min t = Some (k, v, rest) \<and> entries t = (k, v) # entries rest"
proof (induction t)
  case (Node k v h l r)
  show ?case
  proof (cases "l = Leaf")
    case False
    then obtain mk mv rest where "pop_min l = Some (mk, mv, rest)" "entries l = (mk, mv) # entries rest"
      using Node.IH(1) by auto
    moreover obtain root where "balance k v rest r = Some root"
      "entries root = entries rest @ (k, v) # entries r"
      by (rule balance_entries)
    ultimately show ?thesis unfolding pop_min_step [OF False] by simp
  qed simp
qed simp

lemma pop_min_avl:
  "avl_ok t \<Longrightarrow> lheight t < 190 \<Longrightarrow> pop_min t = Some (k', v', rest) \<Longrightarrow>
    avl_ok rest \<and> lheight rest \<le> lheight t \<and> lheight t \<le> Suc (lheight rest)"
proof (induction t arbitrary: rest)
  case (Node k v h l r)
  have parts: "avl_ok l" "avl_ok r" "lheight l < 189" "lheight r < 189"
    "lheight l \<le> lheight r + 1" "lheight r \<le> lheight l + 1"
    using Node.prems by auto
  show ?case
  proof (cases "l = Leaf")
    case True
    with Node.prems show ?thesis by auto
  next
    case False
    with Node.prems(3) obtain rest' where rest': "pop_min l = Some (k', v', rest')"
      and rest: "balance k v rest' r = Some rest"
      unfolding pop_min_step [OF False] by (auto simp: bind_eq_Some_conv)
    have "avl_ok rest'" "lheight rest' \<le> lheight l" "lheight l \<le> Suc (lheight rest')"
      using Node.IH(1) [OF _ _ rest'] parts by auto
    with balance_avl [OF _ _ _ _ _ _ rest] parts show ?thesis by (auto simp: max_def)
  qed
qed simp

lemma link_remove_entries:
  "ordered (entries t) \<Longrightarrow>
    (key \<notin> fst ` set (entries t) \<longrightarrow> link_remove t key = Some None) \<and>
    (key \<in> fst ` set (entries t) \<longrightarrow> (\<exists>t'. link_remove t key = Some (Some t') \<and>
      updates key None (entries t) (entries t')))"
proof (induction t)
  case (Node k v h l r)
  have ord: "ordered (entries l @ (k, v) # entries r)" using Node.prems by simp
  then have l: "ordered (entries l)" and r: "ordered (entries r)"
    and low: "\<forall>x \<in> fst ` set (entries l). x < k" and high: "\<forall>x \<in> fst ` set (entries r). k < x"
    unfolding ordered_node by auto
  consider (less) "key < k" | (greater) "k < key" "\<not> key < k" | (equal) "key = k" by fastforce
  then show ?case
  proof cases
    case less
    then have in_iff: "key \<in> fst ` set (entries (Node k v h l r)) \<longleftrightarrow> key \<in> fst ` set (entries l)"
      using high by fastforce
    show ?thesis
    proof (cases "key \<in> fst ` set (entries l)")
      case True
      then obtain left where left: "link_remove l key = Some (Some left)"
        "updates key None (entries l) (entries left)"
        using Node.IH(1) [OF l] by blast
      obtain root where "balance k v left r = Some root" "entries root = entries left @ (k, v) # entries r"
        by (rule balance_entries)
      with less left(1) True in_iff updates_left [OF ord left(2) less] show ?thesis by simp
    next
      case False
      with less in_iff Node.IH(1) [OF l] show ?thesis by simp
    qed
  next
    case greater
    then have in_iff: "key \<in> fst ` set (entries (Node k v h l r)) \<longleftrightarrow> key \<in> fst ` set (entries r)"
      using low by fastforce
    show ?thesis
    proof (cases "key \<in> fst ` set (entries r)")
      case True
      then obtain right where right: "link_remove r key = Some (Some right)"
        "updates key None (entries r) (entries right)"
        using Node.IH(2) [OF r] by blast
      obtain root where "balance k v l right = Some root" "entries root = entries l @ (k, v) # entries right"
        by (rule balance_entries)
      with greater right(1) True in_iff updates_right [OF ord right(2) greater(1)] show ?thesis by simp
    next
      case False
      with greater in_iff Node.IH(2) [OF r] show ?thesis by simp
    qed
  next
    case equal
    then have cut: "updates key None (entries (Node k v h l r)) (entries l @ entries r)"
      using updates_cut [OF ord] by simp
    show ?thesis
    proof (cases "l = Leaf \<or> r = Leaf")
      case True
      then show ?thesis using equal cut by auto
    next
      case False
      then obtain mk mv rest where rest: "pop_min r = Some (mk, mv, rest)"
        "entries r = (mk, mv) # entries rest"
        using pop_min_entries by blast
      obtain root where "balance mk mv l rest = Some root" "entries root = entries l @ (mk, mv) # entries rest"
        by (rule balance_entries)
      with False equal cut rest show ?thesis by simp
    qed
  qed
qed simp

lemma link_remove_avl:
  "avl_ok t \<Longrightarrow> lheight t < 190 \<Longrightarrow> link_remove t key = Some (Some t') \<Longrightarrow>
    avl_ok t' \<and> lheight t' \<le> lheight t \<and> lheight t \<le> Suc (lheight t')"
proof (induction t arbitrary: t')
  case (Node k v h l r)
  have parts: "avl_ok l" "avl_ok r" "lheight l < 189" "lheight r < 189"
    "lheight l \<le> lheight r + 1" "lheight r \<le> lheight l + 1"
    using Node.prems by auto
  consider (less) "key < k" | (greater) "k < key" "\<not> key < k" | (equal) "key = k" by fastforce
  then show ?case
  proof cases
    case less
    with Node.prems(3) obtain left where left: "link_remove l key = Some (Some left)"
      and t': "balance k v left r = Some t'"
      by (auto simp: bind_eq_Some_conv split: option.splits)
    have "avl_ok left" "lheight left \<le> lheight l" "lheight l \<le> Suc (lheight left)"
      using Node.IH(1) [OF _ _ left] parts by auto
    with balance_avl [OF _ _ _ _ _ _ t'] parts show ?thesis by (auto simp: max_def)
  next
    case greater
    with Node.prems(3) obtain right where right: "link_remove r key = Some (Some right)"
      and t': "balance k v l right = Some t'"
      by (auto simp: bind_eq_Some_conv split: option.splits)
    have "avl_ok right" "lheight right \<le> lheight r" "lheight r \<le> Suc (lheight right)"
      using Node.IH(2) [OF _ _ right] parts by auto
    with balance_avl [OF _ _ _ _ _ _ t'] parts show ?thesis by (auto simp: max_def)
  next
    case equal
    show ?thesis
    proof (cases "l = Leaf \<or> r = Leaf")
      case True
      with equal Node.prems parts show ?thesis by (auto split: if_splits)
    next
      case False
      with equal Node.prems(3) obtain mk mv rest where rest: "pop_min r = Some (mk, mv, rest)"
        and t': "balance mk mv l rest = Some t'"
        by (auto simp: bind_eq_Some_conv)
      have "avl_ok rest" "lheight rest \<le> lheight r" "lheight r \<le> Suc (lheight rest)"
        using pop_min_avl [OF _ _ rest] parts by auto
      with balance_avl [OF _ _ _ _ _ _ t'] parts show ?thesis by (auto simp: max_def)
    qed
  qed
qed simp


section \<open>The map contract\<close>

text \<open>
  A map is well formed when its tree is ordered and balanced, its stored heights are the heights,
  and its counter is the number of its entries.  \<open>pmap_abs\<close> is the finite map it stands for.
\<close>

definition pmap_ok :: "('k :: linorder, 'v) pmap \<Rightarrow> bool" where
  "pmap_ok m \<longleftrightarrow> avl_ok (pmap_root m) \<and> ordered (entries (pmap_root m)) \<and>
     unat (pmap_len m) = length (entries (pmap_root m))"

definition pmap_abs :: "('k :: linorder, 'v) pmap \<Rightarrow> ('k, 'v) fmap" where
  "pmap_abs m = fmap_of_list (entries (pmap_root m))"

lemma ordered_distinct: "ordered es \<Longrightarrow> distinct (map fst es)"
  by (metis strict_sorted_iff)

lemma length_ordered: "ordered es \<Longrightarrow> length es = card (dom (map_of es))"
  by (metis card_image distinct_card distinct_map dom_keys length_map list.set_map ordered_distinct)

lemma updates_length:
  assumes "ordered es" "updates key u es es'"
  shows "length es' = (if key \<in> fst ` set es then length es - 1 else length es) + (if u = None then 0 else 1)"
proof -
  have "dom (map_of es') = (if u = None then dom (map_of es) - {key} else insert key (dom (map_of es)))"
    using assms(2) by (auto simp: updates_def)
  moreover have "ordered es'" using assms(2) by (simp add: updates_def)
  moreover have "finite (dom (map_of es))" by (rule finite_dom_map_of)
  moreover have "key \<in> dom (map_of es) \<Longrightarrow> 0 < card (dom (map_of es))"
    using finite_dom_map_of [of es] by (auto simp: card_gt_0_iff)
  ultimately show ?thesis
    using length_ordered [OF assms(1)] length_ordered [of es']
    by (auto simp: dom_keys card_Diff_singleton_if card_insert_if)
qed

lemma pmap_abs_update:
  "updates key u (entries (pmap_root m)) (entries (pmap_root m')) \<Longrightarrow>
    pmap_abs m' = (case u of Some v \<Rightarrow> fmupd key v (pmap_abs m) | None \<Rightarrow> fmdrop key (pmap_abs m))"
  by (auto simp: pmap_abs_def updates_def fmlookup_of_list intro!: fmap_ext split: option.split)

lemma pmap_ok_height: "pmap_ok m \<Longrightarrow> lheight (pmap_root m) \<le> 129"
  using avl_ok_height [of "pmap_root m"] unsigned_less [of "pmap_len m", where 'a = nat]
  by (simp add: pmap_ok_def)

lemma pmap_default_ok: "pmap_ok pmap_default" "pmap_abs pmap_default = fmempty"
  by (simp_all add: pmap_ok_def pmap_default_def pmap_abs_def)

lemma pmap_insert_ok:
  assumes ok: "pmap_ok m" and room: "unat (pmap_len m) < 2 ^ 64 - 1"
  obtains m' where "pmap_insert m key val = Some m'" "pmap_ok m'"
    "pmap_abs m' = fmupd key val (pmap_abs m)" "unat (pmap_len m') \<le> Suc (unat (pmap_len m))"
proof -
  have ord: "ordered (entries (pmap_root m))" and avl: "avl_ok (pmap_root m)"
    and len: "unat (pmap_len m) = length (entries (pmap_root m))"
    using ok by (simp_all add: pmap_ok_def)
  obtain t added where ins: "link_insert (pmap_root m) key val = Some (t, added)"
    and upd: "updates key (Some val) (entries (pmap_root m)) (entries t)"
    and added: "added \<longleftrightarrow> key \<notin> fst ` set (entries (pmap_root m))"
    using link_insert_entries [OF ord] by blast
  let ?m = "\<lparr>pmap_root = t, pmap_len = pmap_len m + (if added then 1 else 0)\<rparr>"
  have "avl_ok t" using link_insert_avl [OF avl _ ins] pmap_ok_height [OF ok] by simp
  moreover have "key \<in> fst ` set (entries (pmap_root m)) \<Longrightarrow> 0 < length (entries (pmap_root m))" by auto
  then have "length (entries t) = length (entries (pmap_root m)) + (if added then 1 else 0)"
    using updates_length [OF ord upd] added by (cases "key \<in> fst ` set (entries (pmap_root m))") auto
  then have "unat (pmap_len ?m) = length (entries t)" using len room by (simp add: unat_word_ariths)
  ultimately have "pmap_ok ?m" using upd by (simp add: pmap_ok_def updates_def)
  moreover have "pmap_insert m key val = Some ?m" using ins by (simp add: pmap_insert_def)
  moreover have "pmap_abs ?m = fmupd key val (pmap_abs m)" using pmap_abs_update [of key "Some val" m ?m] upd by simp
  ultimately show thesis using that [of ?m] len room by (simp add: unat_word_ariths)
qed

lemma pmap_remove_ok:
  assumes ok: "pmap_ok m"
  obtains m' where "pmap_remove m key = Some (key |\<in>| fmdom (pmap_abs m), m')" "pmap_ok m'"
    "pmap_abs m' = fmdrop key (pmap_abs m)" "unat (pmap_len m') \<le> unat (pmap_len m)"
proof (cases "key \<in> fst ` set (entries (pmap_root m))")
  case False
  have "pmap_remove m key = Some (False, m)"
    using False link_remove_entries [of "pmap_root m" key] ok by (simp add: pmap_remove_def pmap_ok_def)
  moreover have "key |\<notin>| fmdom (pmap_abs m)"
    using False by (simp add: pmap_abs_def fset_of_list.rep_eq)
  moreover from this have "pmap_abs m = fmdrop key (pmap_abs m)"
    by (auto intro!: fmap_ext simp: fmdom_notD)
  ultimately show thesis using that [of m] ok by simp
next
  case True
  have ord: "ordered (entries (pmap_root m))" and avl: "avl_ok (pmap_root m)"
    and len: "unat (pmap_len m) = length (entries (pmap_root m))"
    using ok by (simp_all add: pmap_ok_def)
  obtain t where rem: "link_remove (pmap_root m) key = Some (Some t)"
    and upd: "updates key None (entries (pmap_root m)) (entries t)"
    using link_remove_entries [OF ord] True by blast
  let ?m = "\<lparr>pmap_root = t, pmap_len = pmap_len m - 1\<rparr>"
  have "avl_ok t" using link_remove_avl [OF avl _ rem] pmap_ok_height [OF ok] by simp
  moreover have pos: "0 < length (entries (pmap_root m))" using True by auto
  then have "pmap_len m \<noteq> 0" using len by auto
  then have len': "unat (pmap_len ?m) = unat (pmap_len m) - 1" by (simp add: unat_minus_one)
  then have "unat (pmap_len ?m) = length (entries t)" using updates_length [OF ord upd] True len by simp
  ultimately have "pmap_ok ?m" using upd by (simp add: pmap_ok_def updates_def)
  moreover have "pmap_remove m key = Some (True, ?m)" using rem by (simp add: pmap_remove_def)
  moreover have "key |\<in>| fmdom (pmap_abs m)"
    using True by (simp add: pmap_abs_def fset_of_list.rep_eq)
  ultimately show thesis
    using that [of ?m] len' pmap_abs_update [of key None m ?m] upd by simp
qed


section \<open>Iteration is in key order and ends\<close>

fun pending :: "('k, 'v) link list \<Rightarrow> ('k \<times> 'v) list" where
  "pending [] = []" |
  "pending (Leaf # stack) = pending stack" |
  "pending (Node k v h l r # stack) = (k, v) # entries r @ pending stack"

lemma pending_descend: "pending (descend stack t) = entries t @ pending stack"
  by (induction t arbitrary: stack) simp_all

lemma descend_nodes: "Leaf \<notin> set stack \<Longrightarrow> Leaf \<notin> set (descend stack t)"
  by (induction t arbitrary: stack) simp_all

lemma iter_collect_pending: "Leaf \<notin> set stack \<Longrightarrow> iter_collect stack = Some (pending stack)"
proof (induction "length (pending stack)" arbitrary: stack rule: less_induct)
  case less
  show ?case
  proof (cases stack)
    case Nil
    then show ?thesis by (simp add: iter_collect.simps)
  next
    case (Cons t rest)
    with less.prems obtain k v h l r where t: "t = Node k v h l r" by (cases t) auto
    have "iter_collect (descend rest r) = Some (pending (descend rest r))"
      using less.prems Cons t by (intro less.hyps) (simp_all add: pending_descend descend_nodes)
    then show ?thesis using Cons t by (subst iter_collect.simps) (simp add: pending_descend)
  qed
qed

lemma iter_collect_entries: "iter_collect (pmap_iter m) = Some (entries (pmap_root m))"
  by (simp add: pmap_iter_def iter_collect_pending descend_nodes pending_descend)

lemma fentries_ordered: "ordered es \<Longrightarrow> fentries (fmap_of_list es) = es"
proof -
  assume ord: "ordered es"
  have "keys_list (fmap_of_list es) = map fst es"
    using ord by (intro sorted_distinct_set_unique)
      (auto simp: strict_sorted_iff fset_of_list.rep_eq)
  moreover have "map_of es k = Some v" if "(k, v) \<in> set es" for k v
    using that ordered_distinct [OF ord] by simp
  ultimately show ?thesis by (auto simp: fentries_def fmlookup_of_list intro!: map_idI)
qed


section \<open>Properties\<close>

datatype ('k, 'v) pmap_op = Insert 'k 'v | Remove 'k

fun pmap_run :: "('k :: linorder, 'v) pmap \<Rightarrow> ('k, 'v) pmap_op list \<Rightarrow> ('k, 'v) pmap option" where
  "pmap_run m [] = Some m" |
  "pmap_run m (Insert k v # ops) = do { m' \<leftarrow> pmap_insert m k v; pmap_run m' ops }" |
  "pmap_run m (Remove k # ops) = do { (_, m') \<leftarrow> pmap_remove m k; pmap_run m' ops }"

fun fmap_op :: "('k, 'v) pmap_op \<Rightarrow> ('k, 'v) fmap \<Rightarrow> ('k, 'v) fmap" where
  "fmap_op (Insert k v) f = fmupd k v f" |
  "fmap_op (Remove k) f = fmdrop k f"

lemma pmap_run_ok:
  "pmap_ok m \<Longrightarrow> unat (pmap_len m) + length ops < 2 ^ 64 \<Longrightarrow>
    \<exists>m'. pmap_run m ops = Some m' \<and> pmap_ok m' \<and> pmap_abs m' = fold fmap_op ops (pmap_abs m)"
proof (induction m ops rule: pmap_run.induct)
  case (1 m)
  then show ?case by simp
next
  case (2 m k v ops)
  obtain m' where "pmap_insert m k v = Some m'" "pmap_ok m'" "pmap_abs m' = fmupd k v (pmap_abs m)"
    "unat (pmap_len m') \<le> Suc (unat (pmap_len m))"
    using pmap_insert_ok [OF 2(2)] 2(3) by auto
  with 2 show ?case by fastforce
next
  case (3 m k ops)
  obtain m' where m': "pmap_remove m k = Some (k |\<in>| fmdom (pmap_abs m), m')" "pmap_ok m'"
    "pmap_abs m' = fmdrop k (pmap_abs m)" "unat (pmap_len m') \<le> unat (pmap_len m)"
    using pmap_remove_ok [OF 3(2)] by blast
  with 3(1) [OF m'(1)] 3(3) show ?case by fastforce
qed

lemma pmap_ok_views:
  assumes "pmap_ok m"
  shows "pmap_get m = fmlookup (pmap_abs m)"
    and "iter_collect (pmap_iter m) = Some (fentries (pmap_abs m))"
    and "unat (pmap_len m) = fcard (fmdom (pmap_abs m))"
proof -
  have ord: "ordered (entries (pmap_root m))" using assms by (simp add: pmap_ok_def)
  show "pmap_get m = fmlookup (pmap_abs m)"
    using link_get_map_of [OF ord] by (auto simp: pmap_get_def pmap_abs_def fmlookup_of_list)
  show "iter_collect (pmap_iter m) = Some (fentries (pmap_abs m))"
    by (simp add: iter_collect_entries pmap_abs_def fentries_ordered [OF ord])
  show "unat (pmap_len m) = fcard (fmdom (pmap_abs m))"
    using assms length_ordered [OF ord]
    by (simp add: pmap_ok_def pmap_abs_def fcard.rep_eq fset_of_list.rep_eq dom_keys)
qed

text \<open>
  C12. Every sequence of fewer than \<open>2 ^ 64\<close> insertions and removals on the empty map runs without a
  panic, and the map it leaves answers every lookup, iterates, and counts exactly as the ordered map
  with the same history does.
\<close>

theorem pmap_refines_map:
  assumes "length ops < 2 ^ 64"
  shows "\<exists>m. pmap_run pmap_default ops = Some m \<and>
    pmap_get m = fmlookup (fold fmap_op ops fmempty) \<and>
    iter_collect (pmap_iter m) = Some (fentries (fold fmap_op ops fmempty)) \<and>
    unat (pmap_len m) = fcard (fmdom (fold fmap_op ops fmempty))"
proof -
  have "unat (pmap_len (pmap_default :: ('a, 'b) pmap)) + length ops < 2 ^ 64"
    using assms by (simp add: pmap_default_def)
  from pmap_run_ok [OF pmap_default_ok(1) this] obtain m where "pmap_run pmap_default ops = Some m"
    "pmap_ok m" "pmap_abs m = fold fmap_op ops fmempty"
    by (auto simp: pmap_default_ok)
  with pmap_ok_views [of m] show ?thesis by auto
qed

theorem pmap_refines_map_witness:
  "\<exists>m. pmap_run pmap_default [Insert (3::nat) ''a'', Insert 1 ''b'', Insert 2 ''c'', Remove 3] = Some m \<and>
    pmap_get m = fmlookup (fmdrop 3 (fmupd 2 ''c'' (fmupd 1 ''b'' (fmupd 3 ''a'' fmempty))))"
  using pmap_refines_map [of "[Insert (3::nat) ''a'', Insert 1 ''b'', Insert 2 ''c'', Remove 3]"] by auto

text \<open>
  C22. Every sequence of fewer than \<open>2 ^ 64\<close> insertions and removals on the empty map leaves a search
  tree: its keys strictly increase from left to right, every node's subtrees are within one level of
  each other, every height stored in its one byte is the height of its tree, and the counter is the
  number of entries; and the height \<open>h\<close> of a tree with \<open>n\<close> entries satisfies \<open>2 ^ (h div 2) \<le> n + 1\<close>, the
  bound on the nodes an operation copies.
\<close>

theorem pmap_ops_keep_avl:
  assumes "length ops < 2 ^ 64"
  shows "\<exists>m. pmap_run pmap_default ops = Some m \<and>
    sorted_wrt (<) (map fst (entries (pmap_root m))) \<and> avl_ok (pmap_root m) \<and>
    unat (link_height (pmap_root m)) = lheight (pmap_root m) \<and>
    unat (pmap_len m) = length (entries (pmap_root m)) \<and>
    2 ^ (lheight (pmap_root m) div 2) \<le> length (entries (pmap_root m)) + 1"
proof -
  have "unat (pmap_len (pmap_default :: ('a, 'b) pmap)) + length ops < 2 ^ 64"
    using assms by (simp add: pmap_default_def)
  from pmap_run_ok [OF pmap_default_ok(1) this] obtain m where m: "pmap_run pmap_default ops = Some m" "pmap_ok m"
    by blast
  then have avl: "avl_ok (pmap_root m)" by (simp add: pmap_ok_def)
  with m avl_ok_size [OF avl] unat_link_height [OF avl] pmap_ok_height [OF m(2)] show ?thesis
    by (auto simp: pmap_ok_def)
qed

theorem pmap_ops_keep_avl_witness:
  "\<exists>m. pmap_run pmap_default [Insert (1::nat) (), Insert 2 (), Insert 3 (), Remove 1, Insert 4 ()] = Some m \<and>
    avl_ok (pmap_root m) \<and> unat (pmap_len m) = length (entries (pmap_root m))"
  using pmap_ops_keep_avl [of "[Insert (1::nat) (), Insert 2 (), Insert 3 (), Remove 1, Insert 4 ()]"] by auto

end
