(* ===== verification/Session_Wire.thy ===== *)
theory Session_Wire
  imports Wire
begin

text \<open>
  What the consistency tiers put into group entries (\<open>crates/groupnet-consistency/src\<close>): write tokens
  (\<open>token.rs\<close>), the entry keys of named sets (\<open>entry.rs\<close>), the ring frame of a write feed (\<open>wire.rs\<close>)
  and the applied-watermark ledger (\<open>acks.rs\<close>).  Readers and writers have the shape they have in the
  theory \<open>Wire\<close>: a byte slice with an offset is the list of unread bytes.

  The lemmas show that the entry keys of different sets never collide, that a feed frame is decoded
  exactly when it is the encoding of a well-formed frame, and that a ledger row is read back.
\<close>


section \<open>Write tokens\<close>

datatype write_token = WriteToken (tok_epoch: u64) (tok_seq: u64)

instantiation write_token :: linorder
begin

definition less_eq_write_token :: "write_token \<Rightarrow> write_token \<Rightarrow> bool" where
  "a \<le> b \<longleftrightarrow> (tok_epoch a, tok_seq a) \<le> (tok_epoch b, tok_seq b)"

definition less_write_token :: "write_token \<Rightarrow> write_token \<Rightarrow> bool" where
  "a < b \<longleftrightarrow> (tok_epoch a, tok_seq a) < (tok_epoch b, tok_seq b)"

instance
  by standard (auto simp: less_eq_write_token_def less_write_token_def intro: write_token.expand)

end

lemma write_token_less_iff [simp]:
  "WriteToken e s < WriteToken e' s' \<longleftrightarrow> e < e' \<or> e = e' \<and> s < s'"
  by (auto simp: less_write_token_def)

lemma write_token_le_iff [simp]:
  "WriteToken e s \<le> WriteToken e' s' \<longleftrightarrow> e < e' \<or> e = e' \<and> s \<le> s'"
  by (auto simp: less_eq_write_token_def)


section \<open>Entry keys\<close>

text \<open>The decimal digits of a length, as the formatting of a \<open>usize\<close> prints them.\<close>

definition digit :: "nat \<Rightarrow> u8" where
  "digit k = of_nat (48 + k)"

fun decimal :: "nat \<Rightarrow> str" where
  "decimal n = (if n < 10 then [digit n] else decimal (n div 10) @ [digit (n mod 10)])"

declare decimal.simps [simp del]

definition push_set :: "str option \<Rightarrow> str" where
  "push_set set_name = (case set_name of
      None \<Rightarrow> ascii ''d''
    | Some name \<Rightarrow> ascii ''n'' @ decimal (length name) @ ascii '':'' @ name)"

definition set_key :: "str \<Rightarrow> str option \<Rightarrow> str" where
  "set_key base set_name = base @ ascii ''/'' @ push_set set_name"

definition set_prefix :: "str \<Rightarrow> str option \<Rightarrow> str" where
  "set_prefix base set_name = set_key base set_name @ ascii ''/''"

text \<open>The entries of a write feed: the empty name is the default feed.\<close>

definition ENTRY_BASE :: str where
  "ENTRY_BASE = ascii ''~writes''"

definition HOSTED_ENTRY_BASE :: str where
  "HOSTED_ENTRY_BASE = ascii ''~hosted/writes''"

definition feed_set :: "str \<Rightarrow> str option" where
  "feed_set name = (if name = [] then None else Some name)"

definition feed_entry_key :: "str \<Rightarrow> str" where
  "feed_entry_key name = set_key ENTRY_BASE (feed_set name)"

definition hosted_entry_key :: "str \<Rightarrow> str" where
  "hosted_entry_key name = set_key HOSTED_ENTRY_BASE (feed_set name)"

lemma unat_digit: "k < 10 \<Longrightarrow> unat (digit k) = 48 + k"
  unfolding digit_def by (simp only: unsigned_of_nat take_bit_nat_eq_self) (simp add: take_bit_nat_eq_self)

lemma decimal_digits: "b \<in> set (decimal n) \<Longrightarrow> 48 \<le> unat b \<and> unat b \<le> 57"
proof (induction n rule: decimal.induct)
  case (1 n)
  show ?case
  proof (cases "n < 10")
    case True
    with "1.prems" show ?thesis by (subst (asm) decimal.simps) (simp add: unat_digit)
  next
    case False
    with 1 show ?thesis
      by (subst (asm) (2) decimal.simps) (auto simp: unat_digit)
  qed
qed

fun undecimal :: "nat \<Rightarrow> str \<Rightarrow> nat" where
  "undecimal acc [] = acc"
| "undecimal acc (b # bs) = undecimal (10 * acc + (unat b - 48)) bs"

lemma undecimal_append: "undecimal acc (xs @ ys) = undecimal (undecimal acc xs) ys"
  by (induction acc xs rule: undecimal.induct) simp_all

lemma undecimal_decimal: "undecimal 0 (decimal n) = n"
proof (induction n rule: decimal.induct)
  case (1 n)
  show ?case
  proof (cases "n < 10")
    case True
    then show ?thesis by (subst decimal.simps) (simp add: unat_digit)
  next
    case False
    with 1 show ?thesis by (subst decimal.simps) (simp add: undecimal_append unat_digit)
  qed
qed

lemma decimal_inj: "decimal m = decimal n \<longleftrightarrow> m = n"
  by (metis undecimal_decimal)

text \<open>The digits end where the colon is, so the segment of a set is self-delimiting.\<close>

lemma decimal_colon:
  assumes "decimal m @ ascii '':'' @ xs = decimal n @ ascii '':'' @ ys"
  shows "m = n \<and> xs = ys"
proof -
  have colon: "(of_char CHR '':'' :: u8) \<notin> set (decimal k)" for k
    using decimal_digits [of "of_char CHR '':''" k] by auto
  have "takeWhile (\<lambda>b. b \<noteq> of_char CHR '':'') (decimal k @ ascii '':'' @ zs) = decimal k" for k zs
    using colon [of k] by (subst takeWhile_append2) (auto simp: ascii_def)
  with assms have "decimal m = decimal n" by metis
  with assms show ?thesis by (auto simp: decimal_inj)
qed

lemma push_set_eq_iff: "push_set s @ xs = push_set t @ ys \<longleftrightarrow> s = t \<and> xs = ys"
proof (cases s; cases t)
  fix a b
  assume st: "s = Some a" "t = Some b"
  show ?thesis
  proof
    assume "push_set s @ xs = push_set t @ ys"
    then have "decimal (length a) @ ascii '':'' @ (a @ xs) = decimal (length b) @ ascii '':'' @ (b @ ys)"
      using st by (simp add: push_set_def)
    from decimal_colon [OF this] show "s = t \<and> xs = ys"
      using st by (metis append_eq_append_conv)
  qed auto
qed (auto simp: push_set_def ascii_def)


section \<open>Feed frames\<close>

record feed_frame =
  ff_epoch :: u64
  ff_first_seq :: u64
  ff_keys :: "bytes list"
  ff_sealed :: bool

text \<open>A length that does not fit a \<open>u32\<close> is written as the largest one.\<close>

definition put_len :: "nat \<Rightarrow> bytes" where
  "put_len n = put_u32 (if n < 2 ^ 32 then of_nat n else - 1)"

definition feed_encode :: "feed_frame \<Rightarrow> bytes" where
  "feed_encode f = put_u64 (ff_epoch f) @ put_u64 (ff_first_seq f) @ put_len (length (ff_keys f))
     @ concat (map (\<lambda>key. put_len (length key) @ key) (ff_keys f)) @ put_bool (ff_sealed f)"

definition u64_checked_add :: "u64 \<Rightarrow> u64 \<Rightarrow> u64 option" where
  "u64_checked_add a b = (if unat a + unat b < 2 ^ 64 then Some (a + b) else None)"

definition feed_decode :: "bytes \<Rightarrow> feed_frame option" where
  "feed_decode bs = do {
     (epoch, cur) \<leftarrow> get_u64 bs;
     (first_seq, cur) \<leftarrow> get_u64 cur;
     (count, cur) \<leftarrow> get_u32 cur;
     (keys, cur) \<leftarrow> get_n get_bytes (unat count) cur;
     (sealed, cur) \<leftarrow> get_bool cur;
     fin \<leftarrow> u64_checked_add first_seq (of_nat (length keys));
     if cur \<noteq> [] \<or> first_seq = 0 \<or> keys = [] \<and> first_seq \<noteq> 1 \<or>
        sealed \<and> u64_checked_add fin 1 = None
     then None
     else Some \<lparr>ff_epoch = epoch, ff_first_seq = first_seq, ff_keys = keys, ff_sealed = sealed\<rparr>
   }"

definition feed_end :: "feed_frame \<Rightarrow> u64" where
  "feed_end f = ff_first_seq f + of_nat (length (ff_keys f))"

text \<open>
  The frames a decoder accepts: positions start at one, an empty window is the window of a life that
  has written nothing, and the position after the last write, and after the seal if there is one, is
  still a 64-bit number.
\<close>

definition feed_frame_ok :: "feed_frame \<Rightarrow> bool" where
  "feed_frame_ok f \<longleftrightarrow> vec_ok len_ok (ff_keys f) \<and> ff_first_seq f \<noteq> 0 \<and>
     (ff_keys f = [] \<longrightarrow> ff_first_seq f = 1) \<and>
     unat (ff_first_seq f) + length (ff_keys f) + (if ff_sealed f then 1 else 0) < 2 ^ 64"

lemma put_len_bytes: "len_ok b \<Longrightarrow> put_len (length b) @ b @ rest = put_bytes b @ rest"
  by (simp add: put_len_def put_bytes_def len_ok_def)

lemma concat_put_len:
  "\<forall>key \<in> set keys. len_ok key \<Longrightarrow>
    concat (map (\<lambda>key. put_len (length key) @ key) keys) = concat (map put_bytes keys)"
  by (induction keys) (auto simp: put_len_bytes [where rest = "[]", simplified])

lemma unat_of_nat_u64: "n < 2 ^ 64 \<Longrightarrow> unat (of_nat n :: u64) = n"
  by (simp add: unsigned_of_nat take_bit_nat_eq_self)

lemma checked_end:
  assumes "n < 2 ^ 32"
  shows "(\<exists>fin. u64_checked_add a (of_nat n) = Some fin \<and> \<not> (sealed \<and> u64_checked_add fin 1 = None)) \<longleftrightarrow>
    unat a + n + (if sealed then 1 else 0) < 2 ^ 64"
  using assms unat_u64_bound [of a]
  by (auto simp: u64_checked_add_def unat_of_nat_u64 unat_word_ariths)

lemma get_keys_iff:
  "get_n get_bytes n bs = Some (keys, rest) \<longleftrightarrow>
     length keys = n \<and> (\<forall>key \<in> set keys. len_ok key) \<and> bs = concat (map put_bytes keys) @ rest"
  by (rule blob.get_n_iff)

lemma feed_decode_SomeI: "feed_frame_ok f \<Longrightarrow> feed_decode (feed_encode f) = Some f"
proof -
  assume ok: "feed_frame_ok f"
  then have len: "length (ff_keys f) < 2 ^ 32" and keys: "\<forall>key \<in> set (ff_keys f). len_ok key"
    by (simp_all add: feed_frame_ok_def vec_ok_def)
  obtain fin where fin: "u64_checked_add (ff_first_seq f) (of_nat (length (ff_keys f))) = Some fin"
    "\<not> (ff_sealed f \<and> u64_checked_add fin 1 = None)"
    using checked_end [OF len, of "ff_first_seq f" "ff_sealed f"] ok by (auto simp: feed_frame_ok_def)
  have "feed_encode f = put_u64 (ff_epoch f) @ put_u64 (ff_first_seq f) @
      put_u32 (of_nat (length (ff_keys f))) @ concat (map put_bytes (ff_keys f)) @ put_bool (ff_sealed f) @ []"
    unfolding feed_encode_def concat_put_len [OF keys] using len by (simp add: put_len_def)
  moreover have "get_n get_bytes (length (ff_keys f)) (concat (map put_bytes (ff_keys f)) @ rest) =
      Some (ff_keys f, rest)" for rest
    using keys by (simp add: get_keys_iff)
  moreover have "get_bool (put_bool b) = Some (b, [])" for b
    using boolean.get_put [of b "[]"] by (simp add: always_ok_def)
  ultimately show ?thesis
    using fin len ok
    by (auto simp: feed_decode_def u64.get_put u32.get_put always_ok_def feed_frame_ok_def)
qed

lemma feed_decode_SomeD:
  assumes "feed_decode bs = Some f"
  shows "feed_frame_ok f \<and> bs = feed_encode f"
proof -
  obtain epoch first_seq count keys sealed fin
    where bs: "bs = put_u64 epoch @ put_u64 first_seq @ put_u32 count @ concat (map put_bytes keys) @ put_bool sealed"
      and keys: "length keys = unat count" "\<forall>key \<in> set keys. len_ok key"
      and fin: "u64_checked_add first_seq (of_nat (length keys)) = Some fin"
        "\<not> (sealed \<and> u64_checked_add fin 1 = None)"
      and f: "f = \<lparr>ff_epoch = epoch, ff_first_seq = first_seq, ff_keys = keys, ff_sealed = sealed\<rparr>"
      and pos: "first_seq \<noteq> 0" "keys = [] \<longrightarrow> first_seq = 1"
    using assms
    by (auto simp: feed_decode_def bind_eq_Some_conv u64.get_iff u32.get_iff boolean.get_iff get_keys_iff
        split: if_splits)
  have len: "length keys < 2 ^ 32" using keys(1) unat_u32_less [of count] by simp
  have "unat first_seq + length keys + (if sealed then 1 else 0) < 2 ^ 64"
    using checked_end [OF len, of first_seq sealed] fin by blast
  then have "feed_frame_ok f" using f pos keys len by (simp add: feed_frame_ok_def vec_ok_def)
  moreover have "of_nat (length keys) = count" using keys(1) by simp
  then have "bs = feed_encode f"
    unfolding bs f feed_encode_def feed_frame.select_convs concat_put_len [OF keys(2)]
    using len by (simp add: put_len_def)
  ultimately show ?thesis ..
qed


section \<open>The applied-watermark ledger\<close>

text \<open>
  The ledger is one entry with a row per writer; the rows come in the order of a hash map, so the
  model takes them as a list.  \<open>decode_one\<close> stops at the first row of the writer asked for.
\<close>

definition ACK_KEY :: str where
  "ACK_KEY = ascii ''~applied''"

definition put_ack :: "node_id \<times> write_token \<Rightarrow> bytes" where
  "put_ack row = (case row of (writer, token) \<Rightarrow>
     put_len (length (as_str writer)) @ as_str writer @ put_u64 (tok_epoch token) @ put_u64 (tok_seq token))"

definition encode_acks :: "(node_id \<times> write_token) list \<Rightarrow> bytes" where
  "encode_acks applied = concat (map put_ack applied)"

definition get_ack :: "bytes \<Rightarrow> ((bytes \<times> write_token) \<times> bytes) option" where
  "get_ack bs = do {
     (name, cur) \<leftarrow> get_bytes bs;
     (epoch, cur) \<leftarrow> get_u64 cur;
     (seq, cur) \<leftarrow> get_u64 cur;
     Some ((name, WriteToken epoch seq), cur)
   }"

lemma get_ack_shorter: "get_ack bs = Some (row, rest) \<Longrightarrow> length rest < length bs"
  by (auto simp: get_ack_def bind_eq_Some_conv u64.get_iff blob.get_iff)

function decode_one :: "bytes \<Rightarrow> str \<Rightarrow> write_token option" where
  "decode_one bs writer = (
     if bs = [] then None
     else case get_ack bs of
       None \<Rightarrow> None
     | Some ((name, token), rest) \<Rightarrow> if name = writer then Some token else decode_one rest writer)"
  by pat_completeness auto
termination
  by (relation "measure (length \<circ> fst)") (auto dest: get_ack_shorter)

declare decode_one.simps [simp del]

lemma get_ack_put:
  "len_ok (as_str writer) \<Longrightarrow>
    get_ack (put_ack (writer, token) @ rest) = Some ((as_str writer, token), rest)"
  by (cases token)
    (simp add: get_ack_def put_ack_def put_len_bytes blob.get_put u64.get_put always_ok_def)

lemma decode_one_encode:
  "\<forall>row \<in> set applied. len_ok (as_str (fst row)) \<Longrightarrow>
    decode_one (encode_acks applied) (as_str writer) = map_of applied writer"
proof (induction applied)
  case Nil
  show ?case by (simp add: encode_acks_def decode_one.simps)
next
  case (Cons row applied)
  obtain w token where row: "row = (w, token)" by (cases row)
  have "encode_acks (row # applied) = put_ack (w, token) @ encode_acks applied"
    by (simp add: encode_acks_def row)
  moreover have "0 < length (put_ack (w, token))" by (simp add: put_ack_def)
  then have "put_ack (w, token) \<noteq> []" by auto
  moreover have "as_str w = as_str writer \<longleftrightarrow> w = writer" by (auto intro: node_id.expand)
  ultimately show ?case
    using Cons row by (subst decode_one.simps) (simp add: get_ack_put)
qed


section \<open>Properties\<close>

text \<open>
  C23. Two keys built from the same base are the same entry only when they name the same set and the
  same key within it, whatever characters the names and keys contain.
\<close>

theorem set_keys_injective:
  "set_prefix base s @ k = set_prefix base t @ k' \<longleftrightarrow> s = t \<and> k = k'"
  using push_set_eq_iff [of s "ascii ''/'' @ k" t "ascii ''/'' @ k'"]
  by (simp add: set_prefix_def set_key_def)

text \<open>
  C18. A feed entry decodes to a frame exactly when it is the encoding of that frame and the frame is
  one a writer can publish; every other byte string, truncated or padded, is rejected.
\<close>

theorem feed_decode_iff_encode:
  "feed_decode bs = Some f \<longleftrightarrow> feed_frame_ok f \<and> bs = feed_encode f"
  using feed_decode_SomeI feed_decode_SomeD by blast

end
