(* ===== verification/Group_View.thy ===== *)
theory Group_View
  imports Session_Wire Engine
begin

text \<open>
  What a group handle lets its holders read (\<open>crates/groupnet-runtime/src\<close>): the live members, the
  statuses with the time each has been held, and every node's entries, as the group actor last published
  them (\<open>group.rs\<close>, \<open>group/roster.rs\<close>), and the capability advertisements carried in one of those
  entries (\<open>capability.rs\<close>).
\<close>


section \<open>Published snapshots\<close>

type_synonym entries_view = "(node_id, (str, bytes) fmap) fmap"

record group_view =
  gv_live :: "node_id fset"
  gv_statuses :: "(node_id, status \<times> time) fmap"
  gv_entries :: entries_view

definition view_node_entry :: "entries_view \<Rightarrow> node_id \<Rightarrow> str \<Rightarrow> bytes option" where
  "view_node_entry view node key = do { m \<leftarrow> fmlookup view node; fmlookup m key }"

definition view_node_entries :: "entries_view \<Rightarrow> node_id \<Rightarrow> (str \<times> bytes) list" where
  "view_node_entries view node = (case fmlookup view node of Some m \<Rightarrow> fentries m | None \<Rightarrow> [])"

definition view_node_state :: "entries_view \<Rightarrow> node_id \<Rightarrow> bytes option" where
  "view_node_state view node = view_node_entry view node BLOB_KEY"

definition view_members :: "group_view \<Rightarrow> node_id list" where
  "view_members v = fset_list (gv_live v)"

definition view_member_status :: "group_view \<Rightarrow> node_id \<Rightarrow> status option" where
  "view_member_status v node = map_option fst (fmlookup (gv_statuses v) node)"

definition view_statuses :: "group_view \<Rightarrow> (node_id \<times> status) list" where
  "view_statuses v = map (\<lambda>(n, (s, _)). (n, s)) (fentries (gv_statuses v))"

definition status_held_for :: "time \<Rightarrow> group_view \<Rightarrow> node_id \<Rightarrow> (status \<times> u64) option" where
  "status_held_for now v node =
    map_option (\<lambda>(status, since). (status, sat_sub now since)) (fmlookup (gv_statuses v) node)"

definition statuses_held :: "time \<Rightarrow> group_view \<Rightarrow> (node_id \<times> status \<times> u64) list" where
  "statuses_held now v =
    map (\<lambda>(node, (status, since)). (node, status, sat_sub now since)) (fentries (gv_statuses v))"

datatype bounded_roster_error = TooManyMembers nat nat | IdentityTooLong nat nat

definition statuses_held_bounded ::
    "time \<Rightarrow> nat \<Rightarrow> nat \<Rightarrow> group_view \<Rightarrow> bounded_roster_error + (node_id \<times> status \<times> u64) list" where
  "statuses_held_bounded now max_members max_member_bytes v = (
    if max_members < fcard (fmdom (gv_statuses v))
    then Inl (TooManyMembers (fcard (fmdom (gv_statuses v))) max_members)
    else case find (\<lambda>node. max_member_bytes < length (as_str node)) (keys_list (gv_statuses v)) of
      Some node \<Rightarrow> Inl (IdentityTooLong (length (as_str node)) max_member_bytes)
    | None \<Rightarrow> Inr (statuses_held now v))"


section \<open>Capabilities\<close>

definition CAPS_KEY :: str where
  "CAPS_KEY = ascii ''~caps''"

definition encode_caps :: "str list \<Rightarrow> bytes" where
  "encode_caps caps = concat (map (\<lambda>name. put_len (length name) @ name) (remdups_adj (sort caps)))"

lemma get_str_shorter: "get_str bs = Some (s, rest) \<Longrightarrow> length rest < length bs"
  by (auto simp: str.get_iff str_len_def)

function decode_caps_checked :: "bytes \<Rightarrow> str list option" where
  "decode_caps_checked bs = (
    if bs = [] then Some []
    else case get_str bs of
      None \<Rightarrow> None
    | Some (name, rest) \<Rightarrow> do { names \<leftarrow> decode_caps_checked rest; Some (name # names) })"
  by pat_completeness auto
termination
  by (relation "measure length") (auto dest: get_str_shorter)

declare decode_caps_checked.simps [simp del]

definition decode_caps :: "bytes \<Rightarrow> str list" where
  "decode_caps bs = (case decode_caps_checked bs of Some names \<Rightarrow> names | None \<Rightarrow> [])"

definition node_capabilities :: "entries_view \<Rightarrow> node_id \<Rightarrow> str list" where
  "node_capabilities view node = (case view_node_entry view node CAPS_KEY of
      Some bs \<Rightarrow> decode_caps bs | None \<Rightarrow> [])"

definition node_has_capability :: "entries_view \<Rightarrow> node_id \<Rightarrow> str \<Rightarrow> bool" where
  "node_has_capability view node cap \<longleftrightarrow> list_ex (\<lambda>c. c = cap) (node_capabilities view node)"

definition members_with_capability :: "group_view \<Rightarrow> str \<Rightarrow> node_id list" where
  "members_with_capability v cap = filter (\<lambda>node. node_has_capability (gv_entries v) node cap) (view_members v)"

text \<open>
  An advertisement of well-formed names is read back as the sorted set of its names.  A truncation
  that lands between two names reads as a smaller set.
\<close>

lemma decode_caps_names:
  "\<forall>name \<in> set names. str_ok name \<Longrightarrow>
    decode_caps_checked (concat (map (\<lambda>name. put_len (length name) @ name) names)) = Some names"
proof (induction names)
  case Nil
  show ?case by (simp add: decode_caps_checked.simps)
next
  case (Cons name names)
  have "put_len (length name) @ name @ rest = put_str name @ rest" for rest
    using Cons.prems by (simp add: put_str_def put_len_bytes str_ok_def)
  moreover have "put_str name \<noteq> []"
    using length_put_str(1) [of name] by (cases "put_str name = []") (simp_all add: str_len_def)
  moreover have "get_str (put_str name @ rest) = Some (name, rest)" for rest
    using Cons.prems by (simp add: str.get_put)
  ultimately show ?case
    using Cons by (subst decode_caps_checked.simps) simp
qed

lemma capabilities_round_trip:
  assumes "\<forall>name \<in> set caps. str_ok name"
  shows "decode_caps (encode_caps caps) = remdups_adj (sort caps)"
  using decode_caps_names [of "remdups_adj (sort caps)"] assms
  by (simp add: decode_caps_def encode_caps_def)

end
