(* ===== verification/Group_Actor.thy ===== *)
theory Group_Actor
  imports Persistent_Map Group_View Anchor_Driver
begin

text \<open>
  The group actor (\<open>crates/groupnet-runtime/src/driver.rs\<close>): the loop that feeds one engine, carries its
  effects out and publishes what readers see.  Here are the write-ahead half of the voter contract
  (\<open>driver/durability.rs\<close>), the published member views kept in persistent maps (\<open>driver/views.rs\<close>), and the
  turn that composes them.  The clock, the store's answers and the transport are arguments; what the
  actor puts on the wire and asks of the store is its log.
\<close>


section \<open>Grant durability\<close>

datatype write_answer = Done bool | Abandoned

record durability =
  du_store :: bool
  du_closed :: bool
  du_undurable :: "(u64 \<times> node_id) option"
  du_abandoned :: "(u64 \<times> node_id) option"

definition durability_new :: "bool \<Rightarrow> durability" where
  "durability_new store = \<lparr>du_store = store, du_closed = False, du_undurable = None, du_abandoned = None\<rparr>"

text \<open>\<open>answer\<close> is how the write of this grant ends, should one start.\<close>

definition persist :: "write_answer \<Rightarrow> u64 \<Rightarrow> node_id \<Rightarrow> durability \<Rightarrow> durability" where
  "persist answer epoch claimant d = (
    if \<not> du_store d then d
    else if du_closed d then d\<lparr>du_undurable := Some (epoch, claimant)\<rparr>
    else case answer of
      Done durable \<Rightarrow> d\<lparr>du_undurable := (if durable then None else Some (epoch, claimant))\<rparr>
    | Abandoned \<Rightarrow> d\<lparr>du_abandoned := Some (epoch, claimant), du_undurable := Some (epoch, claimant)\<rparr>)"

definition undurable_frame :: "bytes \<Rightarrow> u64 \<times> node_id \<Rightarrow> node_id \<Rightarrow> bool" where
  "undurable_frame wire grant local = (case decode wire of
      None \<Rightarrow> False
    | Some frame \<Rightarrow> (case fr_lead frame of
        Some (Grant sent to granter) \<Rightarrow> sent = fst grant \<and> to = snd grant \<and> granter = local
      | Some (Claim sent bidder) \<Rightarrow> sent = fst grant \<and> bidder = snd grant \<and> bidder = local
      | _ \<Rightarrow> False))"

definition withholds :: "durability \<Rightarrow> bytes \<Rightarrow> node_id \<Rightarrow> bool" where
  "withholds d wire local \<longleftrightarrow>
    (case du_undurable d of Some grant \<Rightarrow> undurable_frame wire grant local | None \<Rightarrow> False)"

record unfinished_grant =
  uf_group :: group_id
  uf_epoch :: u64
  uf_claimant :: node_id

definition into_unfinished :: "group_id \<Rightarrow> durability \<Rightarrow> unfinished_grant option" where
  "into_unfinished grp d =
    map_option (\<lambda>(epoch, claimant). \<lparr>uf_group = grp, uf_epoch = epoch, uf_claimant = claimant\<rparr>) (du_abandoned d)"


section \<open>Member views\<close>

type_synonym node_map = "(str, bytes) fmap"

record views =
  vw_live :: "(node_id, unit) pmap"
  vw_statuses :: "(node_id, status \<times> time) pmap"
  vw_entries :: "(node_id, node_map) pmap"
  vw_clock :: nat

record changed =
  ch_members :: bool
  ch_statuses :: bool
  ch_entries :: bool

definition views_node_entries :: "group_engine \<Rightarrow> node_id \<Rightarrow> node_map option" where
  "views_node_entries s node =
    (let entries = fmap_of_list (node_entries s node) in if entries = fmempty then None else Some entries)"

definition views_new :: "group_engine \<Rightarrow> views option" where
  "views_new s = do {
     live \<leftarrow> pmap_from_iter (map (\<lambda>node. (node, ())) (members_live s));
     statuses \<leftarrow> pmap_from_iter (map (\<lambda>(node, m). (node, (m_status m, m_status_since m))) (fentries (ge_members s)));
     entries \<leftarrow> pmap_from_iter (List.map_filter
       (\<lambda>(node, _). map_option (Pair node) (views_node_entries s node)) (member_statuses s));
     Some \<lparr>vw_live = live, vw_statuses = statuses, vw_entries = entries, vw_clock = ge_change_clock s\<rparr>
   }"

definition update_forgotten :: "group_engine \<Rightarrow> node_id \<Rightarrow> changed \<times> views \<Rightarrow> (changed \<times> views) option" where
  "update_forgotten s node st = (case st of (ch, v) \<Rightarrow>
    if member_status s node \<noteq> None then Some (ch, v)
    else do {
      (l, live) \<leftarrow> pmap_remove (vw_live v) node;
      (t, statuses) \<leftarrow> pmap_remove (vw_statuses v) node;
      (e, entries) \<leftarrow> pmap_remove (vw_entries v) node;
      Some (\<lparr>ch_members = ch_members ch \<or> l, ch_statuses = ch_statuses ch \<or> t, ch_entries = ch_entries ch \<or> e\<rparr>,
            v\<lparr>vw_live := live, vw_statuses := statuses, vw_entries := entries\<rparr>)
    })"

definition update_status :: "node_id \<Rightarrow> status \<times> time \<Rightarrow> changed \<times> views \<Rightarrow> (changed \<times> views) option" where
  "update_status node held st = (case st of (ch, v) \<Rightarrow>
    if pmap_get (vw_statuses v) node = Some held then Some (ch, v)
    else do {
      statuses \<leftarrow> pmap_insert (vw_statuses v) node held;
      Some (ch\<lparr>ch_statuses := True\<rparr>, v\<lparr>vw_statuses := statuses\<rparr>)
    })"

definition update_live :: "node_id \<Rightarrow> bool \<Rightarrow> changed \<times> views \<Rightarrow> (changed \<times> views) option" where
  "update_live node live st = (case st of (ch, v) \<Rightarrow>
    if live = pmap_contains_key (vw_live v) node then Some (ch, v)
    else do {
      m \<leftarrow> (if live then pmap_insert (vw_live v) node () else map_option snd (pmap_remove (vw_live v) node));
      Some (ch\<lparr>ch_members := True\<rparr>, v\<lparr>vw_live := m\<rparr>)
    })"

definition update_changed :: "group_engine \<Rightarrow> node_id \<Rightarrow> changed \<times> views \<Rightarrow> (changed \<times> views) option" where
  "update_changed s node st = (case member_status_since s node of
      None \<Rightarrow> Some st
    | Some held \<Rightarrow> do {
        st \<leftarrow> update_status node held st;
        update_live node (fst held \<noteq> Dead) st
      })"

definition update_touched :: "group_engine \<Rightarrow> node_id \<Rightarrow> changed \<times> views \<Rightarrow> (changed \<times> views) option" where
  "update_touched s node st = (case st of (ch, v) \<Rightarrow> do {
     entries \<leftarrow> (case views_node_entries s node of
        Some es \<Rightarrow> pmap_insert (vw_entries v) node es
      | None \<Rightarrow> map_option snd (pmap_remove (vw_entries v) node));
     Some (ch\<lparr>ch_entries := True\<rparr>, v\<lparr>vw_entries := entries\<rparr>)
   })"

fun each :: "('a \<Rightarrow> 'b \<Rightarrow> 'b option) \<Rightarrow> 'a list \<Rightarrow> 'b \<Rightarrow> 'b option" where
  "each f [] st = Some st"
| "each f (x # xs) st = do { st \<leftarrow> f x st; each f xs st }"

definition views_update :: "group_engine \<Rightarrow> node_id list \<Rightarrow> views \<Rightarrow> (changed \<times> views) option" where
  "views_update s touched v =
    (let since = vw_clock v; v = v\<lparr>vw_clock := ge_change_clock s\<rparr> in
     case members_forgotten_since since s of
       None \<Rightarrow> map_option (Pair \<lparr>ch_members = True, ch_statuses = True, ch_entries = True\<rparr>) (views_new s)
     | Some forgotten \<Rightarrow> do {
         st \<leftarrow> each (update_forgotten s) forgotten (\<lparr>ch_members = False, ch_statuses = False, ch_entries = False\<rparr>, v);
         st \<leftarrow> each (update_changed s) (members_changed_since since s) st;
         each (update_touched s) touched st
       })"


section \<open>Carrying effects out\<close>

text \<open>
  What the actor does to the world: frames handed to the transport, grant writes with their outcome.
\<close>

datatype io_event = Sent node_id bytes | Wrote u64 node_id bool

record publishers =
  pb_coordinator :: "node_id option"
  pb_leadership :: leadership_view
  pb_metadata :: "(str, str) fmap"
  pb_members :: "(node_id, unit) pmap"
  pb_statuses :: "(node_id, status \<times> time) pmap"
  pb_entries :: "(node_id, node_map) pmap"
  pb_net_stats :: net_stats
  pb_resign_pending :: nat

record group_actor =
  ac_engine :: group_engine
  ac_durability :: durability
  ac_views :: views
  ac_published :: publishers
  ac_prompt :: "u64 option option"
  ac_announced :: "node_id option"
  ac_last_tick :: "time option"
  ac_log :: "io_event list"

text \<open>\<open>ac_prompt\<close> is the capacity-one channel to the anchor task, if there is one.\<close>

definition write_starts :: "durability \<Rightarrow> bool" where
  "write_starts d \<longleftrightarrow> du_store d \<and> \<not> du_closed d"

fun dispatch_effect :: "(u64 \<Rightarrow> node_id \<Rightarrow> write_answer) \<Rightarrow> node_id \<Rightarrow> effect \<Rightarrow> group_actor \<Rightarrow> group_actor" where
  "dispatch_effect store local (Send to wire) a = (
     if withholds (ac_durability a) wire local then a
     else a\<lparr>ac_log := ac_log a @ [Sent to wire]\<rparr>)"
| "dispatch_effect store local (PersistGrant epoch claimant) a =
     a\<lparr>ac_durability := persist (store epoch claimant) epoch claimant (ac_durability a),
       ac_log := (if write_starts (ac_durability a)
         then ac_log a @ [Wrote epoch claimant (store epoch claimant = Done True)] else ac_log a)\<rparr>"
| "dispatch_effect store local (CoordinatorChanged c) a =
     a\<lparr>ac_published := (ac_published a)\<lparr>pb_coordinator := c\<rparr>\<rparr>"
| "dispatch_effect store local (LeadershipChanged epoch host) a =
     a\<lparr>ac_published := (ac_published a)\<lparr>pb_leadership := observed epoch host local\<rparr>\<rparr>"
| "dispatch_effect store local (AnchorClaimDue epoch_hint) a =
     a\<lparr>ac_prompt := (case ac_prompt a of Some None \<Rightarrow> Some (Some epoch_hint) | p \<Rightarrow> p)\<rparr>"
| "dispatch_effect store local (ArmTimer _) a = a"
| "dispatch_effect store local MembershipChanged a = a"
| "dispatch_effect store local (NodeStateChanged _ _) a = a"
| "dispatch_effect store local (MetadataChanged _ _) a = a"

definition dispatch_batch ::
    "(u64 \<Rightarrow> node_id \<Rightarrow> write_answer) \<Rightarrow> node_id \<Rightarrow> effect list \<Rightarrow> group_actor \<Rightarrow> group_actor" where
  "dispatch_batch store local effects a = fold (dispatch_effect store local) effects a"


section \<open>Publishing\<close>

datatype group_edge =
    CoordinatorEdge "node_id option"
  | MembershipEdge
  | LeadershipEdge u64 "node_id option"
  | NodeStateEdge node_id str
  | MetadataEdge str

fun emit_event :: "effect \<Rightarrow> group_edge option" where
  "emit_event (CoordinatorChanged c) = Some (CoordinatorEdge c)"
| "emit_event MembershipChanged = Some MembershipEdge"
| "emit_event (LeadershipChanged epoch host) = Some (LeadershipEdge epoch host)"
| "emit_event (NodeStateChanged node key) = Some (NodeStateEdge node key)"
| "emit_event (MetadataChanged key _) = Some (MetadataEdge key)"
| "emit_event _ = None"

definition coordinator_key :: "group_id \<Rightarrow> str" where
  "coordinator_key grp = ascii ''coord:'' @ group_str grp"

text \<open>The command for the routing group, if there is one, and what was announced last.\<close>

definition announce_coordinator :: "bool \<Rightarrow> group_engine \<Rightarrow> node_id option \<Rightarrow> command option \<times> node_id option" where
  "announce_coordinator routing s announced = (
    if \<not> routing \<or> ge_coordinator s = announced then (None, announced)
    else (map_option (\<lambda>c. UpdateMetadata (coordinator_key (ge_group s)) (as_str c)) (ge_coordinator s),
          ge_coordinator s))"

definition touched_nodes :: "effect list \<Rightarrow> node_id list" where
  "touched_nodes effects = fset_list (fset_of_list (List.map_filter
     (\<lambda>e. case e of NodeStateChanged node _ \<Rightarrow> Some node | _ \<Rightarrow> None) effects))"

definition publish_actor_views ::
    "bool \<Rightarrow> effect list \<Rightarrow> group_actor \<Rightarrow> (command option \<times> group_edge list \<times> group_actor) option" where
  "publish_actor_views routing effects a =
    (let s = ac_engine a;
         pb = ac_published a;
         pb = (if list_ex (\<lambda>e. case e of MetadataChanged _ _ \<Rightarrow> True | _ \<Rightarrow> False) effects
           then pb\<lparr>pb_metadata := fmap_of_list (map (\<lambda>(k, v). (k, vv_value v)) (fentries (ge_metadata s)))\<rparr> else pb);
         pb = pb\<lparr>pb_resign_pending := resign_pending s\<rparr>
     in do {
       (ch, v) \<leftarrow> views_update s (touched_nodes effects) (ac_views a);
       let pb = (if ch_members ch then pb\<lparr>pb_members := vw_live v\<rparr> else pb);
       let pb = (if ch_statuses ch then pb\<lparr>pb_statuses := vw_statuses v\<rparr> else pb);
       let (cmd, announced) = (if list_ex (\<lambda>e. e = MembershipChanged) effects
         then announce_coordinator routing s (ac_announced a) else (None, ac_announced a));
       let pb = (if ch_entries ch then pb\<lparr>pb_entries := vw_entries v\<rparr> else pb);
       let pb = pb\<lparr>pb_net_stats := ge_stats s\<rparr>;
       Some (cmd, List.map_filter emit_event effects,
         a\<lparr>ac_views := v, ac_published := pb, ac_announced := announced\<rparr>)
     })"


section \<open>Turns\<close>

record entry_revision =
  er_key :: "u64 option"
  er_member :: u64

datatype actor_event =
    Message node_id bytes
  | Local command
  | SetEntryConfirmed str bytes "u64 option"
  | SetEntryIfRevision str bytes "u64 option" entry_revision
  | DeleteEntryIfValue str bytes

definition revision_holds :: "group_engine \<Rightarrow> str \<Rightarrow> entry_revision \<Rightarrow> bool" where
  "revision_holds s key expected \<longleftrightarrow>
    (case member_state_version s (ge_local s) of
       None \<Rightarrow> False
     | Some version \<Rightarrow> version < u64_max \<and>
         (case er_key expected of
            Some expected_key \<Rightarrow> node_entry_version s (ge_local s) key = Some expected_key
          | None \<Rightarrow> node_entry_version s (ge_local s) key = None \<and> version = er_member expected))"

definition value_holds :: "time \<Rightarrow> group_engine \<Rightarrow> str \<Rightarrow> bytes \<Rightarrow> bool" where
  "value_holds now s key expected \<longleftrightarrow>
    (case node_entry s (ge_local s) key of
       None \<Rightarrow> False
     | Some value \<Rightarrow> (case node_entry_expires_at s (ge_local s) key of None \<Rightarrow> True | Some expiry \<Rightarrow> now < expiry)
         \<and> value = expected)"

text \<open>
  The effects of an event on the engine, and the answer a mutation's caller is told once the views are
  published.
\<close>

fun apply_actor_event :: "time \<Rightarrow> actor_event \<Rightarrow> group_engine \<Rightarrow> (effect list \<times> bool option) \<times> group_engine" where
  "apply_actor_event now (Message from wire) s = (let (es, t) = on_message from wire now s in ((es, None), t))"
| "apply_actor_event now (Local cmd) s = (let (es, t) = apply_cmd cmd s in ((es, None), t))"
| "apply_actor_event now (SetEntryConfirmed key value ttl) s =
     (let (es, t) = on_tick now s; (es', u) = apply_cmd (SetLocalEntry key value ttl) t in
      ((es @ es', Some (es' \<noteq> [])), u))"
| "apply_actor_event now (SetEntryIfRevision key value ttl expected) s =
     (let (es, t) = on_tick now s in
      if revision_holds t key expected
      then let (es', u) = apply_cmd (SetLocalEntry key value ttl) t in ((es @ es', Some True), u)
      else ((es, Some False), t))"
| "apply_actor_event now (DeleteEntryIfValue key expected) s =
     (let (es, t) = on_tick now s in
      if value_holds now t key expected
      then let (es', u) = apply_cmd (DeleteLocalEntry key) t in ((es @ es', Some (es' \<noteq> [])), u)
      else ((es, Some False), t))"

definition tick_at :: "time \<Rightarrow> time option \<Rightarrow> time" where
  "tick_at deadline last_tick = (case last_tick of
      None \<Rightarrow> deadline | Some tick \<Rightarrow> max deadline (time_saturating_add tick 1))"

definition carry_out ::
    "(u64 \<Rightarrow> node_id \<Rightarrow> write_answer) \<Rightarrow> bool \<Rightarrow> effect list \<Rightarrow> group_actor
      \<Rightarrow> (command option \<times> group_edge list \<times> group_actor) option" where
  "carry_out store routing effects a =
    publish_actor_views routing effects (dispatch_batch store (ge_local (ac_engine a)) effects a)"

definition actor_event_turn ::
    "(u64 \<Rightarrow> node_id \<Rightarrow> write_answer) \<Rightarrow> bool \<Rightarrow> time \<Rightarrow> actor_event \<Rightarrow> group_actor
      \<Rightarrow> (bool option \<times> command option \<times> group_edge list \<times> group_actor) option" where
  "actor_event_turn store routing now event a =
    (let ((effects, completion), s) = apply_actor_event now event (ac_engine a) in
     map_option (Pair completion) (carry_out store routing effects (a\<lparr>ac_engine := s\<rparr>)))"

definition actor_tick_turn ::
    "(u64 \<Rightarrow> node_id \<Rightarrow> write_answer) \<Rightarrow> bool \<Rightarrow> time \<Rightarrow> group_actor
      \<Rightarrow> (command option \<times> group_edge list \<times> group_actor) option" where
  "actor_tick_turn store routing now a =
    (let (effects, s) = on_tick now (ac_engine a) in
     carry_out store routing effects (a\<lparr>ac_engine := s, ac_last_tick := Some now\<rparr>))"

text \<open>The boot: the engine starts, its effects are carried out, and the coordinator is announced.\<close>

definition actor_boot ::
    "(u64 \<Rightarrow> node_id \<Rightarrow> write_answer) \<Rightarrow> bool \<Rightarrow> time \<Rightarrow> group_actor \<Rightarrow> command option \<times> group_actor" where
  "actor_boot store routing now a =
    (let (effects, s) = start now (ac_engine a);
         a = dispatch_batch store (ge_local (ac_engine a)) effects (a\<lparr>ac_engine := s\<rparr>);
         (cmd, announced) = announce_coordinator routing s (ac_announced a) in
     (cmd, a\<lparr>ac_announced := announced\<rparr>))"


section \<open>Spawning a group\<close>

text \<open>
  What a node joins a group under (\<open>node/profile.rs\<close>).  A voter's storage is the grant it recovered, an
  anchor is whether there is one; the store and the anchor themselves are arguments of the turns.
\<close>

datatype group_profile =
    EventualProfile
  | SettleProfile u64 u64
  | QuorumProfile u64 voter_roster "recovered_grant option"
  | ExternalProfile u64 u64 bool

record posture =
  po_mode :: group_mode
  po_storage :: "recovered_grant option"
  po_anchor :: "(u64 \<times> u64) option"

definition posture_from_mode :: "group_mode \<Rightarrow> posture" where
  "posture_from_mode m = \<lparr>po_mode = m, po_storage = None, po_anchor = None\<rparr>"

definition hosted_mode :: "activation \<Rightarrow> u64 \<Rightarrow> group_mode" where
  "hosted_mode act lease_ms = Hosted \<lparr>hc_activation = act, hc_lease_ms = lease_ms\<rparr>"

fun posture_of :: "group_profile \<Rightarrow> posture" where
  "posture_of EventualProfile = posture_from_mode Eventual"
| "posture_of (SettleProfile lease_ms claim_settle_ms) = posture_from_mode (hosted_mode (Settle claim_settle_ms) lease_ms)"
| "posture_of (QuorumProfile lease_ms r storage) =
     \<lparr>po_mode = hosted_mode (Quorum r) lease_ms, po_storage = storage, po_anchor = None\<rparr>"
| "posture_of (ExternalProfile lease_ms steal_margin_ms anchor) =
     \<lparr>po_mode = hosted_mode (External steal_margin_ms) lease_ms, po_storage = None,
      po_anchor = (if anchor then Some (lease_ms, steal_margin_ms) else None)\<rparr>"

definition ROUTING_GROUP :: str where
  "ROUTING_GROUP = ascii ''__groupnet_routing__''"

definition build_engine ::
    "group_id \<Rightarrow> node_id \<Rightarrow> node_id list \<Rightarrow> config \<Rightarrow> recovered_grant option \<Rightarrow> config_error + group_engine \<times> bool" where
  "build_engine grp local seeds cfg storage = (case storage of
      Some recovered \<Rightarrow> map_sum id (\<lambda>rec. (restore rec recovered, True)) (recovering grp local seeds cfg)
    | None \<Rightarrow> map_sum id (\<lambda>s. (s, False)) (engine_new grp local seeds cfg))"

text \<open>\<open>None\<close> is the panic on a configuration the node never validated, or a view that does not fit.\<close>

definition spawn_group ::
    "config \<Rightarrow> node_id list \<Rightarrow> node_id list \<Rightarrow> node_id \<Rightarrow> group_id \<Rightarrow> posture \<Rightarrow> group_actor option" where
  "spawn_group node_config seeds reachable local grp po =
    (let po = (if group_str grp = ROUTING_GROUP then posture_from_mode Eventual else po);
         cfg = node_config\<lparr>mode := po_mode po\<rparr>
     in case build_engine grp local seeds cfg (po_storage po) of
       Inl _ \<Rightarrow> None
     | Inr (s, store) \<Rightarrow>
         let s = snd (apply_cmd (SetBootstrapContacts reachable) s); (epoch, host) = leadership s in do {
           v \<leftarrow> views_new s;
           Some \<lparr>ac_engine = s, ac_durability = durability_new store, ac_views = v,
             ac_published = \<lparr>pb_coordinator = ge_coordinator s, pb_leadership = observed epoch host local,
               pb_metadata = fmempty, pb_members = vw_live v, pb_statuses = vw_statuses v,
               pb_entries = vw_entries v, pb_net_stats = net_stats_default, pb_resign_pending = 0\<rparr>,
             ac_prompt = (if po_anchor po = None then None else Some None), ac_announced = None,
             ac_last_tick = None, ac_log = []\<rparr>
         })"

end
