(* ===== verification/Actor_Views.thy ===== *)
theory Actor_Views
  imports Change_Tracking Group_Actor
begin

text \<open>
  What the group actor publishes is what its engine knows: the persistent maps it keeps by folding in only
  the changed members (\<open>driver/views.rs\<close>) are the maps a full rebuild would give, after every turn.
\<close>


section \<open>Views and what they should show\<close>

definition live_view :: "group_engine \<Rightarrow> node_id \<Rightarrow> unit option" where
  "live_view s n = (case member_status_since s n of None \<Rightarrow> None | Some (st, _) \<Rightarrow> if st = Dead then None else Some ())"

type_synonym shown = "unit option \<times> (status \<times> time) option \<times> node_map option"

definition truth :: "group_engine \<Rightarrow> node_id \<Rightarrow> shown" where
  "truth s n = (live_view s n, member_status_since s n, views_node_entries s n)"

definition seen :: "views \<Rightarrow> node_id \<Rightarrow> shown" where
  "seen v n = (pmap_get (vw_live v) n, pmap_get (vw_statuses v) n, pmap_get (vw_entries v) n)"

definition views_ok :: "views \<Rightarrow> bool" where
  "views_ok v \<longleftrightarrow> pmap_ok (vw_live v) \<and> pmap_ok (vw_statuses v) \<and> pmap_ok (vw_entries v)"

definition mirrors :: "views \<Rightarrow> group_engine \<Rightarrow> bool" where
  "mirrors v s \<longleftrightarrow> views_ok v \<and> seen v = truth s \<and> vw_clock v = ge_change_clock s"

text \<open>A flag that stays down vouches for its map.\<close>

definition tells :: "views \<Rightarrow> changed \<Rightarrow> views \<Rightarrow> bool" where
  "tells v0 ch v \<longleftrightarrow> (ch_members ch \<or> pmap_get (vw_live v) = pmap_get (vw_live v0))
     \<and> (ch_statuses ch \<or> pmap_get (vw_statuses v) = pmap_get (vw_statuses v0))
     \<and> (ch_entries ch \<or> pmap_get (vw_entries v) = pmap_get (vw_entries v0))"

definition room :: "group_engine \<Rightarrow> bool" where
  "room s \<longleftrightarrow> fcard (fmdom (ge_members s)) < 2 ^ 64 - 1"

definition fits :: "(node_id, 'v) pmap \<Rightarrow> group_engine \<Rightarrow> bool" where
  "fits m s \<longleftrightarrow> (\<forall>n. pmap_get m n \<noteq> None \<longrightarrow> n |\<in>| fmdom (ge_members s))"

lemma fits_room:
  assumes "pmap_ok m" "fits m s" "room s"
  shows "unat (pmap_len m) < 2 ^ 64 - 1"
proof -
  have "fmdom (pmap_abs m) |\<subseteq>| fmdom (ge_members s)"
    using assms(2) by (auto simp: fits_def pmap_ok_views(1) [OF assms(1)] fmdom_notI)
  then have "fcard (fmdom (pmap_abs m)) \<le> fcard (fmdom (ge_members s))" by (rule fcard_mono)
  with assms(3) show ?thesis by (simp add: room_def pmap_ok_views(3) [OF assms(1)])
qed

lemma insert_fits:
  assumes "pmap_ok m" "fits m s" "room s" "n |\<in>| fmdom (ge_members s)"
  obtains m' where "pmap_insert m n x = Some m'" "pmap_ok m'" "pmap_get m' = (pmap_get m)(n := Some x)" "fits m' s"
proof -
  obtain m' where m': "pmap_insert m n x = Some m'" "pmap_ok m'" "pmap_abs m' = fmupd n x (pmap_abs m)"
    using pmap_insert_ok [OF assms(1) fits_room [OF assms(1-3)]] by blast
  then have g: "pmap_get m' = (pmap_get m)(n := Some x)"
    by (auto simp: pmap_ok_views(1) assms(1))
  with assms(2,4) have "fits m' s" by (auto simp: fits_def)
  with that m' g show thesis by blast
qed

lemma remove_fits:
  assumes "pmap_ok m"
  obtains m' where "pmap_remove m n = Some (pmap_get m n \<noteq> None, m')" "pmap_ok m'" "pmap_get m' = (pmap_get m)(n := None)"
proof -
  obtain m' where m': "pmap_remove m n = Some (n |\<in>| fmdom (pmap_abs m), m')" "pmap_ok m'" "pmap_abs m' = fmdrop n (pmap_abs m)"
    using pmap_remove_ok [OF assms] by blast
  then have "pmap_get m' = (pmap_get m)(n := None)"
    by (auto simp: pmap_ok_views(1) assms)
  moreover have "n |\<in>| fmdom (pmap_abs m) \<longleftrightarrow> pmap_get m n \<noteq> None"
    by (simp add: pmap_ok_views(1) [OF assms] fmlookup_dom_iff)
  ultimately show thesis using that m' by simp
qed

lemma fits_drop: "fits m s \<Longrightarrow> pmap_get m' = (pmap_get m)(n := None) \<Longrightarrow> fits m' s"
  by (auto simp: fits_def split: if_splits)

lemma contains_get: "pmap_contains_key m n \<longleftrightarrow> pmap_get m n \<noteq> None"
  by (simp add: pmap_contains_key_def)


section \<open>Building them in full\<close>

lemma extend_ok:
  "\<lbrakk>pmap_ok m; unat (pmap_len m) + length xs < 2 ^ 64\<rbrakk> \<Longrightarrow>
     \<exists>m'. pmap_extend m xs = Some m' \<and> pmap_ok m' \<and> pmap_get m' = pmap_get m ++ map_of (rev xs)"
proof (induction m xs rule: pmap_extend.induct)
  case (2 m k v kvs)
  obtain m' where m': "pmap_insert m k v = Some m'" "pmap_ok m'" "pmap_abs m' = fmupd k v (pmap_abs m)"
    "unat (pmap_len m') \<le> Suc (unat (pmap_len m))"
    using pmap_insert_ok [OF 2(2)] 2(3) by auto
  then have g: "pmap_get m' = (pmap_get m)(k := Some v)" by (auto simp: pmap_ok_views(1) 2(2))
  from 2(1) [OF m'(1,2)] m'(4) 2(3) obtain m'' where
    "pmap_extend m' kvs = Some m''" "pmap_ok m''" "pmap_get m'' = pmap_get m' ++ map_of (rev kvs)" by auto
  with m'(1) g show ?case by (auto simp: map_add_def split: option.splits)
qed simp

lemma from_iter_ok:
  fixes xs :: "('k :: linorder \<times> 'v) list"
  assumes "distinct (map fst xs)" "length xs < 2 ^ 64"
  obtains m where "pmap_from_iter xs = Some m" "pmap_ok m" "pmap_get m = map_of xs"
proof -
  have "pmap_get (pmap_default :: ('k, 'v) pmap) = (\<lambda>_. None)"
    by (simp add: fun_eq_iff pmap_get_def pmap_default_def)
  moreover have "unat (pmap_len (pmap_default :: ('k, 'v) pmap)) = 0" by (simp add: pmap_default_def)
  moreover have "map_of (rev xs) = map_of xs" using assms(1) map_of_inject_set [of "rev xs" xs] by (simp add: rev_map [symmetric])
  ultimately show thesis
    using extend_ok [OF pmap_default_ok(1), of xs] assms(2) that by (auto simp: pmap_from_iter_def)
qed

text \<open>Iterators over some of the members, one entry each.\<close>

definition of_members :: "group_engine \<Rightarrow> (node_id \<Rightarrow> 'v option) \<Rightarrow> (node_id \<times> 'v) list \<Rightarrow> bool" where
  "of_members s f xs \<longleftrightarrow> map fst xs = filter (\<lambda>n. f n \<noteq> None) (keys_list (ge_members s))
     \<and> (\<forall>(n, x) \<in> set xs. f n = Some x) \<and> (\<forall>n. f n \<noteq> None \<longrightarrow> n |\<in>| fmdom (ge_members s))"

lemma from_members_ok:
  assumes "of_members s f xs" "room s"
  obtains m where "pmap_from_iter xs = Some m" "pmap_ok m" "pmap_get m = f"
proof -
  have keys: "map fst xs = filter (\<lambda>n. f n \<noteq> None) (keys_list (ge_members s))"
    and vals: "\<And>n x. (n, x) \<in> set xs \<Longrightarrow> f n = Some x"
    and dom: "\<And>n. f n \<noteq> None \<Longrightarrow> n |\<in>| fmdom (ge_members s)"
    using assms(1) by (auto simp: of_members_def)
  have d: "distinct (map fst xs)" by (simp add: keys)
  have "length xs = length (filter (\<lambda>n. f n \<noteq> None) (keys_list (ge_members s)))"
    using keys by (metis length_map)
  also have "\<dots> \<le> length (keys_list (ge_members s))" by (rule length_filter_le)
  also have "\<dots> = fcard (fmdom (ge_members s))"
    using distinct_card [OF distinct_keys_list [of "ge_members s"]] by (simp add: fcard.rep_eq)
  finally have "length xs < 2 ^ 64" using assms(2) by (simp add: room_def)
  from from_iter_ok [OF d this] obtain m where m: "pmap_from_iter xs = Some m" "pmap_ok m" "pmap_get m = map_of xs" .
  have "map_of xs n = f n" for n
  proof (cases "f n")
    case None
    have "n \<notin> set (map fst xs)" unfolding keys using None by simp
    then have "n \<notin> fst ` set xs" by simp
    with None show ?thesis by (metis map_of_eq_None_iff)
  next
    case (Some x)
    then have "n \<in> set (map fst xs)" unfolding keys using dom [of n] by simp
    then obtain y where "(n, y) \<in> set xs" by auto
    with vals [OF this] d Some show ?thesis by (metis map_of_is_SomeI)
  qed
  with that m show thesis by (simp add: fun_eq_iff)
qed

lemma map_fst_filter: "map fst (filter P xs) = filter Q (map fst xs)" if "\<And>x. x \<in> set xs \<Longrightarrow> P x \<longleftrightarrow> Q (fst x)"
  using that by (induction xs) auto

lemma views_new_ok:
  assumes "room s"
  obtains v where "views_new s = Some v" "mirrors v s"
proof -
  have "of_members s (live_view s) (map (\<lambda>node. (node, ())) (members_live s))"
    unfolding of_members_def members_live_def map_map comp_def fst_conv
    by (subst map_fst_filter [where Q = "\<lambda>n. live_view s n \<noteq> None"])
       (auto simp: live_view_def member_status_since_def in_fentries_iff fmlookup_dom_iff split: option.splits if_splits)
  then obtain l where l: "pmap_from_iter (map (\<lambda>node. (node, ())) (members_live s)) = Some l" "pmap_ok l"
    "pmap_get l = live_view s" using from_members_ok assms by blast
  have "of_members s (member_status_since s) (map (\<lambda>(node, m). (node, (m_status m, m_status_since m))) (fentries (ge_members s)))"
  proof -
    have "map fst (map (\<lambda>(node, m). (node, (m_status m, m_status_since m))) (fentries (ge_members s))) = keys_list (ge_members s)"
      by (simp add: comp_def case_prod_beta flip: map_fst_fentries)
    moreover have "filter (\<lambda>n. member_status_since s n \<noteq> None) (keys_list (ge_members s)) = keys_list (ge_members s)"
      by (auto simp: filter_id_conv member_status_since_def fmlookup_dom_iff)
    ultimately show ?thesis
      by (auto simp: of_members_def member_status_since_def in_fentries_iff fmlookup_dom_iff)
  qed
  then obtain t where t: "pmap_from_iter (map (\<lambda>(node, m). (node, (m_status m, m_status_since m))) (fentries (ge_members s))) = Some t"
    "pmap_ok t" "pmap_get t = member_status_since s" using from_members_ok assms by blast
  have "of_members s (views_node_entries s)
      (List.map_filter (\<lambda>(node, _). map_option (Pair node) (views_node_entries s node)) (member_statuses s))"
  proof -
    have "map fst (List.map_filter (\<lambda>(node, _). map_option (Pair node) (h node)) xs) = filter (\<lambda>n. h n \<noteq> None) (map fst xs)"
      for h :: "node_id \<Rightarrow> node_map option" and xs :: "(node_id \<times> status) list"
      by (induction xs) (auto simp: List.map_filter_simps split: option.split)
    moreover have "map fst (member_statuses s) = keys_list (ge_members s)"
      by (simp add: member_statuses_def comp_def case_prod_beta flip: map_fst_fentries)
    moreover have "n |\<in>| fmdom (ge_members s)" if "views_node_entries s n \<noteq> None" for n
      using that by (auto simp: views_node_entries_def node_entries_def fmlookup_dom_iff Let_def split: option.splits if_splits)
    ultimately show ?thesis by (auto simp: of_members_def List.map_filter_def)
  qed
  then obtain e where e: "pmap_from_iter (List.map_filter (\<lambda>(node, _). map_option (Pair node) (views_node_entries s node))
      (member_statuses s)) = Some e" "pmap_ok e" "pmap_get e = views_node_entries s" using from_members_ok assms by blast
  from l t e show thesis
    by (intro that [of "\<lparr>vw_live = l, vw_statuses = t, vw_entries = e, vw_clock = ge_change_clock s\<rparr>"])
       (simp_all add: views_new_def mirrors_def views_ok_def seen_def truth_def fun_eq_iff)
qed


section \<open>Folding changes in\<close>

text \<open>A step on flags and views keeps them sound and shows \<open>f\<close> of what was shown.\<close>

definition folds :: "views \<Rightarrow> ((node_id \<Rightarrow> shown) \<Rightarrow> node_id \<Rightarrow> shown) \<Rightarrow> (changed \<times> views) \<Rightarrow> (changed \<times> views) option \<Rightarrow> bool" where
  "folds v0 f st res \<longleftrightarrow> (\<exists>ch v. res = Some (ch, v) \<and> views_ok v \<and> tells v0 ch v
     \<and> seen v = f (seen (snd st)) \<and> vw_clock v = vw_clock (snd st))"

definition gone :: "node_id \<Rightarrow> (node_id \<Rightarrow> shown) \<Rightarrow> node_id \<Rightarrow> shown" where
  "gone n x = x(n := (None, None, None))"

lemma seen_updates:
  "seen (v\<lparr>vw_live := l\<rparr>) n = (pmap_get l n, snd (seen v n))"
  "seen (v\<lparr>vw_statuses := t\<rparr>) n = (fst (seen v n), pmap_get t n, snd (snd (seen v n)))"
  "seen (v\<lparr>vw_entries := e\<rparr>) n = (fst (seen v n), fst (snd (seen v n)), pmap_get e n)"
  by (simp_all add: seen_def)

lemma update_forgotten_folds:
  assumes "views_ok v" "tells v0 ch v"
  shows "folds v0 (if member_status s n = None then gone n else id) (ch, v) (update_forgotten s n (ch, v))"
proof (cases "member_status s n = None")
  case False
  with assms show ?thesis by (auto simp: folds_def update_forgotten_def)
next
  case True
  from assms(1) have ok: "pmap_ok (vw_live v)" "pmap_ok (vw_statuses v)" "pmap_ok (vw_entries v)"
    by (simp_all add: views_ok_def)
  obtain l where l: "pmap_remove (vw_live v) n = Some (pmap_get (vw_live v) n \<noteq> None, l)" "pmap_ok l"
    "pmap_get l = (pmap_get (vw_live v))(n := None)" using remove_fits [OF ok(1)] by blast
  obtain t where t: "pmap_remove (vw_statuses v) n = Some (pmap_get (vw_statuses v) n \<noteq> None, t)" "pmap_ok t"
    "pmap_get t = (pmap_get (vw_statuses v))(n := None)" using remove_fits [OF ok(2)] by blast
  obtain e where e: "pmap_remove (vw_entries v) n = Some (pmap_get (vw_entries v) n \<noteq> None, e)" "pmap_ok e"
    "pmap_get e = (pmap_get (vw_entries v))(n := None)" using remove_fits [OF ok(3)] by blast
  define bl bt be where "bl = (pmap_get (vw_live v) n \<noteq> None)" and "bt = (pmap_get (vw_statuses v) n \<noteq> None)"
    and "be = (pmap_get (vw_entries v) n \<noteq> None)"
  define ch' where "ch' = \<lparr>ch_members = ch_members ch \<or> bl, ch_statuses = ch_statuses ch \<or> bt, ch_entries = ch_entries ch \<or> be\<rparr>"
  have res: "update_forgotten s n (ch, v) = Some (ch', v\<lparr>vw_live := l, vw_statuses := t, vw_entries := e\<rparr>)"
    using True by (simp add: update_forgotten_def ch'_def l(1) t(1) e(1) bl_def bt_def be_def)
  have "bl \<or> pmap_get l = pmap_get (vw_live v)" "bt \<or> pmap_get t = pmap_get (vw_statuses v)"
    "be \<or> pmap_get e = pmap_get (vw_entries v)"
    unfolding bl_def bt_def be_def l(3) t(3) e(3) by (metis fun_upd_triv)+
  then have "tells v0 ch' (v\<lparr>vw_live := l, vw_statuses := t, vw_entries := e\<rparr>)"
    using assms(2) by (auto simp: tells_def ch'_def)
  moreover have "seen (v\<lparr>vw_live := l, vw_statuses := t, vw_entries := e\<rparr>) = gone n (seen v)"
    by (auto simp: fun_eq_iff seen_def gone_def l(3) t(3) e(3))
  ultimately show ?thesis
    using True res l(2) t(2) e(2) by (simp add: folds_def views_ok_def)
qed

definition status_now :: "group_engine \<Rightarrow> node_id \<Rightarrow> (node_id \<Rightarrow> shown) \<Rightarrow> node_id \<Rightarrow> shown" where
  "status_now s n x = (if member_status_since s n = None then x
     else x(n := (live_view s n, member_status_since s n, snd (snd (x n)))))"

definition entries_now :: "group_engine \<Rightarrow> node_id \<Rightarrow> (node_id \<Rightarrow> shown) \<Rightarrow> node_id \<Rightarrow> shown" where
  "entries_now s n x = x(n := (fst (x n), fst (snd (x n)), views_node_entries s n))"

definition within :: "group_engine \<Rightarrow> views \<Rightarrow> bool" where
  "within s v \<longleftrightarrow> fits (vw_live v) s \<and> fits (vw_statuses v) s \<and> fits (vw_entries v) s"

lemma update_changed_folds:
  assumes "views_ok v" "tells v0 ch v" "within s v" "room s"
  shows "folds v0 (status_now s n) (ch, v) (update_changed s n (ch, v))"
proof (cases "member_status_since s n")
  case None
  with assms show ?thesis by (simp add: folds_def update_changed_def status_now_def)
next
  case (Some held)
  then have dom: "n |\<in>| fmdom (ge_members s)" by (auto simp: member_status_since_def fmlookup_dom_iff)
  from assms(1) have ok: "pmap_ok (vw_live v)" "pmap_ok (vw_statuses v)" by (simp_all add: views_ok_def)
  obtain t where t: "pmap_insert (vw_statuses v) n held = Some t" "pmap_ok t"
    "pmap_get t = (pmap_get (vw_statuses v))(n := Some held)"
    using insert_fits [OF ok(2) _ assms(4) dom, of held] assms(3) unfolding within_def by blast
  obtain l where l: "pmap_insert (vw_live v) n () = Some l" "pmap_ok l" "pmap_get l = (pmap_get (vw_live v))(n := Some ())"
    using insert_fits [OF ok(1) _ assms(4) dom, of "()"] assms(3) unfolding within_def by blast
  obtain r where r: "pmap_remove (vw_live v) n = Some (pmap_get (vw_live v) n \<noteq> None, r)" "pmap_ok r"
    "pmap_get r = (pmap_get (vw_live v))(n := None)" using remove_fits [OF ok(1)] by blast
  define same where "same = (pmap_get (vw_statuses v) n = Some held)"
  define ch1 where "ch1 = (if same then ch else ch\<lparr>ch_statuses := True\<rparr>)"
  define v1 where "v1 = (if same then v else v\<lparr>vw_statuses := t\<rparr>)"
  have st: "update_status n held (ch, v) = Some (ch1, v1)"
    by (simp add: update_status_def same_def [symmetric] ch1_def v1_def t(1))
  have v1: "vw_live v1 = vw_live v" "vw_entries v1 = vw_entries v" "pmap_ok (vw_statuses v1)" "vw_clock v1 = vw_clock v"
    "pmap_get (vw_statuses v1) = (pmap_get (vw_statuses v))(n := Some held)"
    using ok(2) t by (auto simp: v1_def same_def fun_upd_idem)
  define live where "live = (fst held \<noteq> Dead)"
  have lv: "live_view s n = (if live then Some () else None)"
    using Some by (auto simp: live_view_def live_def split: prod.split)
  define keep where "keep = (live = (pmap_get (vw_live v) n \<noteq> None))"
  define m where "m = (if keep then vw_live v else if live then l else r)"
  have m: "pmap_ok m" "pmap_get m = (pmap_get (vw_live v))(n := live_view s n)"
    using ok(1) l r lv by (cases "pmap_get (vw_live v) n"; auto simp: m_def keep_def fun_upd_idem)+
  have li: "update_live n live (ch1, v1) = Some (if keep then ch1 else ch1\<lparr>ch_members := True\<rparr>, v1\<lparr>vw_live := m\<rparr>)"
    using l(1) r(1) v1(1)
    by (cases v1) (auto simp: update_live_def contains_get keep_def m_def)
  have res: "update_changed s n (ch, v) = Some (if keep then ch1 else ch1\<lparr>ch_members := True\<rparr>, v1\<lparr>vw_live := m\<rparr>)"
    using Some st li by (simp add: update_changed_def live_def)
  have "tells v0 (if keep then ch1 else ch1\<lparr>ch_members := True\<rparr>) (v1\<lparr>vw_live := m\<rparr>)"
    using assms(2) by (auto simp: tells_def ch1_def v1_def m_def)
  moreover have "seen (v1\<lparr>vw_live := m\<rparr>) = status_now s n (seen v)"
    using v1 m(2) Some by (auto simp: fun_eq_iff seen_def status_now_def)
  ultimately show ?thesis
    using res m(1) v1 assms(1) by (simp add: folds_def views_ok_def)
qed

lemma update_touched_folds:
  assumes "views_ok v" "tells v0 ch v" "within s v" "room s"
  shows "folds v0 (entries_now s n) (ch, v) (update_touched s n (ch, v))"
proof -
  from assms(1) have ok: "pmap_ok (vw_entries v)" by (simp add: views_ok_def)
  have "\<exists>e. (case views_node_entries s n of Some es \<Rightarrow> pmap_insert (vw_entries v) n es
      | None \<Rightarrow> map_option snd (pmap_remove (vw_entries v) n)) = Some e
    \<and> pmap_ok e \<and> pmap_get e = (pmap_get (vw_entries v))(n := views_node_entries s n)"
  proof (cases "views_node_entries s n")
    case None
    obtain e where "pmap_remove (vw_entries v) n = Some (pmap_get (vw_entries v) n \<noteq> None, e)" "pmap_ok e"
      "pmap_get e = (pmap_get (vw_entries v))(n := None)" using remove_fits [OF ok] by blast
    with None show ?thesis by simp
  next
    case (Some es)
    then have "n |\<in>| fmdom (ge_members s)"
      by (auto simp: views_node_entries_def node_entries_def fmlookup_dom_iff Let_def split: option.splits if_splits)
    with insert_fits [OF ok _ assms(4) this, of es] assms(3) Some show ?thesis by (auto simp: within_def)
  qed
  then obtain e where e: "update_touched s n (ch, v) = Some (ch\<lparr>ch_entries := True\<rparr>, v\<lparr>vw_entries := e\<rparr>)"
    "pmap_ok e" "pmap_get e = (pmap_get (vw_entries v))(n := views_node_entries s n)"
    by (auto simp: update_touched_def)
  then show ?thesis
    using assms(1,2) by (auto simp: folds_def views_ok_def tells_def seen_def entries_now_def fun_eq_iff)
qed


lemma each_folds:
  assumes "\<And>n ch v. \<lbrakk>views_ok v; tells v0 ch v; J (seen v)\<rbrakk> \<Longrightarrow> folds v0 (f n) (ch, v) (g n (ch, v))"
    and "\<And>n x. J x \<Longrightarrow> J (f n x)"
  shows "\<lbrakk>views_ok v; tells v0 ch v; J (seen v)\<rbrakk> \<Longrightarrow> folds v0 (fold f ns) (ch, v) (each g ns (ch, v))"
proof (induction ns arbitrary: ch v)
  case Nil
  then show ?case by (simp add: folds_def)
next
  case (Cons n ns)
  from assms(1) [OF Cons.prems, of n] obtain ch' v' where g: "g n (ch, v) = Some (ch', v')" "views_ok v'" "tells v0 ch' v'"
    "seen v' = f n (seen v)" "vw_clock v' = vw_clock v" by (auto simp: folds_def)
  with Cons.IH [of v' ch'] assms(2) Cons.prems(3) show ?case by (simp add: folds_def)
qed

definition inside :: "group_engine \<Rightarrow> (node_id \<Rightarrow> shown) \<Rightarrow> bool" where
  "inside s x \<longleftrightarrow> (\<forall>n. x n \<noteq> (None, None, None) \<longrightarrow> n |\<in>| fmdom (ge_members s))"

lemma within_inside: "within s v \<longleftrightarrow> inside s (seen v)"
  by (auto simp: within_def inside_def fits_def seen_def)

lemma entries_member: "views_node_entries s n \<noteq> None \<Longrightarrow> n |\<in>| fmdom (ge_members s)"
  by (auto simp: views_node_entries_def node_entries_def fmlookup_dom_iff Let_def split: option.splits if_splits)

lemma inside_keeps: "inside s x \<Longrightarrow> inside s (status_now s n x)" "inside s x \<Longrightarrow> inside s (entries_now s n x)"
proof -
  assume i: "inside s x"
  show "inside s (status_now s n x)"
    using i by (auto simp: inside_def status_now_def member_status_since_def fmlookup_dom_iff)
  have "x n = (None, None, None) \<or> n |\<in>| fmdom (ge_members s)" using i by (auto simp: inside_def)
  with i entries_member [of s n] show "inside s (entries_now s n x)"
    by (auto simp: inside_def entries_now_def)
qed

lemma fold_shown:
  "fold (\<lambda>n. if member_status s n = None then gone n else id) ns x k =
     (if k \<in> set ns \<and> member_status s k = None then (None, None, None) else x k)"
  "fold (status_now s) ns x k = (if k \<in> set ns \<and> member_status_since s k \<noteq> None
     then (live_view s k, member_status_since s k, snd (snd (x k))) else x k)"
  "fold (entries_now s) ns x k = (if k \<in> set ns then (fst (x k), fst (snd (x k)), views_node_entries s k) else x k)"
  by (induction ns arbitrary: x) (auto simp: gone_def status_now_def entries_now_def)

lemma folds_then:
  assumes "folds v0 f st (g st)" "\<And>ch v. g st = Some (ch, v) \<Longrightarrow> folds v0 f' (ch, v) (g' (ch, v))"
  shows "folds v0 (f' \<circ> f) st (Option.bind (g st) g')"
  using assms by (fastforce simp: folds_def)


section \<open>An update follows the engine\<close>

text \<open>What the views show of a member is its face.\<close>

definition truth_of :: "face option \<Rightarrow> shown" where
  "truth_of x = (case x of None \<Rightarrow> (None, None, None)
     | Some (st, since, _, es) \<Rightarrow> (if st = Dead then None else Some (), Some (st, since),
         if fmap_of_list es = fmempty then None else Some (fmap_of_list es)))"

lemma truth_face: "truth s n = truth_of (face s n)"
  by (cases "fmlookup (ge_members s) n")
     (simp_all add: truth_def truth_of_def face_def face_of_def live_view_def member_status_since_def
       views_node_entries_def Let_def open_of_face [symmetric] open_of_def fmempty_of_list [symmetric])

lemma changed_since_exact:
  assumes "index_ok s"
  shows "n \<in> set (members_changed_since c s) \<longleftrightarrow> (\<exists>st since at es. face s n = Some (st, since, at, es) \<and> c < at)"
proof -
  have f: "fmlookup (ix_changed (ge_index s)) at = Some n \<longleftrightarrow> snd (filed_of s n) = at \<and> 0 < at" for at
    using assms by (simp add: index_ok_def filing_ok_def stamps_filed_def)
  have "n \<in> set (members_changed_since c s) \<longleftrightarrow> (\<exists>at. c < at \<and> fmlookup (ix_changed (ge_index s)) at = Some n)"
    by (force simp: members_changed_since_def in_fentries_iff)
  also have "\<dots> \<longleftrightarrow> c < snd (filed_of s n)" unfolding f by auto
  also have "\<dots> \<longleftrightarrow> (\<exists>st since at es. face s n = Some (st, since, at, es) \<and> c < at)"
    by (simp add: filed_of_def face_def face_of_def split: option.split)
  finally show ?thesis .
qed

lemma forgotten_since_listed:
  "members_forgotten_since c s = None \<longleftrightarrow> c < snd (forgotten s)"
  "members_forgotten_since c s = Some ns \<Longrightarrow> n \<in> set ns \<longleftrightarrow> listed c n s"
proof -
  show "members_forgotten_since c s = None \<longleftrightarrow> c < snd (forgotten s)"
    by (auto simp: members_forgotten_since_def forgotten_def)
  assume ns: "members_forgotten_since c s = Some ns"
  then have "ns = map snd (filter (\<lambda>p. c < fst p) (fentries (fst (forgotten s))))" "snd (forgotten s) \<le> c"
    by (simp_all add: members_forgotten_since_def forgotten_def case_prod_unfold split: if_splits)
  moreover have "n \<in> snd ` {p \<in> set xs. c < fst p} \<longleftrightarrow> (\<exists>at. (at, n) \<in> set xs \<and> c < at)" for xs :: "(nat \<times> node_id) list"
    by (auto intro!: rev_image_eqI)
  ultimately show "n \<in> set ns \<longleftrightarrow> listed c n s"
    by (auto simp: listed_def in_fentries_iff)
qed

lemma update_follows:
  assumes m: "mirrors v s" and f: "feeds (set touched) s t" and ix: "index_ok t" and r: "room t"
  obtains ch v' where "views_update t touched v = Some (ch, v')" "mirrors v' t" "tells v ch v'"
proof -
  define c where "c = ge_change_clock s"
  have v: "views_ok v" "seen v = truth s" "vw_clock v = c" using m by (simp_all add: mirrors_def c_def)
  define w where "w = v\<lparr>vw_clock := ge_change_clock t\<rparr>"
  show thesis
  proof (cases "members_forgotten_since c t")
    case None
    from views_new_ok [OF r] obtain v' where "views_new t = Some v'" "mirrors v' t" .
    with that None v(3) show thesis by (simp add: views_update_def tells_def)
  next
    case (Some F)
    define st0 where "st0 = (\<lparr>ch_members = False, ch_statuses = False, ch_entries = False\<rparr>, w)"
    have st0: "views_ok (snd st0)" "tells v (fst st0) (snd st0)" "seen (snd st0) = truth s" "vw_clock (snd st0) = ge_change_clock t"
      using v by (simp_all add: st0_def w_def views_ok_def tells_def seen_def fun_eq_iff)
    define x1 where "x1 = fold (\<lambda>n. if member_status t n = None then gone n else id) F (truth s)"
    have "folds v (fold (\<lambda>n. if member_status t n = None then gone n else id) F) st0 (each (update_forgotten t) F st0)"
      using each_folds [where J = "\<lambda>_. True" and g = "update_forgotten t", OF update_forgotten_folds TrueI st0(1,2)]
      by simp
    then obtain ch1 v1 where p1: "each (update_forgotten t) F st0 = Some (ch1, v1)" "views_ok v1" "tells v ch1 v1"
      "seen v1 = x1" "vw_clock v1 = ge_change_clock t" using st0 by (auto simp: folds_def x1_def)
    have F: "n \<in> set F \<longleftrightarrow> listed c n t" for n using forgotten_since_listed(2) [OF Some] .
    have gone: "face t n = None \<Longrightarrow> n \<in> set F \<or> face s n = None" for n
    proof -
      assume "face t n = None"
      moreover have "moved (set touched) c n (face s n) (face t n) \<or> (face t n = None \<and> listed c n t)"
        using f by (simp add: feeds_def c_def)
      ultimately show ?thesis using F [of n] by (auto simp: moved_def)
    qed
    have st: "member_status t n = None \<longleftrightarrow> face t n = None" for n by (simp add: member_status_def face_def)
    have x1: "x1 n = (if n \<in> set F \<and> face t n = None then (None, None, None) else truth s n)" for n
      unfolding x1_def fold_shown(1) by (simp only: st)
    have "inside t x1"
      unfolding inside_def
    proof (intro allI impI)
      fix n
      assume "x1 n \<noteq> (None, None, None)"
      then have "face t n \<noteq> None"
        using gone [of n] by (cases "face t n"; cases "face s n") (auto simp: x1 truth_face truth_of_def split: if_splits)
      then show "n |\<in>| fmdom (ge_members t)" by (auto simp: face_def fmlookup_dom_iff)
    qed
    then have in1: "inside t (seen v1)" using p1(4) by simp
    define C where "C = members_changed_since c t"
    have "folds v (fold (status_now t) C) (ch1, v1) (each (update_changed t) C (ch1, v1))"
      by (rule each_folds [where J = "inside t", OF update_changed_folds _ p1(2,3) in1])
         (simp_all add: within_inside r inside_keeps)
    then obtain ch2 v2 where p2: "each (update_changed t) C (ch1, v1) = Some (ch2, v2)" "views_ok v2" "tells v ch2 v2"
      "seen v2 = fold (status_now t) C x1" "vw_clock v2 = ge_change_clock t" using p1 by (auto simp: folds_def)
    have "inside t (fold (status_now t) C x)" if "inside t x" for x C
      using that by (induction C arbitrary: x) (simp_all add: inside_keeps)
    then have in2: "inside t (seen v2)" using in1 p1(4) p2(4) by simp
    have "folds v (fold (entries_now t) touched) (ch2, v2) (each (update_touched t) touched (ch2, v2))"
      by (rule each_folds [where J = "inside t", OF update_touched_folds _ p2(2,3) in2])
         (simp_all add: within_inside r inside_keeps)
    then obtain ch3 v3 where p3: "each (update_touched t) touched (ch2, v2) = Some (ch3, v3)" "views_ok v3" "tells v ch3 v3"
      "seen v3 = fold (entries_now t) touched (seen v2)" "vw_clock v3 = ge_change_clock t" using p2 by (auto simp: folds_def)
    have "seen v3 n = truth t n" for n
    proof (cases "face t n")
      case None
      then have "n \<notin> set C" using changed_since_exact [OF ix] by (auto simp: C_def)
      moreover have "x1 n = (None, None, None)" using None gone [of n] by (auto simp: x1 truth_face truth_of_def)
      moreover have "truth t n = (None, None, None)" by (simp add: truth_face None truth_of_def)
      ultimately show ?thesis by (simp add: p3(4) p2(4) fold_shown truth_def)
    next
      case (Some y)
      then obtain st since at es where y: "face t n = Some (st, since, at, es)" by (cases y) auto
      have "moved (set touched) c n (face s n) (face t n)"
        using f y unfolding feeds_def c_def by (metis option.distinct(1))
      with y have mv: "c < at \<or> (\<exists>es'. face s n = Some (st, since, at, es'))" "es = open_of (face s n) \<or> n \<in> set touched"
        by (auto simp: moved_Some)
      have t2: "fst (seen v2 n) = fst (truth t n) \<and> fst (snd (seen v2 n)) = fst (snd (truth t n))"
      proof (cases "c < at")
        case True
        then have "n \<in> set C" using changed_since_exact [OF ix] y by (auto simp: C_def)
        moreover have "member_status_since t n \<noteq> None" using y by (auto simp: face_def member_status_since_def)
        ultimately show ?thesis by (simp add: p2(4) fold_shown truth_def)
      next
        case False
        with mv(1) obtain es' where "face s n = Some (st, since, at, es')" by blast
        then have "fst (truth s n) = fst (truth t n)" "fst (snd (truth s n)) = fst (snd (truth t n))"
          by (simp_all add: truth_face y truth_of_def)
        with y show ?thesis by (simp add: p2(4) fold_shown x1 truth_def)
      qed
      have "snd (snd (seen v2 n)) = snd (snd (truth s n))" using y by (simp add: p2(4) fold_shown x1)
      moreover have "snd (snd (truth s n)) = snd (snd (truth t n))" if "n \<notin> set touched"
        using mv(2) that y by (cases "face s n") (auto simp: truth_face truth_of_def open_of_def fmempty_of_list [symmetric])
      ultimately show ?thesis
        using t2 by (cases "truth t n") (auto simp: p3(4) fold_shown truth_def prod_eq_iff)
    qed
    then have "mirrors v3 t" using p3 by (simp add: mirrors_def fun_eq_iff)
    moreover have "views_update t touched v = Some (ch3, v3)"
      using Some v(3) p1(1) p2(1) p3(1) by (simp add: views_update_def Let_def w_def [symmetric] st0_def [symmetric] C_def)
    ultimately show thesis using that p3(3) by blast
  qed
qed


section \<open>Every turn\<close>

definition published :: "publishers \<Rightarrow> views \<Rightarrow> bool" where
  "published pb v \<longleftrightarrow> pmap_get (pb_members pb) = pmap_get (vw_live v) \<and> pmap_get (pb_statuses pb) = pmap_get (vw_statuses v)
     \<and> pmap_get (pb_entries pb) = pmap_get (vw_entries v)"

definition in_step :: "group_actor \<Rightarrow> bool" where
  "in_step a \<longleftrightarrow> derived_ok (ac_engine a) \<and> forgotten_ok (ac_engine a) \<and> mirrors (ac_views a) (ac_engine a)
     \<and> published (ac_published a) (ac_views a)"

lemma touched_named: "set (touched_nodes es) = named es"
proof -
  have "fset (fset_of_list (List.map_filter (\<lambda>e. case e of NodeStateChanged node _ \<Rightarrow> Some node | _ \<Rightarrow> None) es)) = named es"
    by (auto simp: fset_of_list.rep_eq List.map_filter_def named_def image_iff split: effect.splits)
  then show ?thesis by (simp add: touched_nodes_def)
qed

lemma dispatch_views:
  "ac_views (dispatch_batch store n es a) = ac_views a \<and> ac_engine (dispatch_batch store n es a) = ac_engine a
   \<and> pb_members (ac_published (dispatch_batch store n es a)) = pb_members (ac_published a)
   \<and> pb_statuses (ac_published (dispatch_batch store n es a)) = pb_statuses (ac_published a)
   \<and> pb_entries (ac_published (dispatch_batch store n es a)) = pb_entries (ac_published a)"
proof -
  have "ac_views (dispatch_effect store n x a) = ac_views a \<and> ac_engine (dispatch_effect store n x a) = ac_engine a
      \<and> pb_members (ac_published (dispatch_effect store n x a)) = pb_members (ac_published a)
      \<and> pb_statuses (ac_published (dispatch_effect store n x a)) = pb_statuses (ac_published a)
      \<and> pb_entries (ac_published (dispatch_effect store n x a)) = pb_entries (ac_published a)" for x a
    by (cases x) simp_all
  then show ?thesis unfolding dispatch_batch_def by (induction es arbitrary: a) simp_all
qed

lemma publish_in_step:
  assumes m: "mirrors (ac_views a) s" and p: "published (ac_published a) (ac_views a)"
    and f: "feeds (named es) s (ac_engine a)" and d: "derived_ok (ac_engine a)" and r: "room (ac_engine a)"
  obtains cmd edges a' where "publish_actor_views routing es a = Some (cmd, edges, a')" "in_step a'" "ac_engine a' = ac_engine a"
proof -
  from d have ix: "index_ok (ac_engine a)" by (simp add: derived_ok_def)
  from f have f': "feeds (set (touched_nodes es)) s (ac_engine a)" by (simp add: touched_named)
  obtain ch v where u: "views_update (ac_engine a) (touched_nodes es) (ac_views a) = Some (ch, v)"
    "mirrors v (ac_engine a)" "tells (ac_views a) ch v"
    using update_follows [OF m f' ix r] by blast
  have "forgotten_ok (ac_engine a)" using f by (simp add: feeds_def)
  obtain cmd edges a' where a': "publish_actor_views routing es a = Some (cmd, edges, a')"
    by (simp add: publish_actor_views_def Let_def u(1) case_prod_beta)
  have "ac_engine a' = ac_engine a \<and> ac_views a' = v
      \<and> pb_members (ac_published a') = (if ch_members ch then vw_live v else pb_members (ac_published a))
      \<and> pb_statuses (ac_published a') = (if ch_statuses ch then vw_statuses v else pb_statuses (ac_published a))
      \<and> pb_entries (ac_published a') = (if ch_entries ch then vw_entries v else pb_entries (ac_published a))"
    using a' by (auto simp: publish_actor_views_def Let_def u(1) case_prod_beta)
  with u(2,3) p d \<open>forgotten_ok (ac_engine a)\<close> have "in_step a'" "ac_engine a' = ac_engine a"
    by (auto simp: in_step_def published_def tells_def)
  with that a' show thesis by blast
qed

lemma carry_out_in_step:
  assumes "in_step a" and f: "feeds (named es) (ac_engine a) t" and "derived_ok t" "room t"
  obtains cmd edges a' where
    "carry_out store routing es (a\<lparr>ac_engine := t, ac_last_tick := lt\<rparr>) = Some (cmd, edges, a')" "in_step a'" "ac_engine a' = t"
proof -
  define b where "b = dispatch_batch store (ge_local t) es (a\<lparr>ac_engine := t, ac_last_tick := lt\<rparr>)"
  have b: "ac_views b = ac_views a" "ac_engine b = t" "published (ac_published b) (ac_views a)"
    using dispatch_views [of store "ge_local t" es "a\<lparr>ac_engine := t, ac_last_tick := lt\<rparr>"] assms(1)
    by (simp_all add: b_def in_step_def published_def)
  from publish_in_step [of b "ac_engine a" es routing] b assms obtain cmd edges a' where
    "publish_actor_views routing es b = Some (cmd, edges, a')" "in_step a'" "ac_engine a' = t"
    by (auto simp: in_step_def)
  with that show thesis by (simp add: carry_out_def b_def)
qed

lemma apply_event_feeds:
  assumes "forgotten_ok s" "derived_ok s" "apply_actor_event now ev s = ((es, completion), t)"
  shows "feeds (named es) s t \<and> derived_ok t"
proof -
  have tick: "derived_ok (snd (on_tick now s))" by (rule derived_at [OF keeps_derived_on_tick assms(2)])
  have cmd: "derived_ok u \<Longrightarrow> derived_ok (snd (apply_cmd c u))" for c u by (rule derived_at [OF keeps_derived_apply_cmd])
  have sd: "keeps settled (apply_cmd (SetLocalEntry k x ttl))" "keeps settled (apply_cmd (DeleteLocalEntry k))" for k x ttl
    by (simp_all add: set_local_entry_def delete_local_entry_def keeps_settled_author)
  obtain es1 t1 where t1: "on_tick now s = (es1, t1)" by fastforce
  note tick1 = feeds_on_tick [OF assms(1), of now]
  show ?thesis
  proof (cases ev)
    case (Message "from" b)
    then have "on_message from b now s = (es, t)" using assms(3) by (auto split: prod.splits)
    then show ?thesis
      using feeds_tracks [OF assms(1) tracked_at [OF keeps_tracked_on_message [of "from" b now], of s]]
        derived_at [OF keeps_derived_on_message assms(2), of "from" b now] by simp
  next
    case (Local c)
    then have "apply_cmd c s = (es, t)" using assms(3) by (auto split: prod.splits)
    then show ?thesis
      using feeds_tracks [OF assms(1) tracked_at [OF keeps_tracked_apply_cmd [of c], of s]] cmd [OF assms(2), of c] by simp
  next
    case (SetEntryConfirmed k x ttl)
    obtain es2 t2 where t2: "apply_cmd (SetLocalEntry k x ttl) t1 = (es2, t2)" by fastforce
    with feeds_tick_then [OF assms(1) sd(1) t1 t2] cmd [of t1 "SetLocalEntry k x ttl"] tick t1 assms(3) SetEntryConfirmed
    show ?thesis by auto
  next
    case (SetEntryIfRevision k x ttl expected)
    obtain es2 t2 where t2: "apply_cmd (SetLocalEntry k x ttl) t1 = (es2, t2)" by fastforce
    with feeds_tick_then [OF assms(1) sd(1) t1 t2] cmd [of t1 "SetLocalEntry k x ttl"] tick tick1 t1 assms(3) SetEntryIfRevision
    show ?thesis by (auto split: if_splits)
  next
    case (DeleteEntryIfValue k expected)
    obtain es2 t2 where t2: "apply_cmd (DeleteLocalEntry k) t1 = (es2, t2)" by fastforce
    with feeds_tick_then [OF assms(1) sd(2) t1 t2] cmd [of t1 "DeleteLocalEntry k"] tick tick1 t1 assms(3) DeleteEntryIfValue
    show ?thesis by (auto split: if_splits)
  qed
qed


section \<open>Runs of an actor\<close>

text \<open>
  A group actor as the node spawns it, then one event or tick at a time.  The members of a group fit the
  persistent maps' counters: they are counted in a \<open>usize\<close>.
\<close>

inductive actor_run :: "group_id \<Rightarrow> node_id \<Rightarrow> group_actor \<Rightarrow> bool"
  for grp :: group_id and n :: node_id where
  boot: "spawn_group node_config seeds reachable n grp po = Some a \<Longrightarrow>
      actor_run grp n (snd (actor_boot store routing now a))"
| event: "\<lbrakk>actor_run grp n a; actor_event_turn store routing now ev a = Some (completion, cmd, edges, a'); room (ac_engine a')\<rbrakk>
      \<Longrightarrow> actor_run grp n a'"
| tick: "\<lbrakk>actor_run grp n a; actor_tick_turn store routing now a = Some (cmd, edges, a'); room (ac_engine a')\<rbrakk>
      \<Longrightarrow> actor_run grp n a'"

lemma restore_still: "untouched s (restore (RecoveringEngine s) g)"
proof (cases g)
  case (RecoveredGrant x)
  then show ?thesis by (cases x) simp_all
qed

lemma engine_new_forgotten:
  assumes "engine_new grp n seeds cfg = Inr s"
  shows "forgotten_ok s" "fmdom (ge_members s) = {|n|}"
proof -
  define i where "i = initial_engine grp n seeds cfg"
  define t where "t = reindex n (restamp n 1 i)"
  have s: "s = t\<lparr>ge_coordinator := compute_coordinator t\<rparr>"
    using assms by (auto simp: engine_new_def Let_def t_def i_def split: sum.splits)
  have i: "forgotten i = (fmempty, 0)" "ge_members i = fmupd n (member_new 0 Alive time_zero) fmempty"
    by (simp_all add: i_def initial_engine_def Let_def forgotten_def index_default_def)
  have st: "forgotten s = forgotten t" "ge_members s = ge_members t" by (simp_all add: s forgotten_def)
  show "forgotten_ok s" by (simp add: forgotten_ok_def st t_def i)
  have f: "face t k = None \<longleftrightarrow> k \<noteq> n" for k
    by (simp add: t_def) (simp add: face_def restamp_def i Let_def)
  have "k |\<in>| fmdom (ge_members s) \<longleftrightarrow> k |\<in>| {|n|}" for k
    using f [of k] by (cases "fmlookup (ge_members t) k") (simp_all add: st face_def fmdom_notI fmdomI)
  then show "fmdom (ge_members s) = {|n|}" by (rule fset_eqI)
qed

lemma room_alone: "fmdom (ge_members s) = {|n|} \<Longrightarrow> room s"
  by (simp add: room_def fcard.rep_eq)

lemma build_engine_ok:
  assumes "build_engine grp n seeds cfg storage = Inr (s, store)"
  shows "derived_ok s" "forgotten_ok s" "fmdom (ge_members s) = {|n|}"
proof -
  have "\<exists>s0. engine_new grp n seeds cfg = Inr s0 \<and> untouched s0 s"
    using assms restore_still
    by (cases storage; cases "engine_new grp n seeds cfg") (auto simp: build_engine_def recovering_def)
  then obtain s0 where s0: "engine_new grp n seeds cfg = Inr s0" and u: "untouched s0 s" by blast
  show "derived_ok s" by (rule untouched_derived [OF u derived_ok_engine_new [OF s0]])
  show "forgotten_ok s" by (rule forgotten_ok_tracks [OF engine_new_forgotten(1) [OF s0] untouched_tracks [OF u]])
  have "ge_members s = ge_members s0" using u by (simp add: untouched_def tables_def)
  with engine_new_forgotten(2) [OF s0] show "fmdom (ge_members s) = {|n|}" by simp
qed

lemma contacts_members: "ge_members (set_bootstrap_contacts cs s) = ge_members s"
  by (simp add: set_bootstrap_contacts_def nudge_anti_entropy_def Let_def)

lemma spawned:
  assumes "spawn_group node_config seeds reachable n grp po = Some a"
  shows "derived_ok (ac_engine a)" "forgotten_ok (ac_engine a)" "fmdom (ge_members (ac_engine a)) = {|n|}" "mirrors (ac_views a) (ac_engine a)"
    "published (ac_published a) (ac_views a)"
proof -
  obtain s store cfg po' where b: "build_engine grp n seeds cfg po' = Inr (s, store)"
    and e: "ac_engine a = set_bootstrap_contacts reachable s" and v: "views_new (ac_engine a) = Some (ac_views a)"
    and p: "published (ac_published a) (ac_views a)"
    using assms by (auto simp: spawn_group_def Let_def silently_def published_def split: sum.splits prod.splits bind_splits)
  note ok = build_engine_ok [OF b]
  show "derived_ok (ac_engine a)" unfolding e by (rule derived_ok_contacts [OF ok(1)])
  show "forgotten_ok (ac_engine a)"
    using forgotten_ok_tracks [OF ok(2) tracked_at [OF keeps_tracked_apply_cmd [of "SetBootstrapContacts reachable"], of s]]
    by (simp add: e silently_def)
  show r: "fmdom (ge_members (ac_engine a)) = {|n|}" using ok(3) by (simp add: e contacts_members)
  show "mirrors (ac_views a) (ac_engine a)" using views_new_ok [OF room_alone [OF r]] v by auto
  show "published (ac_published a) (ac_views a)" by (rule p)
qed

lemma face_dom:
  assumes "\<And>k. face t k = None \<longleftrightarrow> face s k = None"
  shows "fmdom (ge_members t) = fmdom (ge_members s)"
proof (rule fset_eqI)
  fix k
  show "k |\<in>| fmdom (ge_members t) \<longleftrightarrow> k |\<in>| fmdom (ge_members s)"
    using assms [of k] by (cases "fmlookup (ge_members t) k"; cases "fmlookup (ge_members s) k")
      (simp_all add: face_def fmlookup_dom_iff)
qed

lemma boot_alone:
  assumes "spawn_group node_config seeds reachable n grp po = Some a"
    and "t = ac_engine (snd (actor_boot store routing now a))"
  shows "fmdom (ge_members t) = {|n|}" "ge_local t = n"
proof -
  have t: "t = snd (start now (ac_engine a))"
    unfolding assms(2) by (simp add: actor_boot_def case_prod_beta Let_def dispatch_views)
  have "still (ac_engine a) t" unfolding t by (rule still_at [OF keeps_still_start])
  then show f: "fmdom (ge_members t) = {|n|}"
    using face_dom [of t "ac_engine a"] spawned(3) [OF assms(1)] by (simp add: still_def)
  have "derived_ok t" unfolding t by (rule derived_at [OF keeps_derived_start spawned(1) [OF assms(1)]])
  with f show "ge_local t = n" by (simp add: derived_ok_def records_ok_def)
qed

lemma boot_in_step:
  assumes "spawn_group node_config seeds reachable n grp po = Some a"
  shows "in_step (snd (actor_boot store routing now a))"
proof -
  define e where "e = ac_engine a"
  note ok = spawned [OF assms, folded e_def]
  define es t where "es = fst (start now e)" and "t = snd (start now e)"
  have st: "still e t" using keeps_still_start by (simp add: keeps_def t_def)
  have "truth t = truth e" using st by (simp add: fun_eq_iff truth_face still_def)
  with ok(4) st have "mirrors (ac_views a) t" by (simp add: mirrors_def still_def)
  moreover have "derived_ok t" unfolding t_def by (rule derived_at [OF keeps_derived_start ok(1)])
  moreover have "forgotten_ok t" using forgotten_ok_tracks [OF ok(2) still_tracks [OF st]] .
  moreover have "snd (actor_boot store routing now a) = (dispatch_batch store (ge_local e) es (a\<lparr>ac_engine := t\<rparr>))
      \<lparr>ac_announced := snd (announce_coordinator routing t (ac_announced (dispatch_batch store (ge_local e) es (a\<lparr>ac_engine := t\<rparr>))))\<rparr>"
    by (simp add: actor_boot_def es_def t_def e_def case_prod_beta Let_def)
  ultimately show ?thesis
    using dispatch_views [of store "ge_local e" es "a\<lparr>ac_engine := t\<rparr>"] ok(5)
    by (simp add: in_step_def published_def)
qed

lemma event_turn_in_step:
  assumes "in_step a" "room (snd (apply_actor_event now ev (ac_engine a)))"
  obtains completion cmd edges a' where "actor_event_turn store routing now ev a = Some (completion, cmd, edges, a')"
    "in_step a'" "ac_engine a' = snd (apply_actor_event now ev (ac_engine a))"
proof -
  obtain es b t where ev: "apply_actor_event now ev (ac_engine a) = ((es, b), t)" by (metis prod.collapse)
  from assms(1) have "forgotten_ok (ac_engine a)" "derived_ok (ac_engine a)" by (simp_all add: in_step_def)
  from apply_event_feeds [OF this ev] have f: "feeds (named es) (ac_engine a) t" "derived_ok t" by simp_all
  have r: "room t" using assms(2) ev by simp
  obtain cmd edges a' where
    "carry_out store routing es (a\<lparr>ac_engine := t, ac_last_tick := ac_last_tick a\<rparr>) = Some (cmd, edges, a')" "in_step a'"
    "ac_engine a' = t" using carry_out_in_step [OF assms(1) f r] by blast
  with that ev show thesis by (simp add: actor_event_turn_def)
qed

lemma tick_turn_in_step:
  assumes "in_step a" "room (snd (on_tick now (ac_engine a)))"
  obtains cmd edges a' where "actor_tick_turn store routing now a = Some (cmd, edges, a')" "in_step a'"
    "ac_engine a' = snd (on_tick now (ac_engine a))"
proof -
  obtain es t where t: "on_tick now (ac_engine a) = (es, t)" by fastforce
  from assms(1) have e: "forgotten_ok (ac_engine a)" "derived_ok (ac_engine a)" by (simp_all add: in_step_def)
  have f: "feeds (named es) (ac_engine a) t" "derived_ok t" "room t"
    using feeds_on_tick [OF e(1), of now] derived_at [OF keeps_derived_on_tick e(2), of now] assms(2) t by simp_all
  obtain cmd edges a' where
    "carry_out store routing es (a\<lparr>ac_engine := t, ac_last_tick := Some now\<rparr>) = Some (cmd, edges, a')" "in_step a'"
    "ac_engine a' = t" using carry_out_in_step [OF assms(1) f] by blast
  with that t show thesis by (simp add: actor_tick_turn_def)
qed

lemma carry_out_engine: "carry_out store routing es a = Some (cmd, edges, a') \<Longrightarrow> ac_engine a' = ac_engine a"
  using dispatch_views [of store "ge_local (ac_engine a)" es a]
  by (auto simp: carry_out_def publish_actor_views_def Let_def split: prod.splits bind_splits)

lemma actor_run_in_step: "actor_run grp n a \<Longrightarrow> in_step a"
proof (induction rule: actor_run.induct)
  case (boot node_config seeds reachable po a store routing now)
  then show ?case by (rule boot_in_step)
next
  case (event a store routing now ev completion cmd edges a')
  have "ac_engine a' = snd (apply_actor_event now ev (ac_engine a))"
    using event.hyps(2) by (auto simp: actor_event_turn_def split: prod.splits dest!: carry_out_engine)
  with event_turn_in_step [OF event.IH, of now ev store routing] event.hyps(2,3) show ?case by auto
next
  case (tick a store routing now cmd edges a')
  have "ac_engine a' = snd (on_tick now (ac_engine a))"
    using tick.hyps(2) by (auto simp: actor_tick_turn_def split: prod.splits dest!: carry_out_engine)
  with tick_turn_in_step [OF tick.IH, of now store routing] tick.hyps(2,3) show ?case by auto
qed


text \<open>
  C5. Readers see exactly what the engine knows, and the actor never stalls. After the boot and after every
  turn of a group actor - any frames, commands, entry mutations and ticks, members suspected, declared dead,
  reaped and forgotten on the way - the three published maps, which the actor keeps by folding in only what
  the change clock and the effects name, hold the live members, every member's status with its since, and
  every node's live entries, and nothing else; and the next turn completes, whatever it is.
\<close>

theorem views_current:
  assumes "actor_run grp n a"
  shows "pmap_get (pb_members (ac_published a)) = live_view (ac_engine a)
    \<and> pmap_get (pb_statuses (ac_published a)) = member_status_since (ac_engine a)
    \<and> pmap_get (pb_entries (ac_published a)) = views_node_entries (ac_engine a)
    \<and> (room (snd (apply_actor_event now ev (ac_engine a))) \<longrightarrow> actor_event_turn store routing now ev a \<noteq> None)
    \<and> (room (snd (on_tick now (ac_engine a))) \<longrightarrow> actor_tick_turn store routing now a \<noteq> None)"
proof -
  note s = actor_run_in_step [OF assms]
  then have "seen (ac_views a) = truth (ac_engine a)" "published (ac_published a) (ac_views a)"
    by (simp_all add: in_step_def mirrors_def)
  moreover have "actor_event_turn store routing now ev a \<noteq> None" if "room (snd (apply_actor_event now ev (ac_engine a)))"
    using event_turn_in_step [OF s that, of store routing] by (metis option.distinct(1))
  moreover have "actor_tick_turn store routing now a \<noteq> None" if "room (snd (on_tick now (ac_engine a)))"
    using tick_turn_in_step [OF s that, of store routing] by (metis option.distinct(1))
  ultimately show ?thesis by (simp add: seen_def truth_def published_def fun_eq_iff)
qed


section \<open>A run that writes an entry\<close>

text \<open>The mode a group overrides is nothing validation looks at, so a validated node spawns every group.\<close>

lemma validate_mode [simp]: "validate (cfg\<lparr>mode := m\<rparr>) = validate cfg"
  by (simp add: validate_def)

lemma spawn_total:
  assumes "validate cfg = Inr ()"
  shows "\<exists>a. spawn_group cfg seeds reachable n grp po = Some a"
proof -
  define po' where "po' = (if group_str grp = ROUTING_GROUP then posture_from_mode Eventual else po)"
  have "\<exists>s0. engine_new grp n seeds (cfg\<lparr>mode := po_mode po'\<rparr>) = Inr s0"
    using assms by (simp add: engine_new_def Let_def)
  then have "\<exists>s store. build_engine grp n seeds (cfg\<lparr>mode := po_mode po'\<rparr>) (po_storage po') = Inr (s, store)"
    by (cases "po_storage po'") (auto simp: build_engine_def recovering_def)
  then obtain s store where b: "build_engine grp n seeds (cfg\<lparr>mode := po_mode po'\<rparr>) (po_storage po') = Inr (s, store)" by blast
  have "room (set_bootstrap_contacts reachable s)"
    using build_engine_ok(3) [OF b] by (intro room_alone) (simp add: contacts_members)
  from views_new_ok [OF this] obtain v where "views_new (set_bootstrap_contacts reachable s) = Some v" .
  with b show ?thesis
    by (simp add: spawn_group_def po'_def [symmetric] Let_def silently_def case_prod_beta)
qed

lemma room_settled: "settled s es t \<Longrightarrow> room s \<Longrightarrow> room t"
  using face_dom [of t s] by (simp add: settled_def room_def)

lemma opt_ext:
  assumes "\<And>x. a = Some x \<longleftrightarrow> b = Some x"
  shows "a = b"
proof (cases a)
  case None
  then have "b \<noteq> Some x" for x using assms [of x] by simp
  then have "b = None" by (cases b) blast+
  with None show ?thesis by simp
next
  case (Some x)
  with assms [of x] show ?thesis by simp
qed

lemma m_open_lookup:
  "fmlookup (fmap_of_list (m_open m)) k =
     (case fmlookup (m_entries m) k of None \<Rightarrow> None | Some e \<Rightarrow> if se_tombstone e then None else Some (se_value e))"
proof -
  have "distinct (map fst (m_open m))"
    unfolding m_open_def map_map comp_def case_prod_unfold fst_conv
    by (subst map_fst_filter [where Q = "\<lambda>k. \<not> se_tombstone (the (fmlookup (m_entries m) k))"])
       (auto simp: in_fentries_iff)
  then have "map_of (m_open m) k = Some x \<longleftrightarrow> (k, x) \<in> set (m_open m)" for x
    by (rule map_of_eq_Some_iff)
  moreover have "(k, x) \<in> set (m_open m) \<longleftrightarrow> (\<exists>e. fmlookup (m_entries m) k = Some e \<and> \<not> se_tombstone e \<and> x = se_value e)" for x
    by (force simp: m_open_def in_fentries_iff)
  ultimately have "map_of (m_open m) k = Some x \<longleftrightarrow> (case fmlookup (m_entries m) k of None \<Rightarrow> None
      | Some e \<Rightarrow> if se_tombstone e then None else Some (se_value e)) = Some x" for x
    by (auto split: option.split)
  then show ?thesis unfolding fmlookup_of_list by (rule opt_ext)
qed

lemma author_entry_shows:
  assumes "fmlookup (ge_members s) (ge_local s) = Some m"
  shows "\<exists>es. views_node_entries (snd (author_entry key v ttl False s)) (ge_local s) = Some es \<and> fmlookup es key = Some v"
proof -
  define e where "e = entry_adopted (sat_add (m_max_state_version m) 1) v ttl False (ge_now_hint s)"
  define m' where "m' = put_entry_due key e (reap_after s) (m\<lparr>m_max_state_version := sat_add (m_max_state_version m) 1\<rparr>)"
  define b where "b = s\<lparr>ge_members := fmupd (ge_local s) m' (ge_members s), ge_authored := finsert key (ge_authored s)\<rparr>"
  define u where "u = nudge_anti_entropy_now (stamp_self b)"
  have "snd (author_entry key v ttl False s) = snd (eager_push u)"
    using assms by (simp add: author_entry_def Let_def then_do_def emit_def case_prod_beta u_def b_def m'_def e_def)
  moreover have "still u (snd (eager_push u))" by (rule still_at [OF keeps_still_eager_push])
  moreover have "still (stamp_self b) u" unfolding u_def by (simp add: untouched_still)
  moreover have "open_of (face (stamp_self b) (ge_local s)) = m_open m'"
  proof -
    have "face b (ge_local s) = Some (face_of m')" "ge_local b = ge_local s" by (simp_all add: b_def face_def)
    then show ?thesis by (simp add: stamp_self_def face_stamp face_of_def open_of_def)
  qed
  ultimately have n: "node_entries (snd (author_entry key v ttl False s)) (ge_local s) = m_open m'"
    by (simp add: open_of_face [symmetric] still_def)
  have "fmlookup (fmap_of_list (m_open m')) key = Some v"
    by (simp add: m_open_lookup m'_def put_entry_due_def e_def entry_adopted_def Let_def)
  with n show ?thesis by (auto simp: views_node_entries_def Let_def)
qed

theorem views_current_witness:
  "\<exists>a es. actor_run (GroupId [103]) (NodeId [97]) a
    \<and> pmap_get (pb_entries (ac_published a)) (NodeId [97]) = Some es \<and> fmlookup es [107] = Some [118]"
proof -
  have "validate config_default = Inr ()" by (simp add: validate_def config_default_def)
  from spawn_total [OF this] obtain a0 where
    a0: "spawn_group config_default [] [NodeId [98]] (NodeId [97]) (GroupId [103]) (posture_of EventualProfile) = Some a0"
    by blast
  define a where "a = snd (actor_boot (\<lambda>_ _. Done True) False 0 a0)"
  have run: "actor_run (GroupId [103]) (NodeId [97]) a" unfolding a_def by (rule actor_run.boot [OF a0])
  note alone = boot_alone [OF a0, of "ac_engine a" "\<lambda>_ _. Done True" False 0, folded a_def, OF refl]
  from actor_run_in_step [OF run] have ok: "derived_ok (ac_engine a)" "in_step a" by (simp_all add: in_step_def)
  obtain m where m: "fmlookup (ge_members (ac_engine a)) (ge_local (ac_engine a)) = Some m"
    using alone by (metis finsertI1 fmlookup_dom_iff)
  define ev where "ev = Local (SetLocalEntry [107] [118] None)"
  have t: "snd (apply_actor_event 0 ev (ac_engine a)) = snd (author_entry [107] [118] 0 False (ac_engine a))"
    by (simp add: ev_def set_local_entry_def case_prod_beta Let_def)
  have r: "room (snd (apply_actor_event 0 ev (ac_engine a)))"
    unfolding t using keeps_settled_author room_settled room_alone [OF alone(1)] unfolding keeps_def by blast
  obtain completion cmd edges a'
    where turn: "actor_event_turn (\<lambda>_ _. Done True) False 0 ev a = Some (completion, cmd, edges, a')" and "in_step a'"
      and eng: "ac_engine a' = snd (apply_actor_event 0 ev (ac_engine a))"
    by (rule event_turn_in_step [OF ok(2) r, of "\<lambda>_ _. Done True" False])
  have run': "actor_run (GroupId [103]) (NodeId [97]) a'"
    by (rule actor_run.event [OF run turn]) (simp add: eng r)
  obtain es where "views_node_entries (ac_engine a') (NodeId [97]) = Some es" "fmlookup es [107] = Some [118]"
    using author_entry_shows [OF m, of "[107]" "[118]" 0] unfolding eng t alone(2) by blast
  moreover have "pmap_get (pb_entries (ac_published a')) = views_node_entries (ac_engine a')"
    by (rule views_current [OF run', THEN conjunct2, THEN conjunct2, THEN conjunct1])
  ultimately show ?thesis using run' by metis
qed

end
