(* ===== verification/Actor_Durable.thy ===== *)
theory Actor_Durable
  imports Actor_Views Quorum_Safety Lone_Run
begin

text \<open>
  The write-ahead contract of a voter, end to end: whatever the engine asks for and however the store
  answers, the group actor never hands the transport a grant of its own that is not on disk.  The engine
  side is \<open>Quorum_Safety\<close>, the driver side is \<open>driver/durability.rs\<close>, and this theory runs them together.
\<close>


section \<open>Runs of one actor\<close>

text \<open>A pair this node can have granted before the boot that recovered \<open>g\<close>.\<close>

definition granted_before :: "(u64 \<times> node_id) option \<Rightarrow> u64 \<Rightarrow> node_id \<Rightarrow> bool" where
  "granted_before g e c = (case g of None \<Rightarrow> False | Some (e0, c0) \<Rightarrow> e < e0 \<or> (e, c) = (e0, c0))"

definition sent_grant :: "io_event list \<Rightarrow> u64 \<Rightarrow> node_id \<Rightarrow> node_id \<Rightarrow> bool" where
  "sent_grant log e c n \<longleftrightarrow>
     (\<exists>to b f. Sent to b \<in> set log \<and> decode b = Some f \<and> fr_lead f = Some (Grant e c n))"

text \<open>
  Frames are not forged: a received grant that names this node as its granter is one it sent, now or in
  an earlier life.
\<close>

definition not_forged :: "(u64 \<times> node_id) option \<Rightarrow> node_id \<Rightarrow> io_event list \<Rightarrow> actor_event \<Rightarrow> bool" where
  "not_forged g n log ev = (case ev of
      Message _ b \<Rightarrow> (\<forall>f e c. decode b = Some f \<longrightarrow> fr_lead f = Some (Grant e c n) \<longrightarrow>
        granted_before g e c \<or> sent_grant log e c n)
    | _ \<Rightarrow> True)"

inductive durable_run :: "voter_roster \<Rightarrow> group_id \<Rightarrow> node_id \<Rightarrow> (u64 \<times> node_id) option \<Rightarrow> group_actor \<Rightarrow> bool"
  for r :: voter_roster and grp :: group_id and n :: node_id and g :: "(u64 \<times> node_id) option" where
  boot: "\<lbrakk>spawn_group node_config seeds contacts n grp (posture_of (QuorumProfile lease_ms r (Some (RecoveredGrant g)))) = Some a;
      group_str grp \<noteq> ROUTING_GROUP; \<forall>e c. g = Some (e, c) \<longrightarrow> node_ok c\<rbrakk>
      \<Longrightarrow> durable_run r grp n g (snd (actor_boot store routing now a))"
| event: "\<lbrakk>durable_run r grp n g a; not_forged g n (ac_log a) ev;
      actor_event_turn store routing now ev a = Some (completion, cmd, edges, a')\<rbrakk>
      \<Longrightarrow> durable_run r grp n g a'"
| tick: "\<lbrakk>durable_run r grp n g a; actor_tick_turn store routing now a = Some (cmd, edges, a')\<rbrakk>
      \<Longrightarrow> durable_run r grp n g a'"
| close: "durable_run r grp n g a \<Longrightarrow> durable_run r grp n g (a\<lparr>ac_durability := (ac_durability a)\<lparr>du_closed := True\<rparr>\<rparr>)"


section \<open>The invariant\<close>

definition on_disk :: "(u64 \<times> node_id) option \<Rightarrow> io_event list \<Rightarrow> u64 \<Rightarrow> node_id \<Rightarrow> bool" where
  "on_disk g log e c \<longleftrightarrow> g = Some (e, c) \<or> Wrote e c True \<in> set log"

definition write_ahead :: "(u64 \<times> node_id) option \<Rightarrow> node_id \<Rightarrow> io_event list \<Rightarrow> bool" where
  "write_ahead g n log \<longleftrightarrow> (\<forall>pre to b post f e c. log = pre @ Sent to b # post \<longrightarrow> decode b = Some f \<longrightarrow>
     fr_lead f = Some (Grant e c n) \<longrightarrow> on_disk g pre e c)"

definition driver_ok :: "(u64 \<times> node_id) option \<Rightarrow> node_id \<Rightarrow> ledger_log \<Rightarrow> group_actor \<Rightarrow> bool" where
  "driver_ok g n lg a \<longleftrightarrow> du_store (ac_durability a) \<and> write_ahead g n (ac_log a)
     \<and> (\<forall>v e c. v \<noteq> n \<longrightarrow> (v, e, c) \<in> lg_grants lg)
     \<and> (\<forall>e c. granted_before g e c \<or> sent_grant (ac_log a) e c n \<longrightarrow> (n, e, c) \<in> lg_grants lg)
     \<and> (\<forall>e c. (n, e, c) \<in> lg_grants lg \<longrightarrow> newest n e (lg_grants lg) \<longrightarrow>
          on_disk g (ac_log a) e c \<or> du_undurable (ac_durability a) = Some (e, c))"

lemma write_ahead_snoc:
  "write_ahead g n (log @ [x]) \<longleftrightarrow> write_ahead g n log \<and>
     (\<forall>to b f e c. x = Sent to b \<longrightarrow> decode b = Some f \<longrightarrow> fr_lead f = Some (Grant e c n) \<longrightarrow> on_disk g log e c)"
proof -
  have "log @ [x] = pre @ y # post \<longleftrightarrow>
      (\<exists>post'. post = post' @ [x] \<and> log = pre @ y # post') \<or> (post = [] \<and> log = pre \<and> x = y)" for pre y post
    by (cases post rule: rev_cases) auto
  then show ?thesis by (auto simp: write_ahead_def)
qed

lemma sent_grant_snoc:
  "sent_grant (log @ [x]) e c n \<longleftrightarrow> sent_grant log e c n \<or>
     (\<exists>to b f. x = Sent to b \<and> decode b = Some f \<and> fr_lead f = Some (Grant e c n))"
  by (auto simp: sent_grant_def)

lemma on_disk_snoc: "on_disk g (log @ [x]) e c \<longleftrightarrow> on_disk g log e c \<or> x = Wrote e c True"
  by (auto simp: on_disk_def)

lemma withholds_undurable:
  "\<lbrakk>du_undurable d = Some (e, c); decode b = Some f; fr_lead f = Some (Grant e c n)\<rbrakk> \<Longrightarrow> withholds d b n"
  by (simp add: withholds_def undurable_frame_def)

lemma driver_ok_send:
  assumes ok: "driver_ok g n lg a" and law: "lawful r n lg (Send to b)"
  shows "driver_ok g n lg (dispatch_effect store n (Send to b) a)"
proof (cases "withholds (ac_durability a) b n")
  case True
  with ok show ?thesis by simp
next
  case False
  have own: "(n, e, c) \<in> lg_grants lg \<and> on_disk g (ac_log a) e c"
    if "decode b = Some f" "fr_lead f = Some (Grant e c n)" for f e c
  proof -
    from law that have "(n, e, c) \<in> lg_grants lg" "newest n e (lg_grants lg)"
      by (auto simp: lawful.simps(1))
    moreover from withholds_undurable [OF _ that] False have "du_undurable (ac_durability a) \<noteq> Some (e, c)" by blast
    ultimately show ?thesis using ok unfolding driver_ok_def by blast
  qed
  define a' where "a' = dispatch_effect store n (Send to b) a"
  from False have a': "ac_log a' = ac_log a @ [Sent to b]" "ac_durability a' = ac_durability a"
    by (simp_all add: a'_def)
  have "write_ahead g n (ac_log a')"
    using ok own by (auto simp: driver_ok_def a' write_ahead_snoc)
  moreover have "(n, e, c) \<in> lg_grants lg" if "granted_before g e c \<or> sent_grant (ac_log a') e c n" for e c
    using ok own that unfolding driver_ok_def a' sent_grant_snoc by blast
  ultimately show ?thesis
    using ok unfolding driver_ok_def a'_def [symmetric] by (simp add: a' on_disk_snoc)
qed

lemma driver_ok_persist:
  assumes ok: "driver_ok g n lg a" and law: "lawful r n lg (PersistGrant e c)"
  shows "driver_ok g n (log_effect n (PersistGrant e c) lg) (dispatch_effect store n (PersistGrant e c) a)"
proof -
  have only: "(e', c') = (e, c)"
    if "(n, e', c') \<in> insert (n, e, c) (lg_grants lg)" "newest n e' (insert (n, e, c) (lg_grants lg))" for e' c'
    using that law by (fastforce simp: newest_def)
  define a' where "a' = dispatch_effect store n (PersistGrant e c) a"
  have d: "du_store (ac_durability a)" using ok by (simp add: driver_ok_def)
  have disk: "on_disk g (ac_log a') e c \<or> du_undurable (ac_durability a') = Some (e, c)"
    using d by (auto simp: a'_def write_starts_def persist_def on_disk_snoc split: write_answer.splits)
  have "du_store (ac_durability a')"
    using d by (auto simp: a'_def persist_def split: write_answer.splits)
  moreover have "write_ahead g n (ac_log a')"
    using ok by (auto simp: driver_ok_def a'_def write_ahead_snoc)
  moreover have "sent_grant (ac_log a') e' c' n = sent_grant (ac_log a) e' c' n" for e' c'
    by (auto simp: a'_def sent_grant_snoc)
  moreover have "on_disk g (ac_log a') e' c' \<or> du_undurable (ac_durability a') = Some (e', c')"
    if "(n, e', c') \<in> insert (n, e, c) (lg_grants lg)" "newest n e' (insert (n, e, c) (lg_grants lg))" for e' c'
    using disk only [OF that] by simp
  ultimately show ?thesis
    using ok unfolding a'_def [symmetric] driver_ok_def by simp
qed

lemma driver_ok_effect:
  assumes "driver_ok g n lg a" "lawful r n lg x"
  shows "driver_ok g n (log_effect n x lg) (dispatch_effect store n x a)"
proof (cases x)
  case (Send to b)
  with driver_ok_send assms show ?thesis by simp
next
  case (PersistGrant e c)
  with driver_ok_persist assms show ?thesis by blast
next
  case (LeadershipChanged e h)
  with assms(1) show ?thesis by (cases h) (simp_all add: driver_ok_def)
qed (use assms(1) in \<open>simp_all add: driver_ok_def\<close>)

lemma driver_ok_batch:
  "\<lbrakk>driver_ok g n lg a; lawful_batch r n lg es\<rbrakk>
     \<Longrightarrow> driver_ok g n (log_effects n es lg) (dispatch_batch store n es a)"
proof (induction es arbitrary: lg a)
  case Nil
  then show ?case by (simp add: dispatch_batch_def)
next
  case (Cons x es)
  then show ?case using driver_ok_effect [of g n lg a r x store] by (simp add: dispatch_batch_def)
qed

lemma dispatch_engine [simp]: "ac_engine (dispatch_batch store n es a) = ac_engine a"
proof -
  have "ac_engine (dispatch_effect store n x a) = ac_engine a" for x a by (cases x) simp_all
  then show ?thesis unfolding dispatch_batch_def by (induction es arbitrary: a) simp_all
qed

definition actor_ok :: "voter_roster \<Rightarrow> group_id \<Rightarrow> node_id \<Rightarrow> (u64 \<times> node_id) option \<Rightarrow> group_actor \<Rightarrow> bool" where
  "actor_ok r grp n g a \<longleftrightarrow> (\<exists>lg. engine_ok r grp n lg (ac_engine a) \<and> driver_ok g n lg a)"

lemma actor_ok_batch:
  assumes "driver_ok g n lg a" "safe_at r grp n lg (es, s)"
  shows "actor_ok r grp n g (dispatch_batch store n es (a\<lparr>ac_engine := s, ac_last_tick := lt\<rparr>))"
proof -
  from assms(1) have "driver_ok g n lg (a\<lparr>ac_engine := s, ac_last_tick := lt\<rparr>)" by (simp add: driver_ok_def)
  from driver_ok_batch [OF this, of r es store] assms(2) show ?thesis
    unfolding actor_ok_def safe_at_def by (intro exI [of _ "log_effects n es lg"]) simp
qed

lemma actor_ok_views:
  "\<lbrakk>ac_engine a' = ac_engine a; ac_durability a' = ac_durability a; ac_log a' = ac_log a\<rbrakk>
     \<Longrightarrow> actor_ok r grp n g a' \<longleftrightarrow> actor_ok r grp n g a"
  by (simp add: actor_ok_def driver_ok_def)

lemma publish_keeps:
  assumes "publish_actor_views routing es a = Some (cmd, edges, a')"
  shows "ac_engine a' = ac_engine a \<and> ac_durability a' = ac_durability a \<and> ac_log a' = ac_log a"
  using assms by (auto simp: publish_actor_views_def Let_def split: prod.splits bind_splits)

lemma carry_out_ok:
  assumes "driver_ok g n lg a" "safe_at r grp n lg (es, s)"
    and "carry_out store routing es (a\<lparr>ac_engine := s, ac_last_tick := lt\<rparr>) = Some (cmd, edges, a')"
  shows "actor_ok r grp n g a'"
proof -
  have "ge_local s = n" using assms(2) by (auto simp: safe_at_def engine_ok_def)
  with assms(3) have "publish_actor_views routing es
      (dispatch_batch store n es (a\<lparr>ac_engine := s, ac_last_tick := lt\<rparr>)) = Some (cmd, edges, a')"
    by (simp add: carry_out_def)
  from publish_keeps [OF this] actor_ok_batch [OF assms(1,2)] show ?thesis
    using actor_ok_views by blast
qed


section \<open>Every turn keeps it\<close>

lemma safe_at_then:
  assumes "safe_at r grp n lg (es, t)" "keeps (safe r grp n) f"
  shows "safe_at r grp n lg (es @ fst (f t), snd (f t))"
proof -
  from assms(1) have t: "engine_ok r grp n (log_effects n es lg) t" "lawful_batch r n lg es"
    by (simp_all add: safe_at_def)
  from safe_at_keeps [OF assms(2) t(1)] t(2) show ?thesis by (simp add: safe_at_def)
qed

lemma apply_actor_event_safe:
  assumes ok: "engine_ok r grp n lg s" and "group_ok grp" "node_ok n"
    and auth: "\<And>from b. ev = Message from b \<Longrightarrow> authentic lg b"
    and ev: "apply_actor_event now ev s = ((es, completion), t)"
  shows "safe_at r grp n lg (es, t)"
proof -
  note tick = safe_at_keeps [OF keeps_safe_on_tick [OF assms(3)] ok, of now]
  note cmd = keeps_safe_apply_cmd [of r grp n]
  show ?thesis
  proof (cases ev)
    case (Message "from" b)
    with safe_at_on_message [OF ok assms(2,3) auth [OF Message], of "from" now] ev show ?thesis
      by (auto split: prod.splits)
  next
    case (Local c)
    with safe_at_keeps [OF cmd ok, of c] ev show ?thesis by (auto split: prod.splits)
  next
    case (SetEntryConfirmed key val ttl)
    obtain es1 t1 where t1: "on_tick now s = (es1, t1)" by fastforce
    with safe_at_then [OF _ cmd, of lg es1 t1 "SetLocalEntry key val ttl"] tick ev SetEntryConfirmed
    show ?thesis by (auto split: prod.splits)
  next
    case (SetEntryIfRevision key val ttl expected)
    obtain es1 t1 where t1: "on_tick now s = (es1, t1)" by fastforce
    with safe_at_then [OF _ cmd, of lg es1 t1 "SetLocalEntry key val ttl"] tick ev SetEntryIfRevision
    show ?thesis by (auto split: prod.splits if_splits)
  next
    case (DeleteEntryIfValue key expected)
    obtain es1 t1 where t1: "on_tick now s = (es1, t1)" by fastforce
    with safe_at_then [OF _ cmd, of lg es1 t1 "DeleteLocalEntry key"] tick ev DeleteEntryIfValue
    show ?thesis by (auto split: prod.splits if_splits)
  qed
qed

lemma not_forged_authentic:
  "\<lbrakk>driver_ok g n lg a; not_forged g n (ac_log a) (Message from b)\<rbrakk> \<Longrightarrow> authentic lg b"
  unfolding driver_ok_def not_forged_def authentic_def by fastforce

text \<open>What may be on record when an actor boots.\<close>

definition boot_log :: "node_id \<Rightarrow> (u64 \<times> node_id) option \<Rightarrow> ledger_log" where
  "boot_log n g = \<lparr>lg_grants = {(v, e, c). v = n \<longrightarrow> granted_before g e c}, lg_hosts = {}\<rparr>"

lemma boot_driver_ok:
  assumes "ac_durability a = durability_new True" "ac_log a = []"
  shows "driver_ok g n (boot_log n g) a"
  using assms
  by (auto simp: driver_ok_def boot_log_def durability_new_def write_ahead_def sent_grant_def on_disk_def
      granted_before_def newest_def split: option.splits)

lemma boot_ledger_ok: "\<forall>e c. g = Some (e, c) \<longrightarrow> node_ok c \<Longrightarrow> ledger_ok n (boot_log n g) g"
  by (auto simp: ledger_ok_def boot_log_def granted_before_def split: option.splits)

lemma spawn_quorum:
  assumes "spawn_group node_config seeds contacts n grp (posture_of (QuorumProfile lease_ms r (Some (RecoveredGrant g)))) = Some a"
    and "group_str grp \<noteq> ROUTING_GROUP" "ledger_ok n lg g"
  shows "engine_ok r grp n lg (ac_engine a)" "ac_durability a = durability_new True" "ac_log a = []"
proof -
  define cfg where "cfg = node_config\<lparr>mode := hosted_mode (Quorum r) lease_ms\<rparr>"
  have cfg: "quorum_config r cfg" by (simp add: cfg_def quorum_config_def hosted_mode_def)
  show "ac_durability a = durability_new True" "ac_log a = []"
    using assms(1,2)
    by (cases "recovering grp n seeds cfg";
        auto simp: spawn_group_def build_engine_def cfg_def Let_def split: prod.splits bind_splits)+
  obtain rec where rec: "recovering grp n seeds cfg = Inr rec"
    and e: "ac_engine a = snd (apply_cmd (SetBootstrapContacts contacts) (restore rec (RecoveredGrant g)))"
    using assms(1,2)
    by (cases "recovering grp n seeds cfg")
       (auto simp: spawn_group_def build_engine_def cfg_def Let_def split: prod.splits bind_splits)
  from safe_at_keeps [OF keeps_safe_apply_cmd restore_engine_ok [OF cfg rec assms(3)], of "SetBootstrapContacts contacts"]
  show "engine_ok r grp n lg (ac_engine a)"
    by (simp add: safe_at_def e silently_def)
qed

lemma durable_run_ok:
  assumes "durable_run r grp n g a" "group_ok grp" "node_ok n"
  shows "actor_ok r grp n g a"
  using assms(1)
proof induction
  case (boot node_config seeds contacts lease_ms a store routing now)
  have led: "ledger_ok n (boot_log n g) g" using boot(3) by (rule boot_ledger_ok)
  note sp = spawn_quorum [OF boot(1,2) led]
  obtain es s where st: "start now (ac_engine a) = (es, s)" by fastforce
  note d = boot_driver_ok [OF sp(2,3), of g n]
  from safe_at_keeps [OF keeps_safe_start sp(1), of now] sp(1) st
  have "safe_at r grp n (boot_log n g) (es, s)" and n: "ge_local (ac_engine a) = n"
    by (simp_all add: engine_ok_def)
  from actor_ok_batch [OF d this(1), of store "ac_last_tick a"]
  have "actor_ok r grp n g (dispatch_batch store n es (a\<lparr>ac_engine := s\<rparr>))" by simp
  moreover have "snd (actor_boot store routing now a) = dispatch_batch store n es (a\<lparr>ac_engine := s\<rparr>)
      \<lparr>ac_announced := snd (announce_coordinator routing s (ac_announced (dispatch_batch store n es (a\<lparr>ac_engine := s\<rparr>))))\<rparr>"
    using st n by (simp add: actor_boot_def case_prod_beta Let_def)
  ultimately show ?case by (simp add: actor_ok_def driver_ok_def)
next
  case (event a ev store routing now completion cmd edges a')
  from event.IH obtain lg where lg: "engine_ok r grp n lg (ac_engine a)" "driver_ok g n lg a"
    by (auto simp: actor_ok_def)
  obtain es b s where ev: "apply_actor_event now ev (ac_engine a) = ((es, b), s)" by (metis prod.collapse)
  have "safe_at r grp n lg (es, s)"
    using apply_actor_event_safe [OF lg(1) assms(2,3) _ ev] not_forged_authentic [OF lg(2)] event.hyps(2) by blast
  moreover from event.hyps(3) ev have
    "carry_out store routing es (a\<lparr>ac_engine := s, ac_last_tick := ac_last_tick a\<rparr>) = Some (cmd, edges, a')"
    by (auto simp: actor_event_turn_def)
  ultimately show ?case using carry_out_ok [OF lg(2)] by blast
next
  case (tick a store routing now cmd edges a')
  from tick.IH obtain lg where lg: "engine_ok r grp n lg (ac_engine a)" "driver_ok g n lg a"
    by (auto simp: actor_ok_def)
  obtain es s where st: "on_tick now (ac_engine a) = (es, s)" by fastforce
  with safe_at_keeps [OF keeps_safe_on_tick [OF assms(3)] lg(1), of now] have "safe_at r grp n lg (es, s)" by simp
  moreover from tick.hyps(2) st have
    "carry_out store routing es (a\<lparr>ac_engine := s, ac_last_tick := Some now\<rparr>) = Some (cmd, edges, a')"
    by (simp add: actor_tick_turn_def)
  ultimately show ?case using carry_out_ok [OF lg(2)] by blast
next
  case (close a)
  then show ?case by (simp add: actor_ok_def driver_ok_def)
qed

text \<open>
  C4. A voter with a store never gives the transport a grant of its own that is not on disk. In every
  run of the group actor - any clock, any commands, any frames but forgeries of this node's own grants, any
  answers of the store, failed and abandoned writes and a close included, whatever earlier lives granted -
  a frame that decodes to a grant naming this node leaves only when the very pair it carries was recovered
  at boot or has been written successfully before.  A frame that carries a grant naming this node as its
  granter is a forgery unless this node has sent it, or granted it before.\<close>

theorem own_grants_are_durable:
  assumes "durable_run r grp n g a" "group_ok grp" "node_ok n"
    and "ac_log a = pre @ Sent to b # post" "decode b = Some f" "fr_lead f = Some (Grant e c n)"
  shows "g = Some (e, c) \<or> Wrote e c True \<in> set pre"
proof -
  from durable_run_ok [OF assms(1-3)] have "write_ahead g n (ac_log a)"
    by (auto simp: actor_ok_def driver_ok_def)
  with assms(4-6) show ?thesis unfolding write_ahead_def on_disk_def by blast
qed


section \<open>A run that grants\<close>

lemma dispatch_append: "dispatch_batch store n (xs @ ys) a = dispatch_batch store n ys (dispatch_batch store n xs a)"
  by (simp add: dispatch_batch_def)

lemma lonely_contacts: "lonely h s \<Longrightarrow> set_bootstrap_contacts [] s = s"
  by (simp add: set_bootstrap_contacts_def lonely_def)

lemma dispatch_flags:
  "du_store (ac_durability (dispatch_batch store n es a)) = du_store (ac_durability a)
   \<and> du_closed (ac_durability (dispatch_batch store n es a)) = du_closed (ac_durability a)"
proof -
  have "du_store (ac_durability (dispatch_effect store n x a)) = du_store (ac_durability a)
      \<and> du_closed (ac_durability (dispatch_effect store n x a)) = du_closed (ac_durability a)" for x a
    by (cases x) (auto simp: persist_def split: write_answer.split)
  then show ?thesis unfolding dispatch_batch_def by (induction es arbitrary: a) simp_all
qed

lemma leaving_index: "ge_leaving (reindex n s) = ge_leaving s" "ge_leaving (restamp n k s) = ge_leaving s"
proof -
  have d: "ge_leaving (file_due n old due u) = ge_leaving u" for old due u by (simp add: file_due_def Let_def)
  have f: "ge_leaving (snd (file_score n old b u)) = ge_leaving u" for old b u
    by (cases b; cases old) (simp_all add: file_score_def live_set_changed_def Let_def)
  show "ge_leaving (reindex n s) = ge_leaving s"
    by (simp add: reindex_def d f case_prod_beta Let_def split: option.split)
  show "ge_leaving (restamp n k s) = ge_leaving s"
    by (simp add: restamp_def Let_def split: option.split)
qed

lemma learn_lone:
  assumes "lonely h s" "c \<noteq> lone_node"
  obtains es t where "learn_claimant c now s = (es, t)" "core t = core s" "\<not> ge_leaving t"
    "fmdom (ge_members t) = {|c, lone_node|}"
proof -
  define u where "u = stamp c (s\<lparr>ge_members := fmupd c (member_new 0 Alive now) (ge_members s)\<rparr>)"
  define t where "t = snd (membership_effects True u)"
  have "learn_claimant c now s = (fst (membership_effects True u), t)"
    using assms by (simp add: learn_claimant_def lonely_def u_def t_def Let_def)
  moreover have "core t = core s"
    using keeps_quiet_learn_claimant [of c now] calculation unfolding keeps_def quiet_def by (metis snd_conv)
  moreover have "ge_leaving t = ge_leaving u"
    by (simp add: t_def membership_effects_def then_do_def emit_def recompute_coordinator_def silently_def
        nudge_anti_entropy_def case_prod_beta Let_def)
  moreover have "\<not> ge_leaving u"
    using assms(1) by (simp add: u_def stamp_def leaving_index lonely_def Let_def)
  moreover have "fmdom (ge_members t) = {|c, lone_node|}"
  proof -
    have "fmdom (ge_members t) = fmdom (ge_members u)" by (simp add: t_def ge_members_membership_effects)
    also have "\<dots> = fmdom (ge_members (s\<lparr>ge_members := fmupd c (member_new 0 Alive now) (ge_members s)\<rparr>))"
      unfolding u_def by (rule face_dom) (simp add: face_stamp)
    also have "\<dots> = {|c, lone_node|}" using assms(1) by (simp add: lonely_def)
    finally show ?thesis .
  qed
  ultimately show thesis using that by blast
qed

lemma lone_voter_grants:
  assumes s: "lonely h s" "ge_election s = Some el" "el_quorum el = Some q" "q_granted q = None"
    "q_grant_promise_until q \<le> now" "el_voters el = Some r" "roster_contains r lone_node"
    "el_role el = Follower" "el_epoch el = 0" and c: "c \<noteq> lone_node"
  obtains es t where "on_lead_claim c 1 c now s = (es @ [PersistGrant 1 c, send_lead t (Grant 1 c lone_node) c], t)"
    "ge_group t = lone_group" "ge_local t = lone_node" "fmdom (ge_members t) = {|c, lone_node|}"
proof -
  define el1 where "el1 = el\<lparr>el_highest_seen := max (el_highest_seen el) 1\<rparr>"
  define s1 where "s1 = upd_el (\<lambda>el. el\<lparr>el_highest_seen := max (el_highest_seen el) 1\<rparr>) s"
  have s1: "lonely h s1" "ge_election s1 = Some el1" using s(1,2) by (simp_all add: s1_def upd_el_def el1_def)
  from learn_lone [OF s1(1) c] obtain es t1 where l: "learn_claimant c now s1 = (es, t1)" "core t1 = core s1" "\<not> ge_leaving t1"
    "fmdom (ge_members t1) = {|c, lone_node|}" by metis
  from l(2) s1 have t1: "ge_local t1 = lone_node" "ge_group t1 = lone_group" "ge_election t1 = Some el1"
    by (simp_all add: core_def lonely_def)
  define t where "t = upd_q (\<lambda>q. q\<lparr>q_granted := Some (1, c), q_resigned := False,
      q_grant_promise_until := time_saturating_add now (lease_ms_of t1)\<rparr>) t1"
  have "repair_claimant c 1 c t1 = ([], t1)"
    using t1(3) s(9) by (simp add: repair_claimant_def el1_def split: option.split)
  moreover have "on_claim_as_voter 1 c now t1 = ([PersistGrant 1 c, send_lead t (Grant 1 c lone_node) c], t)"
    using t1 s(3-7) l(3)
    by (simp add: on_claim_as_voter_def record_grant_def is_voter_def quorum_voters_def quorum_of_def el1_def
        el_voters_def grant_verdict_def Let_def t_def)
  moreover have "\<not> outranked t 1 c"
    using t1(3) s(8) by (simp add: t_def upd_q_def upd_el_def outranked_def el1_def)
  ultimately have "on_lead_claim c 1 c now s = (es @ [PersistGrant 1 c, send_lead t (Grant 1 c lone_node) c], t)"
    using l(1) by (simp add: on_lead_claim_def then_do_def silently_def s1_def [symmetric])
  with that t1 l(4) show thesis by (simp add: t_def upd_q_def upd_el_def)
qed

lemma claim_frame:
  assumes "group_ok (ge_group s)" "node_ok c" "node_ok g"
  shows "decode (encode (lead_frame s (Claim e c))) = Some (lead_frame s (Claim e c))"
    "decode (encode (lead_frame s (Grant e c g))) = Some (lead_frame s (Grant e c g))"
  using assms by (auto intro!: decode_encode simp: lead_frame_def empty_frame_def frame_ok_def body_ok_def opt_node_ok_def)

text \<open>Two voters; the first boots with an empty store, and the second asks it for its grant.\<close>

definition second_voter :: node_id where
  "second_voter = NodeId [98]"

definition two_voters :: voter_roster where
  "two_voters = roster_new [lone_node, second_voter]"

definition two_hosted :: hosted_config where
  "two_hosted = \<lparr>hc_activation = Quorum two_voters, hc_lease_ms = 1000\<rparr>"

definition writes_fine :: "u64 \<Rightarrow> node_id \<Rightarrow> write_answer" where
  "writes_fine = (\<lambda>_ _. Done True)"

lemma two_ids: "group_ok lone_group" "node_ok lone_node" "node_ok second_voter" "second_voter \<noteq> lone_node"
    "group_str lone_group \<noteq> ROUTING_GROUP"
  by (simp_all add: lone_group_def lone_node_def second_voter_def codec_ok_defs str_ok_def len_ok_def ROUTING_GROUP_def ascii_def)

lemma voter_boots:
  obtains a q where "durable_run two_voters lone_group lone_node None a" "actor_run lone_group lone_node a"
    "lonely two_hosted (ac_engine a)" "du_store (ac_durability a)" "\<not> du_closed (ac_durability a)"
    "ge_election (ac_engine a) = Some ((election_new two_hosted)
      \<lparr>el_quorum := Some q, el_no_claim_before := time_saturating_add 0 1000\<rparr>)"
    "q_granted q = None" "q_grant_promise_until q = time_zero"
proof -
  define s0 where "s0 = upd_q (\<lambda>q. q\<lparr>q_grant_promise_until := time_zero\<rparr>) (lone_engine two_hosted)"
  obtain a0 where a0: "spawn_group config_default [] [] lone_node lone_group
      (posture_of (QuorumProfile 1000 two_voters (Some (RecoveredGrant None)))) = Some a0"
    using spawn_total validate_lone [of two_hosted] by (metis lone_config_def validate_mode)
  have "recovering lone_group lone_node [] (lone_config two_hosted) = Inr (RecoveringEngine (lone_engine two_hosted))"
    by (simp add: recovering_def engine_new_lone)
  moreover have "config_default\<lparr>mode := hosted_mode (Quorum two_voters) 1000\<rparr> = lone_config two_hosted"
    by (simp add: lone_config_def hosted_mode_def two_hosted_def)
  ultimately have "ac_engine a0 = set_bootstrap_contacts [] s0"
    using a0 two_ids(5) by (auto simp: spawn_group_def build_engine_def Let_def s0_def silently_def split: prod.splits bind_splits)
  moreover have lone: "lonely two_hosted s0" using lonely_lone_engine(1) by (simp add: s0_def upd_q_def upd_el_def)
  ultimately have e0: "ac_engine a0 = s0" by (simp add: lonely_contacts)
  from lonely_start [OF lone, of 0] obtain at t where st: "start 0 s0 = ([ArmTimer at], t)" "lonely two_hosted t"
    "ge_election t = ge_election (election_start 0 s0)" by blast
  define a1 where "a1 = snd (actor_boot writes_fine False 0 a0)"
  have run1: "durable_run two_voters lone_group lone_node None a1"
    unfolding a1_def by (rule durable_run.boot [OF a0 two_ids(5)]) simp
  have e1: "ac_engine a1 = t" by (simp add: a1_def actor_boot_def e0 st case_prod_beta Let_def)
  define q where "q = the (quorum_for_activation (Quorum two_voters))\<lparr>q_grant_promise_until := time_zero\<rparr>"
  have "ge_election s0 = Some ((election_new two_hosted)\<lparr>el_quorum := Some q\<rparr>)"
    using lonely_lone_engine(2) [of two_hosted]
    by (simp add: s0_def upd_q_def upd_el_def election_new_def two_hosted_def quorum_for_activation_def q_def)
  moreover have "time_zero \<noteq> time_max" by code_simp
  ultimately have el: "ge_election t = Some ((election_new two_hosted)\<lparr>el_quorum := Some q, el_no_claim_before := time_saturating_add 0 1000\<rparr>)"
    by (simp add: st(3) election_start_def upd_el_def quorum_start_def q_def election_new_def two_hosted_def activation_window_ms_def
        quorum_for_activation_def)
  have "ac_durability a0 = durability_new True"
    using spawn_quorum(2) [OF a0 two_ids(5) boot_ledger_ok] by simp
  then have "du_store (ac_durability a1)" "\<not> du_closed (ac_durability a1)"
    by (simp_all add: a1_def actor_boot_def case_prod_beta Let_def dispatch_flags durability_new_def)
  moreover have "actor_run lone_group lone_node a1" unfolding a1_def by (rule actor_run.boot [OF a0])
  moreover have "q_granted q = None" "q_grant_promise_until q = time_zero"
    by (simp_all add: q_def quorum_for_activation_def)
  ultimately show thesis using that run1 st(2) el e1 by simp
qed

lemma claim_answered:
  assumes "lonely two_hosted t" "ge_election t = Some ((election_new two_hosted)
      \<lparr>el_quorum := Some q, el_no_claim_before := x\<rparr>)" "q_granted q = None" "q_grant_promise_until q = time_zero"
  obtains es u where "apply_actor_event 0 (Message second_voter (encode (lead_frame t (Claim 1 second_voter)))) t =
      ((es @ [PersistGrant 1 second_voter, send_lead u (Grant 1 second_voter lone_node) second_voter], None), u)"
    "ge_group u = lone_group" "ge_local u = lone_node" "room u"
proof -
  define wire where "wire = encode (lead_frame t (Claim 1 second_voter))"
  have g: "group_ok (ge_group t)" "ge_group t = lone_group" using assms(1) two_ids by (simp_all add: lonely_def)
  have dec: "decode wire = Some (lead_frame t (Claim 1 second_voter))"
    unfolding wire_def by (rule claim_frame(1) [OF g(1) two_ids(3,2)])
  define t' where "t' = hear_time 0 t"
  have t': "lonely two_hosted t'" "ge_election t' = ge_election t" "ge_group t' = lone_group"
    using assms(1) by (simp_all add: t'_def hear_time_def lonely_def)
  obtain es u where cl: "on_lead_claim second_voter 1 second_voter 0 t' =
      (es @ [PersistGrant 1 second_voter, send_lead u (Grant 1 second_voter lone_node) second_voter], u)"
    "ge_group u = lone_group" "ge_local u = lone_node" "fmdom (ge_members u) = {|second_voter, lone_node|}"
    by (rule lone_voter_grants [OF t'(1) t'(2) [unfolded assms(2)], of q 0 two_voters second_voter])
       (use two_ids(4) assms(3,4) in \<open>simp_all add: election_new_def two_hosted_def el_voters_def two_voters_def
          roster_contains_def\<close>)
  have "apply_actor_event 0 (Message second_voter wire) t =
      ((es @ [PersistGrant 1 second_voter, send_lead u (Grant 1 second_voter lone_node) second_voter], None), u)"
    using cl(1) dec g(2) t' assms(2)
    by (simp add: on_message_def t'_def [symmetric] lead_frame_def empty_frame_def statuses_known_def dispatch_def on_lead_def)
  moreover have "room u" using cl(4) two_ids(4) by (simp add: room_def fcard.rep_eq)
  ultimately show thesis using that cl(2,3) by (simp add: wire_def)
qed

lemma granting_run:
  obtains a f b where "durable_run two_voters lone_group lone_node None a"
    "Sent second_voter b \<in> set (ac_log a)" "decode b = Some f" "fr_lead f = Some (Grant 1 second_voter lone_node)"
proof -
  obtain a1 q where run1: "durable_run two_voters lone_group lone_node None a1" "actor_run lone_group lone_node a1"
    and dur: "du_store (ac_durability a1)" "\<not> du_closed (ac_durability a1)"
    and t: "lonely two_hosted (ac_engine a1)" "ge_election (ac_engine a1) = Some ((election_new two_hosted)
      \<lparr>el_quorum := Some q, el_no_claim_before := time_saturating_add 0 1000\<rparr>)"
      "q_granted q = None" "q_grant_promise_until q = time_zero"
    by (rule voter_boots)
  define ev where "ev = Message second_voter (encode (lead_frame (ac_engine a1) (Claim 1 second_voter)))"
  obtain es u where msg: "apply_actor_event 0 ev (ac_engine a1) =
      ((es @ [PersistGrant 1 second_voter, send_lead u (Grant 1 second_voter lone_node) second_voter], None), u)"
    and u: "ge_group u = lone_group" "ge_local u = lone_node" "room u"
    unfolding ev_def by (rule claim_answered [OF t])
  have "room (snd (apply_actor_event 0 ev (ac_engine a1)))" unfolding msg using u(3) by simp
  from event_turn_in_step [OF actor_run_in_step [OF run1(2)] this, of writes_fine False]
  obtain completion cmd edges a2 where turn: "actor_event_turn writes_fine False 0 ev a1 = Some (completion, cmd, edges, a2)"
    by metis
  have g: "group_ok (ge_group (ac_engine a1))" using t(1) two_ids(1) by (simp add: lonely_def)
  have "not_forged None lone_node (ac_log a1) ev"
    by (simp add: ev_def not_forged_def claim_frame(1) [OF g two_ids(3,2)]) (simp add: lead_frame_def)
  then have run2: "durable_run two_voters lone_group lone_node None a2" by (rule durable_run.event [OF run1(1) _ turn])
  define b where "b = encode (lead_frame u (Grant 1 second_voter lone_node))"
  define x where "x = dispatch_batch writes_fine lone_node es (a1\<lparr>ac_engine := u\<rparr>)"
  have x: "du_store (ac_durability x)" "\<not> du_closed (ac_durability x)" using dur by (simp_all add: x_def dispatch_flags)
  have "carry_out writes_fine False (es @ [PersistGrant 1 second_voter, Send second_voter b]) (a1\<lparr>ac_engine := u\<rparr>)
      = Some (cmd, edges, a2)"
    using turn unfolding actor_event_turn_def msg by (simp add: b_def send_lead_def)
  then have "ac_log a2 = ac_log (dispatch_batch writes_fine lone_node [PersistGrant 1 second_voter, Send second_voter b] x)"
    unfolding carry_out_def by (auto simp: u(2) dispatch_append x_def dest!: publish_keeps)
  then have "Sent second_voter b \<in> set (ac_log a2)"
    using x by (simp add: dispatch_batch_def persist_def writes_fine_def withholds_def)
  moreover have "decode b = Some (lead_frame u (Grant 1 second_voter lone_node))"
    unfolding b_def by (rule claim_frame(2)) (simp_all add: u(1) two_ids)
  ultimately show thesis using that run2 by (simp add: lead_frame_def)
qed

theorem own_grants_are_durable_witness:
  "\<exists>a pre b post f. durable_run two_voters lone_group lone_node None a
     \<and> ac_log a = pre @ Sent second_voter b # post \<and> decode b = Some f
     \<and> fr_lead f = Some (Grant 1 second_voter lone_node) \<and> Wrote 1 second_voter True \<in> set pre"
proof -
  obtain a f b where run: "durable_run two_voters lone_group lone_node None a"
    "Sent second_voter b \<in> set (ac_log a)" "decode b = Some f" "fr_lead f = Some (Grant 1 second_voter lone_node)"
    by (rule granting_run)
  from run(2) obtain pre post where split: "ac_log a = pre @ Sent second_voter b # post"
    by (meson split_list)
  from own_grants_are_durable [OF run(1) two_ids(1,2) split run(3,4)] split run show ?thesis by auto
qed

end
