(* ===== verification/Lease_Wire.thy ===== *)
theory Lease_Wire
  imports Session_Wire
begin

text \<open>
  The gossiped half of the coherence-lease tier (\<open>crates/groupnet-consistency/src/lease/wire.rs\<close>) and its
  tuning (\<open>lease.rs\<close>): renewal identities, grant maps with the granter's own life row, the entry keys,
  the two codecs, and the validation of a lease configuration.  A \<open>Duration\<close> is its number of
  nanoseconds.

  The lemmas show that a grant map is read back from its encoding and that a truncated encoding never
  yields a grant that was not made.
\<close>


section \<open>Renewals and grant maps\<close>

datatype renewal_id = RenewalId (rn_epoch: u64) (rn_seq: u64)

instantiation renewal_id :: linorder
begin

definition less_eq_renewal_id :: "renewal_id \<Rightarrow> renewal_id \<Rightarrow> bool" where
  "a \<le> b \<longleftrightarrow> (rn_epoch a, rn_seq a) \<le> (rn_epoch b, rn_seq b)"

definition less_renewal_id :: "renewal_id \<Rightarrow> renewal_id \<Rightarrow> bool" where
  "a < b \<longleftrightarrow> (rn_epoch a, rn_seq a) < (rn_epoch b, rn_seq b)"

instance
  by standard (auto simp: less_eq_renewal_id_def less_renewal_id_def intro: renewal_id.expand)

end

lemma renewal_less_iff: "a < b \<longleftrightarrow> rn_epoch a < rn_epoch b \<or> rn_epoch a = rn_epoch b \<and> rn_seq a < rn_seq b"
  by (auto simp: less_renewal_id_def)

lemma renewal_le_iff: "a \<le> b \<longleftrightarrow> rn_epoch a < rn_epoch b \<or> rn_epoch a = rn_epoch b \<and> rn_seq a \<le> rn_seq b"
  by (auto simp: less_eq_renewal_id_def)

type_synonym grant_map = "(node_id, renewal_id) fmap"

definition LIFE_LIVE :: u64 where
  "LIFE_LIVE = 0"

definition LIFE_DEPARTED :: u64 where
  "LIFE_DEPARTED = u64_max"

record granter_life =
  gl_epoch :: u64
  gl_departed :: bool

definition life_stamp :: "granter_life \<Rightarrow> node_id \<Rightarrow> grant_map \<Rightarrow> grant_map" where
  "life_stamp life granter grants =
    fmupd granter (RenewalId (gl_epoch life) (if gl_departed life then LIFE_DEPARTED else LIFE_LIVE)) grants"

definition life_of :: "node_id \<Rightarrow> grant_map \<Rightarrow> granter_life option" where
  "life_of granter grants = do {
    row \<leftarrow> fmlookup grants granter;
    if rn_seq row = LIFE_LIVE then Some \<lparr>gl_epoch = rn_epoch row, gl_departed = False\<rparr>
    else if rn_seq row = LIFE_DEPARTED then Some \<lparr>gl_epoch = rn_epoch row, gl_departed = True\<rparr>
    else None
  }"

lemma life_of_stamp [simp]: "life_of granter (life_stamp life granter grants) = Some life"
  by (simp add: life_of_def life_stamp_def LIFE_LIVE_def LIFE_DEPARTED_def)

definition RENEWAL_KEY :: str where
  "RENEWAL_KEY = ascii ''~lease/r''"

definition GRANT_KEY :: str where
  "GRANT_KEY = ascii ''~lease/g''"

definition renewal_entry_key :: "str option \<Rightarrow> str" where
  "renewal_entry_key set_name = set_key RENEWAL_KEY set_name"

definition grant_entry_key :: "str option \<Rightarrow> str" where
  "grant_entry_key set_name = set_key GRANT_KEY set_name"


section \<open>Codecs\<close>

definition encode_renewal :: "renewal_id \<Rightarrow> bytes" where
  "encode_renewal i = put_u64 (rn_epoch i) @ put_u64 (rn_seq i)"

definition decode_renewal :: "bytes \<Rightarrow> renewal_id option" where
  "decode_renewal bs = (
    if length bs \<noteq> 16 then None
    else do {
      (epoch, cur) \<leftarrow> get_u64 bs;
      (seq, cur) \<leftarrow> get_u64 cur;
      Some (RenewalId epoch seq)
    })"

definition put_grant :: "node_id \<times> renewal_id \<Rightarrow> bytes" where
  "put_grant row = (case row of (reader, i) \<Rightarrow>
    put_len (length (as_str reader)) @ as_str reader @ put_u64 (rn_epoch i) @ put_u64 (rn_seq i))"

definition encode_grants :: "grant_map \<Rightarrow> bytes" where
  "encode_grants grants = concat (map put_grant (fentries grants))"

definition get_grant :: "bytes \<Rightarrow> ((node_id \<times> renewal_id) \<times> bytes) option" where
  "get_grant bs = do {
    (reader, cur) \<leftarrow> get_str bs;
    (epoch, cur) \<leftarrow> get_u64 cur;
    (seq, cur) \<leftarrow> get_u64 cur;
    Some ((NodeId reader, RenewalId epoch seq), cur)
  }"

lemma get_grant_shorter: "get_grant bs = Some (row, rest) \<Longrightarrow> length rest < length bs"
  by (auto simp: get_grant_def bind_eq_Some_conv u64.get_iff str.get_iff)

function decode_grants_loop :: "grant_map \<Rightarrow> bytes \<Rightarrow> grant_map option" where
  "decode_grants_loop out bs = (
    if bs = [] then Some out
    else case get_grant bs of
      None \<Rightarrow> None
    | Some ((reader, i), rest) \<Rightarrow> decode_grants_loop (fmupd reader i out) rest)"
  by pat_completeness auto
termination
  by (relation "measure (length \<circ> snd)") (auto dest: get_grant_shorter)

declare decode_grants_loop.simps [simp del]

definition decode_grants_checked :: "bytes \<Rightarrow> grant_map option" where
  "decode_grants_checked bs = decode_grants_loop fmempty bs"

definition decode_grants :: "bytes \<Rightarrow> grant_map" where
  "decode_grants bs = (case decode_grants_checked bs of Some m \<Rightarrow> m | None \<Rightarrow> fmempty)"


section \<open>Reading back what was written\<close>

definition grant_ok :: "node_id \<times> renewal_id \<Rightarrow> bool" where
  "grant_ok row \<longleftrightarrow> str_ok (as_str (fst row))"

interpretation grant: codec put_grant get_grant grant_ok
proof unfold_locales
  fix bs rest and row :: "node_id \<times> renewal_id"
  obtain reader i where row: "row = (reader, i)" by (cases row)
  have put: "put_grant (reader, i) = put_str (as_str reader) @ put_u64 (rn_epoch i) @ put_u64 (rn_seq i)"
    if "str_ok (as_str reader)"
    using that by (simp add: put_grant_def put_str_def put_len_bytes str_ok_def)
  show "get_grant bs = Some (row, rest) \<longleftrightarrow> grant_ok row \<and> bs = put_grant row @ rest"
    unfolding row using put
    by (cases reader; cases i)
      (auto simp: get_grant_def bind_eq_Some_conv u64.get_iff str.get_iff always_ok_def grant_ok_def)
qed

lemma put_grant_nonempty: "put_grant row \<noteq> []"
proof -
  obtain reader i where "row = (reader, i)" by (cases row)
  then have "length (put_grant row) = length (put_len (length (as_str reader))) + length (as_str reader) + 16"
    by (simp add: put_grant_def)
  then show ?thesis by auto
qed

lemma decode_grants_loop_row:
  "grant_ok (reader, i) \<Longrightarrow>
    decode_grants_loop out (put_grant (reader, i) @ rest) = decode_grants_loop (fmupd reader i out) rest"
  by (subst decode_grants_loop.simps) (simp add: put_grant_nonempty grant.get_put)

lemma get_grant_truncated:
  assumes "grant_ok row" "n < length (put_grant row)"
  shows "get_grant (take n (put_grant row)) = None"
proof (rule ccontr)
  assume "get_grant (take n (put_grant row)) \<noteq> None"
  then obtain row' rest where "get_grant (take n (put_grant row)) = Some (row', rest)" by auto
  then have ok': "grant_ok row'" and eq: "take n (put_grant row) = put_grant row' @ rest"
    by (auto simp: grant.get_iff)
  have "put_grant row @ [] = put_grant row' @ (rest @ drop n (put_grant row))"
    using eq by (metis append.right_neutral append_assoc append_take_drop_id)
  from grant.put_self_delimiting [OF assms(1) ok' this] have "drop n (put_grant row) = []" by blast
  with assms(2) show False by (metis drop_eq_Nil2 linorder_not_le)
qed

text \<open>
  A truncated encoding reads as an initial part of the rows, when the cut is between two rows, and as
  nothing otherwise.
\<close>

lemma decode_grants_loop_take:
  assumes "\<forall>row \<in> set rows. grant_ok row"
  shows "decode_grants_loop out (take n (concat (map put_grant rows))) = None \<or>
    (\<exists>k. decode_grants_loop out (take n (concat (map put_grant rows))) =
      Some (fold (\<lambda>(reader, i). fmupd reader i) (take k rows) out))"
  using assms
proof (induction rows arbitrary: out n)
  case Nil
  show ?case by (simp add: decode_grants_loop.simps)
next
  case (Cons row rows)
  obtain reader i where row: "row = (reader, i)" by (cases row)
  show ?case
  proof (cases "length (put_grant row) \<le> n")
    case True
    have "take n (concat (map put_grant (row # rows))) =
        put_grant (reader, i) @ take (n - length (put_grant row)) (concat (map put_grant rows))"
      using True row by simp
    moreover have "\<exists>k'. fold (\<lambda>(reader, i). fmupd reader i) (take k rows) (fmupd reader i out) =
        fold (\<lambda>(reader, i). fmupd reader i) (take k' (row # rows)) out" for k
      by (rule exI [of _ "Suc k"]) (simp add: row)
    ultimately show ?thesis
      using Cons.IH [of "fmupd reader i out" "n - length (put_grant row)"] Cons.prems
      by (simp add: decode_grants_loop_row row) metis
  next
    case False
    then have "take n (concat (map put_grant (row # rows))) = take n (put_grant row)" by simp
    moreover have "fold (\<lambda>(reader, i). fmupd reader i) (take 0 (row # rows)) out = out" by simp
    ultimately show ?thesis
      using get_grant_truncated [of row n] Cons.prems False
      by (subst (1 2) decode_grants_loop.simps) (auto intro!: exI [of _ 0])
  qed
qed

lemma decode_grants_loop_all:
  "\<forall>row \<in> set rows. grant_ok row \<Longrightarrow>
    decode_grants_loop out (concat (map put_grant rows)) = Some (fold (\<lambda>(reader, i). fmupd reader i) rows out)"
proof (induction rows arbitrary: out)
  case Nil
  show ?case by (simp add: decode_grants_loop.simps)
next
  case (Cons row rows)
  then show ?case by (cases row) (simp add: decode_grants_loop_row)
qed

lemma fold_fmupd_lookup:
  "distinct (map fst rows) \<Longrightarrow>
    fmlookup (fold (\<lambda>(k, v). fmupd k v) rows out) x =
      (case map_of rows x of Some v \<Rightarrow> Some v | None \<Rightarrow> fmlookup out x)"
proof (induction rows arbitrary: out)
  case (Cons row rows)
  obtain k v where row: "row = (k, v)" by (cases row)
  have "map_of rows k = None" using Cons.prems row by (simp add: map_of_eq_None_iff)
  then show ?case using Cons row by (auto split: option.split)
qed simp

lemma map_of_fentries: "map_of (fentries m) x = fmlookup m x"
proof (cases "fmlookup m x")
  case None
  then have "x \<notin> fst ` set (fentries m)" by (auto simp: in_fentries_iff)
  with None show ?thesis by (simp add: map_of_eq_None_iff)
next
  case (Some v)
  then show ?thesis by (simp add: in_fentries_iff)
qed

lemma fold_fentries: "fold (\<lambda>(k, v). fmupd k v) (fentries m) fmempty = m"
  by (rule fmap_ext) (simp add: fold_fmupd_lookup map_of_fentries split: option.split)

lemma grants_ok:
  assumes "\<forall>reader \<in> fset (fmdom grants). str_ok (as_str reader)"
  shows "\<forall>row \<in> set (fentries grants). grant_ok row"
  using assms fmdomI [of grants] by (fastforce simp: grant_ok_def in_fentries_iff)

lemma decode_encode_grants:
  assumes "\<forall>reader \<in> fset (fmdom grants). str_ok (as_str reader)"
  shows "decode_grants_checked (encode_grants grants) = Some grants"
  using decode_grants_loop_all [OF grants_ok [OF assms]]
  by (simp add: decode_grants_checked_def encode_grants_def fold_fentries)

lemma take_fentries_subset: "fold (\<lambda>(k, v). fmupd k v) (take n (fentries grants)) fmempty \<subseteq>\<^sub>f grants"
proof -
  have "distinct (map fst (take n (fentries grants)))"
    by (metis distinct_keys_list distinct_take map_fst_fentries take_map)
  then have "fmlookup (fold (\<lambda>(k, v). fmupd k v) (take n (fentries grants)) fmempty) x =
      map_of (take n (fentries grants)) x" for x
    by (simp add: fold_fmupd_lookup split: option.split)
  moreover have "fmlookup grants x = Some v" if "map_of (take n (fentries grants)) x = Some v" for x v
    using map_of_SomeD [OF that] by (auto dest: in_set_takeD simp: in_fentries_iff)
  ultimately show ?thesis by (auto simp: fmsubset_alt_def fmpred_iff)
qed

text \<open>The reader names of an accepted map are strings that can be written.\<close>

lemma decode_grants_loop_names:
  assumes "decode_grants_loop out bs = Some m" "\<forall>reader \<in> fset (fmdom out). str_ok (as_str reader)"
  shows "\<forall>reader \<in> fset (fmdom m). str_ok (as_str reader)"
  using assms
proof (induction out bs rule: decode_grants_loop.induct)
  case (1 out bs)
  show ?case
  proof (cases "bs = []")
    case True
    with 1 show ?thesis by (simp add: decode_grants_loop.simps)
  next
    case False
    then obtain reader i rest where row: "get_grant bs = Some ((reader, i), rest)"
      and loop: "decode_grants_loop (fmupd reader i out) rest = Some m"
      using "1.prems"(1) by (subst (asm) decode_grants_loop.simps) (auto split: option.splits)
    have "grant_ok (reader, i)" using row by (simp add: grant.get_iff)
    then show ?thesis
      using "1.prems"(2) by (intro "1.IH" [OF False row refl refl loop]) (simp add: grant_ok_def)
  qed
qed

lemma decode_grants_names:
  "decode_grants_checked bs = Some m \<Longrightarrow> \<forall>reader \<in> fset (fmdom m). str_ok (as_str reader)"
  using decode_grants_loop_names [of fmempty bs m] by (simp add: decode_grants_checked_def)



section \<open>Configuration\<close>

record lease_config =
  lc_duration :: nat
  lc_renew_every :: nat
  lc_rate_margin :: nat

datatype lease_config_error =
    DurationTooShort nat
  | RenewEveryTooShort nat
  | RenewEveryTooLong nat nat
  | RateMarginTooLarge nat nat

definition as_millis :: "nat \<Rightarrow> nat" where
  "as_millis d = d div 1000000"

definition clamp_ms :: "nat \<Rightarrow> u64" where
  "clamp_ms d = (if as_millis d < 2 ^ 64 then of_nat (as_millis d) else u64_max)"

definition lease_for_duration :: "nat \<Rightarrow> lease_config" where
  "lease_for_duration d = \<lparr>lc_duration = d, lc_renew_every = d div 3,
    lc_rate_margin = max (d div 100) (5 * 1000000)\<rparr>"

definition lease_config_default :: lease_config where
  "lease_config_default = lease_for_duration (2 * 1000000000)"

definition lease_validate :: "lease_config \<Rightarrow> lease_config_error option" where
  "lease_validate c = (
    if as_millis (lc_duration c) = 0 then Some (DurationTooShort (lc_duration c))
    else if as_millis (lc_renew_every c) = 0 then Some (RenewEveryTooShort (lc_renew_every c))
    else if lc_renew_every c > lc_duration c div 2
    then Some (RenewEveryTooLong (lc_renew_every c) (lc_duration c div 2))
    else if lc_rate_margin c \<ge> lc_duration c
    then Some (RateMarginTooLarge (lc_rate_margin c) (lc_duration c))
    else None)"

abbreviation duration_ms :: "lease_config \<Rightarrow> u64" where
  "duration_ms c \<equiv> clamp_ms (lc_duration c)"

abbreviation renew_every_ms :: "lease_config \<Rightarrow> u64" where
  "renew_every_ms c \<equiv> clamp_ms (lc_renew_every c)"

abbreviation rate_margin_ms :: "lease_config \<Rightarrow> u64" where
  "rate_margin_ms c \<equiv> clamp_ms (lc_rate_margin c)"

lemma clamp_ms_pos: "as_millis d \<noteq> 0 \<Longrightarrow> 0 < clamp_ms d"
  by (auto simp: clamp_ms_def word_less_nat_alt unat_of_nat_u64)

lemma lease_validate_pos: "lease_validate c = None \<Longrightarrow> 0 < duration_ms c \<and> 0 < renew_every_ms c"
  by (auto simp: lease_validate_def clamp_ms_pos split: if_splits)


section \<open>Properties\<close>

text \<open>
  C21. A grant map whose reader names are UTF-8 strings shorter than 4 GiB is read back from its
  encoding; whatever prefix of the encoding a reader sees, the map it decodes contains no grant that the
  granter did not make; and every map accepted from arbitrary bytes is read back from its own encoding.
\<close>

theorem grants_decode_sound:
  assumes "\<forall>reader \<in> fset (fmdom grants). str_ok (as_str reader)"
  shows "decode_grants_checked (encode_grants grants) = Some grants \<and>
    decode_grants (take n (encode_grants grants)) \<subseteq>\<^sub>f grants \<and>
    (decode_grants_checked bs = Some accepted \<longrightarrow> decode_grants_checked (encode_grants accepted) = Some accepted)"
proof -
  have "decode_grants (take n (encode_grants grants)) \<subseteq>\<^sub>f grants"
    using decode_grants_loop_take [OF grants_ok [OF assms], of fmempty n] take_fentries_subset [of 0 grants]
      take_fentries_subset [of _ grants]
    by (auto simp: decode_grants_def decode_grants_checked_def encode_grants_def)
  with decode_encode_grants [OF assms] decode_encode_grants [OF decode_grants_names] show ?thesis by blast
qed

theorem grants_decode_sound_witness:
  "decode_grants (take 25 (encode_grants (fmupd (NodeId [65]) (RenewalId 7 1) fmempty)))
      \<subseteq>\<^sub>f fmupd (NodeId [65]) (RenewalId 7 1) fmempty \<and>
    decode_grants_checked (encode_grants (fmupd (NodeId [65]) (RenewalId 7 1) fmempty)) =
      Some (fmupd (NodeId [65]) (RenewalId 7 1) fmempty)"
  using grants_decode_sound [of "fmupd (NodeId [65]) (RenewalId 7 1) fmempty" 25 "[]" fmempty]
  by (simp add: str_ok_def len_ok_def)

end
