(* ===== verification/Lease_Core.thy ===== *)
theory Lease_Core
  imports Lease_Wire
begin

text \<open>
  The reader's half of the coherence-lease tier (\<open>crates/groupnet-consistency/src/lease/core.rs\<close>): what a
  node has published, who has confirmed it, and therefore whether it may serve cached state.  Instants
  are 64-bit millisecond counts on the node's own clock, with the saturating arithmetic of \<open>ClockMs\<close>.
\<close>


section \<open>State\<close>

datatype lease_state = Serving | Lapsed | NeedsResync

record lease_core =
  lc_me :: node_id
  lc_epoch :: u64
  lc_duration_ms :: u64
  lc_margin_ms :: u64
  lc_next_seq :: u64
  lc_published :: "(u64, time) fmap"
  lc_granters :: "(node_id, u64) fmap"
  lc_roster :: "node_id fset"
  lc_lives :: "(node_id, granter_life) fmap"
  lc_caught_up :: bool
  lc_departed :: bool
  lc_lapses :: u64

definition MAX_TRACKED_RENEWALS :: nat where
  "MAX_TRACKED_RENEWALS = 256"

definition clock_since :: "time \<Rightarrow> time \<Rightarrow> u64" where
  "clock_since now earlier = sat_sub now earlier"

definition lease_core_from_validated :: "node_id \<Rightarrow> lease_config \<Rightarrow> u64 \<Rightarrow> lease_core" where
  "lease_core_from_validated me cfg epoch =
    \<lparr>lc_me = me, lc_epoch = epoch, lc_duration_ms = duration_ms cfg, lc_margin_ms = rate_margin_ms cfg,
     lc_next_seq = 1, lc_published = fmempty, lc_granters = fmempty, lc_roster = {||},
     lc_lives = fmempty, lc_caught_up = False, lc_departed = False, lc_lapses = 0\<rparr>"

definition lease_core_new :: "node_id \<Rightarrow> lease_config \<Rightarrow> u64 \<Rightarrow> lease_config_error + lease_core" where
  "lease_core_new me cfg epoch = (case lease_validate cfg of
      Some e \<Rightarrow> Inl e | None \<Rightarrow> Inr (lease_core_from_validated me cfg epoch))"


section \<open>Renewing\<close>

text \<open>The loop that forgets the oldest publish instants; an empty map ends it.\<close>

function drop_oldest :: "(u64, time) fmap \<Rightarrow> (u64, time) fmap" where
  "drop_oldest published = (
    if MAX_TRACKED_RENEWALS < fcard (fmdom published) then
      (case fset_first (fmdom published) of
         None \<Rightarrow> published
       | Some oldest \<Rightarrow> drop_oldest (fmdrop oldest published))
    else published)"
  by pat_completeness auto

lemma fset_first_mem: "fset_first S = Some x \<Longrightarrow> x |\<in>| S"
  by (simp add: fset_first_Some_iff)

termination drop_oldest
  by (relation "measure (fcard \<circ> fmdom)")
    (auto dest!: fset_first_mem simp: fcard.rep_eq intro: card_Diff1_less)

declare drop_oldest.simps [simp del]

definition on_renew :: "time \<Rightarrow> lease_core \<Rightarrow> renewal_id \<times> lease_core" where
  "on_renew at c =
    (let seq = lc_next_seq c in
     (RenewalId (lc_epoch c) seq,
      c\<lparr>lc_next_seq := sat_add (lc_next_seq c) 1,
        lc_published := drop_oldest (fmupd seq at (lc_published c))\<rparr>))"

definition last_renewal :: "lease_core \<Rightarrow> renewal_id option" where
  "last_renewal c = map_option (RenewalId (lc_epoch c)) (fset_last (fmdom (lc_published c)))"


section \<open>The roster\<close>

definition life_departed :: "lease_core \<Rightarrow> node_id \<Rightarrow> bool" where
  "life_departed c granter \<longleftrightarrow>
    (case fmlookup (lc_lives c) granter of Some life \<Rightarrow> gl_departed life | None \<Rightarrow> False)"

definition set_roster :: "node_id list \<Rightarrow> lease_core \<Rightarrow> lease_core" where
  "set_roster roster c =
    (let advertised = fset_of_list (filter (\<lambda>node. node \<noteq> lc_me c) roster);
         extended = lc_roster c |\<union>| ffilter (\<lambda>node. \<not> life_departed c node) advertised;
         dropped = ffilter (life_departed c) extended;
         kept = extended |-| dropped;
         c' = c\<lparr>lc_roster := kept,
                lc_granters := fmdrop_fset dropped (lc_granters c),
                lc_lives := fmfilter (\<lambda>node. node |\<in>| kept \<or> node |\<in>| advertised) (lc_lives c)\<rparr> in
     if dropped = {||} then c'
     else c'\<lparr>lc_caught_up := False, lc_lapses := lc_lapses c + 1\<rparr>)"

definition pin :: "node_id \<Rightarrow> u64 \<Rightarrow> lease_core \<Rightarrow> lease_core" where
  "pin granter life c = (
    if granter = lc_me c then c
    else case fmlookup (lc_lives c) granter of
      Some known \<Rightarrow>
        if gl_departed known then
          (if gl_epoch known = life then c
           else c\<lparr>lc_lives := fmdrop granter (lc_lives c), lc_roster := finsert granter (lc_roster c)\<rparr>)
        else c\<lparr>lc_roster := finsert granter (lc_roster c)\<rparr>
    | None \<Rightarrow> c\<lparr>lc_roster := finsert granter (lc_roster c)\<rparr>)"


section \<open>Confirmations\<close>

definition observe_grant_map :: "node_id \<Rightarrow> grant_map \<Rightarrow> lease_core \<Rightarrow> lease_core" where
  "observe_grant_map granter grants c =
    c\<lparr>lc_granters := (case fmlookup grants (lc_me c) of
          Some i \<Rightarrow> if rn_epoch i = lc_epoch c then fmupd granter (rn_seq i) (lc_granters c)
                    else fmdrop granter (lc_granters c)
        | None \<Rightarrow> fmdrop granter (lc_granters c)),
      lc_lives := (case life_of granter grants of
          Some life \<Rightarrow> fmupd granter life (lc_lives c)
        | None \<Rightarrow> fmdrop granter (lc_lives c))\<rparr>"

definition forget_granter :: "node_id \<Rightarrow> lease_core \<Rightarrow> lease_core" where
  "forget_granter granter c = c\<lparr>lc_granters := fmdrop granter (lc_granters c)\<rparr>"

definition confirmed_by :: "lease_core \<Rightarrow> node_id \<Rightarrow> renewal_id option" where
  "confirmed_by c granter = map_option (RenewalId (lc_epoch c)) (fmlookup (lc_granters c) granter)"

fun min_confirmed :: "(node_id, u64) fmap \<Rightarrow> node_id list \<Rightarrow> u64 \<Rightarrow> u64 option" where
  "min_confirmed granters [] confirmed = Some confirmed"
| "min_confirmed granters (g # gs) confirmed = do {
     seq \<leftarrow> fmlookup granters g;
     min_confirmed granters gs (min confirmed seq)
   }"

definition confirmed_seq :: "lease_core \<Rightarrow> u64 option" where
  "confirmed_seq c = do {
     newest \<leftarrow> fset_last (fmdom (lc_published c));
     min_confirmed (lc_granters c) (fset_list (lc_roster c)) newest
   }"

definition confirmed :: "lease_core \<Rightarrow> renewal_id option" where
  "confirmed c = map_option (RenewalId (lc_epoch c)) (confirmed_seq c)"


section \<open>Serving\<close>

definition serve_until :: "lease_core \<Rightarrow> time option" where
  "serve_until c = do {
     seq \<leftarrow> confirmed_seq c;
     published_at \<leftarrow> fmlookup (lc_published c) seq;
     Some (sat_sub (sat_add published_at (lc_duration_ms c)) (lc_margin_ms c))
   }"

definition live_at :: "lease_core \<Rightarrow> time \<Rightarrow> bool" where
  "live_at c now \<longleftrightarrow> (case serve_until c of Some until \<Rightarrow> now < until | None \<Rightarrow> False)"

definition lease_peek :: "lease_core \<Rightarrow> time \<Rightarrow> lease_state" where
  "lease_peek c now = (
    if \<not> lc_caught_up c \<or> lc_departed c then NeedsResync
    else if live_at c now then Serving
    else Lapsed)"

definition lease_poll :: "time \<Rightarrow> lease_core \<Rightarrow> lease_state \<times> lease_core" where
  "lease_poll now c =
    (let state = lease_peek c now in
     (state, if state = Lapsed then c\<lparr>lc_caught_up := False, lc_lapses := lc_lapses c + 1\<rparr> else c))"

definition lease_valid :: "time \<Rightarrow> lease_core \<Rightarrow> bool \<times> lease_core" where
  "lease_valid now c = (let (state, c') = lease_poll now c in (state = Serving, c'))"

definition mark_caught_up :: "time \<Rightarrow> lease_core \<Rightarrow> bool \<times> lease_core" where
  "mark_caught_up now c =
    (let live = \<not> lc_departed c \<and> live_at c now in
     (live, if live then c\<lparr>lc_caught_up := True\<rparr> else c))"

definition require_resync :: "lease_core \<Rightarrow> lease_core" where
  "require_resync c = c\<lparr>lc_caught_up := False\<rparr>"

definition lease_depart :: "lease_core \<Rightarrow> lease_core" where
  "lease_depart c = c\<lparr>lc_departed := True, lc_caught_up := False\<rparr>"


section \<open>Who has confirmed\<close>

lemma min_confirmed_le:
  "min_confirmed granters gs m = Some seq \<Longrightarrow>
    seq \<le> m \<and> (\<forall>g \<in> set gs. \<exists>s. fmlookup granters g = Some s \<and> seq \<le> s)"
proof (induction granters gs m rule: min_confirmed.induct)
  case (2 granters g gs m)
  then obtain s where s: "fmlookup granters g = Some s" "min_confirmed granters gs (min m s) = Some seq"
    by (auto simp: bind_eq_Some_conv)
  with 2 show ?case by fastforce
qed simp

lemma confirmed_seq_le:
  assumes "confirmed_seq c = Some seq" "g |\<in>| lc_roster c"
  obtains s where "fmlookup (lc_granters c) g = Some s" "seq \<le> s"
  using assms min_confirmed_le [of "lc_granters c" "fset_list (lc_roster c)" _ seq]
  by (fastforce simp: confirmed_seq_def bind_eq_Some_conv)

lemma serving_iff:
  "lease_peek c now = Serving \<longleftrightarrow> lc_caught_up c \<and> \<not> lc_departed c \<and>
    (\<exists>seq at. confirmed_seq c = Some seq \<and> fmlookup (lc_published c) seq = Some at \<and>
      now < sat_sub (sat_add at (lc_duration_ms c)) (lc_margin_ms c))"
  by (auto simp: lease_peek_def live_at_def serve_until_def bind_eq_Some_conv split: option.splits bind_splits)


section \<open>Runs\<close>

datatype lease_op = OpRenew time | OpRoster "node_id list" | OpPin node_id u64 | OpObserve node_id grant_map
  | OpForget node_id | OpPoll time | OpCaughtUp time | OpResync | OpDepart

fun lease_step :: "lease_op \<Rightarrow> lease_core \<Rightarrow> lease_core" where
  "lease_step (OpRenew at) c = snd (on_renew at c)"
| "lease_step (OpRoster roster) c = set_roster roster c"
| "lease_step (OpPin granter life) c = pin granter life c"
| "lease_step (OpObserve granter grants) c = observe_grant_map granter grants c"
| "lease_step (OpForget granter) c = forget_granter granter c"
| "lease_step (OpPoll now) c = snd (lease_poll now c)"
| "lease_step (OpCaughtUp now) c = snd (mark_caught_up now c)"
| "lease_step OpResync c = require_resync c"
| "lease_step OpDepart c = lease_depart c"

lemmas lease_op_defs = on_renew_def set_roster_def pin_def observe_grant_map_def forget_granter_def
  lease_poll_def mark_caught_up_def require_resync_def lease_depart_def Let_def

lemma lease_step_identity [simp]:
  "lc_me (lease_step op c) = lc_me c" "lc_epoch (lease_step op c) = lc_epoch c"
  "lc_duration_ms (lease_step op c) = lc_duration_ms c" "lc_margin_ms (lease_step op c) = lc_margin_ms c"
  by (cases op; simp add: lease_op_defs split: option.split)+

lemma lease_step_departed: "lc_departed c \<Longrightarrow> lc_departed (lease_step op c)"
  by (cases op; simp add: lease_op_defs split: option.split)

lemma lease_step_not_caught_up:
  "\<not> lc_caught_up c \<Longrightarrow> (\<And>now. op \<noteq> OpCaughtUp now) \<Longrightarrow> \<not> lc_caught_up (lease_step op c)"
  by (cases op; auto simp: lease_op_defs split: option.split)

lemma lease_run_departed: "lc_departed c \<Longrightarrow> lc_departed (fold lease_step ops c)"
  by (induction ops arbitrary: c) (auto simp: lease_step_departed)

lemma lease_run_not_caught_up:
  "\<not> lc_caught_up c \<Longrightarrow> (\<And>now. OpCaughtUp now \<notin> set ops) \<Longrightarrow> \<not> lc_caught_up (fold lease_step ops c)"
proof (induction ops arbitrary: c)
  case (Cons op ops)
  have "\<not> lc_caught_up (lease_step op c)"
    using Cons.prems by (intro lease_step_not_caught_up) auto
  with Cons show ?case by simp
qed simp


section \<open>Properties\<close>

text \<open>
  C20. A reader serves only while it is caught up, has not departed, and every granter of its roster
  has confirmed a renewal at least as new as one whose publish instant plus the lease duration minus
  the margin is still ahead.
\<close>

theorem serving_needs_every_granter:
  assumes "lease_peek c now = Serving"
  shows "lc_caught_up c \<and> \<not> lc_departed c \<and>
    (\<exists>seq at. fmlookup (lc_published c) seq = Some at \<and>
      (\<forall>g. g |\<in>| lc_roster c \<longrightarrow> (\<exists>s. fmlookup (lc_granters c) g = Some s \<and> seq \<le> s)) \<and>
      now < sat_sub (sat_add at (lc_duration_ms c)) (lc_margin_ms c))"
  using assms confirmed_seq_le [of c] unfolding serving_iff by metis

definition sample_core :: lease_core where
  "sample_core = (lease_core_from_validated (NodeId []) lease_config_default 7)
    \<lparr>lc_published := fmupd 1 100 fmempty, lc_caught_up := True\<rparr>"

lemma sample_core_confirmed: "confirmed_seq sample_core = Some 1"
proof -
  have "fset_last {|1 :: u64|} = Some 1" by (simp add: fset_last_Some_iff)
  then show ?thesis
    by (simp add: confirmed_seq_def sample_core_def lease_core_from_validated_def)
qed

lemma sample_core_parts:
  "lc_published sample_core = fmupd 1 100 fmempty" "lc_caught_up sample_core" "\<not> lc_departed sample_core"
  "lc_duration_ms sample_core = 2000" "lc_margin_ms sample_core = 20"
  by (simp_all add: sample_core_def lease_core_from_validated_def lease_config_default_def
      lease_for_duration_def clamp_ms_def as_millis_def)

theorem serving_needs_every_granter_witness:
  "lease_peek sample_core 2079 = Serving \<and>
    (\<exists>seq at. fmlookup (lc_published sample_core) seq = Some at \<and>
      2079 < sat_sub (sat_add at (lc_duration_ms sample_core)) (lc_margin_ms sample_core))"
proof -
  have "lease_peek sample_core 2079 = Serving"
    by (simp add: serving_iff sample_core_confirmed sample_core_parts sat_add_def sat_sub_def)
  with serving_needs_every_granter [OF this] show ?thesis by blast
qed

text \<open>
  C19. A lapse latches: once a poll has reported it, no sequence of renewals, roster changes, grants
  or polls makes the reader serve again until its consumer affirms that it has caught up; and a
  departed reader does not serve again whatever happens.
\<close>

theorem lapse_latches:
  assumes "lease_poll now c = (Lapsed, c') \<and> (\<forall>t. OpCaughtUp t \<notin> set ops) \<or> lc_departed c'"
  shows "lease_peek (fold lease_step ops c') later = NeedsResync"
proof -
  have "lc_departed (fold lease_step ops c')" if "lc_departed c'"
    using that by (rule lease_run_departed)
  moreover have "\<not> lc_caught_up c'" if "lease_poll now c = (Lapsed, c')"
    using that by (auto simp: lease_poll_def Let_def)
  ultimately show ?thesis
    using assms lease_run_not_caught_up [of c' ops] by (auto simp: lease_peek_def)
qed

theorem lapse_latches_witness:
  "lease_poll 2080 sample_core = (Lapsed, sample_core\<lparr>lc_caught_up := False, lc_lapses := 1\<rparr>) \<and>
    lease_peek (fold lease_step [OpRenew 2080] (sample_core\<lparr>lc_caught_up := False, lc_lapses := 1\<rparr>)) 2081
      = NeedsResync"
proof -
  have "lease_peek sample_core 2080 = Lapsed"
    by (simp add: lease_peek_def live_at_def serve_until_def sample_core_confirmed sample_core_parts
        sat_add_def sat_sub_def)
  then have poll: "lease_poll 2080 sample_core =
      (Lapsed, sample_core\<lparr>lc_caught_up := False, lc_lapses := 1\<rparr>)"
    by (simp add: lease_poll_def sample_core_def lease_core_from_validated_def)
  moreover have "\<forall>t. OpCaughtUp t \<notin> set [OpRenew 2080]" by simp
  ultimately show ?thesis
    using lapse_latches [of 2080 sample_core "sample_core\<lparr>lc_caught_up := False, lc_lapses := 1\<rparr>" "[OpRenew 2080]" 2081]
    by blast
qed

end
