(* ===== verification/Grant_Ledger.thy ===== *)
theory Grant_Ledger
  imports Lease_Wire
begin

text \<open>
  The granter's half of the coherence-lease tier (\<open>crates/groupnet-consistency/src/lease/grants.rs\<close>): what
  a node has granted each reader, the cap its coherent writes put on those grants, and from when a
  reader that never acknowledges a write is excused.
\<close>


section \<open>State\<close>

record reader_record =
  rr_seen :: "(renewal_id \<times> time) option"
  rr_granted :: "(renewal_id \<times> time) option"
  rr_counts_me :: "u64 option"
  rr_departed :: "u64 option"

definition reader_default :: reader_record where
  "reader_default = \<lparr>rr_seen = None, rr_granted = None, rr_counts_me = None, rr_departed = None\<rparr>"

record grant_ledger =
  gd_me :: node_id
  gd_duration_ms :: u64
  gd_life :: u64
  gd_born :: time
  gd_departed :: bool
  gd_readers :: "(node_id, reader_record) fmap"
  gd_inflight :: "(node_id \<times> write_token, time) fmap"
  gd_ended :: "(node_id, write_token) fmap"

definition ledger_from_validated :: "node_id \<Rightarrow> lease_config \<Rightarrow> u64 \<Rightarrow> time \<Rightarrow> grant_ledger" where
  "ledger_from_validated me cfg life now =
    \<lparr>gd_me = me, gd_duration_ms = duration_ms cfg, gd_life = life, gd_born = now, gd_departed = False,
     gd_readers = fmempty, gd_inflight = fmempty, gd_ended = fmempty\<rparr>"

definition ledger_new ::
    "node_id \<Rightarrow> lease_config \<Rightarrow> u64 \<Rightarrow> time \<Rightarrow> lease_config_error + grant_ledger" where
  "ledger_new me cfg life now = (case lease_validate cfg of
      Some e \<Rightarrow> Inl e | None \<Rightarrow> Inr (ledger_from_validated me cfg life now))"

definition ledger_life :: "grant_ledger \<Rightarrow> granter_life" where
  "ledger_life l = \<lparr>gl_epoch = gd_life l, gl_departed = gd_departed l\<rparr>"

definition ledger_depart :: "grant_ledger \<Rightarrow> grant_ledger" where
  "ledger_depart l = l\<lparr>gd_departed := True\<rparr>"

definition reader_of :: "grant_ledger \<Rightarrow> node_id \<Rightarrow> reader_record" where
  "reader_of l reader = (case fmlookup (gd_readers l) reader of Some r \<Rightarrow> r | None \<Rightarrow> reader_default)"


section \<open>Coherent writes\<close>

definition ledger_begin :: "node_id \<Rightarrow> write_token \<Rightarrow> time \<Rightarrow> grant_ledger \<Rightarrow> grant_ledger" where
  "ledger_begin writer token now l = (
    case fmlookup (gd_inflight l) (writer, token) of
      Some _ \<Rightarrow> l
    | None \<Rightarrow> l\<lparr>gd_inflight := fmupd (writer, token) now (gd_inflight l)\<rparr>)"

definition ledger_end :: "node_id \<Rightarrow> write_token \<Rightarrow> grant_ledger \<Rightarrow> grant_ledger" where
  "ledger_end writer token l =
    l\<lparr>gd_inflight := fmdrop (writer, token) (gd_inflight l),
      gd_ended := fmupd writer
        (case fmlookup (gd_ended l) writer of Some newest \<Rightarrow> max newest token | None \<Rightarrow> token)
        (gd_ended l)\<rparr>"


section \<open>Granting\<close>

definition behind :: "write_token option \<Rightarrow> write_token \<Rightarrow> bool" where
  "behind done token \<longleftrightarrow> (case done of None \<Rightarrow> True | Some d \<Rightarrow> d < token)"

text \<open>
  \<open>applied reader writer\<close> is how far a reader advertises having applied a writer's feed.  \<open>reader_current\<close>
  says that it is behind no ended write, \<open>grant_cap\<close> is when the oldest write in flight that it is
  behind began.
\<close>

type_synonym applied_view = "node_id \<Rightarrow> node_id \<Rightarrow> write_token option"

definition reader_current :: "applied_view \<Rightarrow> grant_ledger \<Rightarrow> node_id \<Rightarrow> bool" where
  "reader_current applied l reader \<longleftrightarrow>
    list_all (\<lambda>(writer, token). \<not> behind (applied reader writer) token) (fentries (gd_ended l))"

definition grant_cap :: "applied_view \<Rightarrow> grant_ledger \<Rightarrow> node_id \<Rightarrow> time option" where
  "grant_cap applied l reader =
    (let begans = map snd (filter (\<lambda>((writer, token), _). behind (applied reader writer) token)
       (fentries (gd_inflight l))) in
     if begans = [] then None else Some (Min (set begans)))"

definition first_seen :: "time \<Rightarrow> renewal_id \<Rightarrow> reader_record \<Rightarrow> time \<times> reader_record" where
  "first_seen now i record = (case rr_seen record of
      Some (seen, at) \<Rightarrow>
        if seen = i then (at, record)
        else if i < seen then (now, record)
        else (now, record\<lparr>rr_seen := Some (i, now)\<rparr>)
    | None \<Rightarrow> (now, record\<lparr>rr_seen := Some (i, now)\<rparr>))"

definition fold_reader ::
    "time \<Rightarrow> applied_view \<Rightarrow> node_id \<times> renewal_id \<Rightarrow> grant_ledger \<times> grant_map \<Rightarrow> grant_ledger \<times> grant_map" where
  "fold_reader now applied v st = (case (v, st) of ((reader, i), (l, grants)) \<Rightarrow>
    if reader = gd_me l then (l, grants)
    else
      (let (seen_at, record) = first_seen now i (reader_of l reader);
           open = reader_current applied l reader \<and>
             (case grant_cap applied l reader of None \<Rightarrow> True | Some began \<Rightarrow> seen_at \<le> began);
           record' = (if open \<and> (case rr_granted record of None \<Rightarrow> True | Some (g, _) \<Rightarrow> g < i)
             then record\<lparr>rr_granted := Some (i, seen_at)\<rparr> else record);
           grants' = (if open then fmupd reader i grants
             else case rr_granted record of
               Some (g, _) \<Rightarrow> if rn_epoch g = rn_epoch i \<and> g \<le> i then fmupd reader g grants else grants
             | None \<Rightarrow> grants) in
       (l\<lparr>gd_readers := fmupd reader record' (gd_readers l)\<rparr>, grants')))"

definition ledger_fold ::
    "time \<Rightarrow> (node_id \<times> renewal_id) list \<Rightarrow> applied_view \<Rightarrow> grant_ledger \<Rightarrow> grant_map \<times> grant_ledger" where
  "ledger_fold now visible applied l =
    (let (l', grants) = fold (fold_reader now applied) visible (l, fmempty) in
     (life_stamp (ledger_life l') (gd_me l') grants, l'))"


section \<open>Excusing\<close>

definition observe_reader_map :: "node_id \<Rightarrow> grant_map \<Rightarrow> grant_ledger \<Rightarrow> grant_ledger" where
  "observe_reader_map reader m l = (case life_of reader m of
      None \<Rightarrow> l
    | Some life \<Rightarrow>
        (let record = reader_of l reader;
             record = (if gl_departed life then record\<lparr>rr_departed := Some (gl_epoch life)\<rparr> else record);
             counts = (case fmlookup m (gd_me l) of Some i \<Rightarrow> rn_epoch i = gd_life l | None \<Rightarrow> False);
             record = (if counts then record\<lparr>rr_counts_me := Some (gl_epoch life)\<rparr>
               else if (case rr_counts_me record of Some counted \<Rightarrow> counted < gl_epoch life | None \<Rightarrow> False)
               then record\<lparr>rr_counts_me := None\<rparr> else record) in
         l\<lparr>gd_readers := fmupd reader record (gd_readers l)\<rparr>))"

definition excusable_at :: "grant_ledger \<Rightarrow> node_id \<Rightarrow> time option" where
  "excusable_at l reader = (
    if gd_departed l then None
    else do {
      record \<leftarrow> fmlookup (gd_readers l) reader;
      (seen, _) \<leftarrow> rr_seen record;
      if rr_departed record = Some (rn_epoch seen) then Some 0
      else if rr_counts_me record \<noteq> Some (rn_epoch seen) then None
      else Some (sat_add (case rr_granted record of
          Some (g, at) \<Rightarrow> if rn_epoch g = rn_epoch seen then max at (gd_born l) else gd_born l
        | None \<Rightarrow> gd_born l) (gd_duration_ms l))
    })"

definition open_grants :: "grant_ledger \<Rightarrow> time \<Rightarrow> node_id list" where
  "open_grants l now = map fst (filter (\<lambda>(_, record). case rr_granted record of
      Some (_, at) \<Rightarrow> now < sat_add at (gd_duration_ms l) | None \<Rightarrow> False) (fentries (gd_readers l)))"


section \<open>What a fold grants\<close>

text \<open>
  The effect of one fold on one reader: nothing if it is not visible; otherwise its record is moved by
  \<open>fold_record\<close> for each of its renewals, and the map carries the grant of the last one.
\<close>

lemma fold_reader_fields [simp]:
  "gd_me (fst (fold_reader now applied v (l, g))) = gd_me l"
  "gd_duration_ms (fst (fold_reader now applied v (l, g))) = gd_duration_ms l"
  "gd_life (fst (fold_reader now applied v (l, g))) = gd_life l"
  "gd_born (fst (fold_reader now applied v (l, g))) = gd_born l"
  "gd_departed (fst (fold_reader now applied v (l, g))) = gd_departed l"
  "gd_inflight (fst (fold_reader now applied v (l, g))) = gd_inflight l"
  "gd_ended (fst (fold_reader now applied v (l, g))) = gd_ended l"
  by (simp_all add: fold_reader_def Let_def split: prod.split)

lemma fold_reader_other:
  assumes "reader \<noteq> fst v"
  shows "fmlookup (gd_readers (fst (fold_reader now applied v (l, g)))) reader = fmlookup (gd_readers l) reader"
    and "fmlookup (snd (fold_reader now applied v (l, g))) reader = fmlookup g reader"
  using assms by (auto simp: fold_reader_def Let_def split: prod.split option.split)

end
