(* ===== verification/Coherence_Core.thy ===== *)
theory Coherence_Core
  imports Lease_Wire
begin

text \<open>
  The writer's half of the coherence-lease tier (\<open>crates/groupnet-consistency/src/lease/coherence.rs\<close>): how
  far one coherent write has got through the set of readers that may be serving.
\<close>


section \<open>State and steps\<close>

record wait_member =
  wm_member :: node_id
  wm_applied :: "write_token option"
  wm_excusable_at :: "time option"

datatype wait_verdict =
    AllApplied
  | LeaseLapsed "node_id list"
  | Waiting "node_id list"

record progress =
  pg_waiting :: "(node_id, time option) fmap"
  pg_lapsed :: "node_id fset"

definition progress_default :: progress where
  "progress_default = \<lparr>pg_waiting = fmempty, pg_lapsed = {||}\<rparr>"

record coherence_core =
  cc_writer :: node_id
  cc_inflight :: "(write_token, progress) fmap"

definition coherence_new :: "node_id \<Rightarrow> coherence_core" where
  "coherence_new writer = \<lparr>cc_writer = writer, cc_inflight = fmempty\<rparr>"

definition in_flight :: "coherence_core \<Rightarrow> nat" where
  "in_flight c = fcard (fmdom (cc_inflight c))"

definition member_applied :: "write_token \<Rightarrow> wait_member \<Rightarrow> bool" where
  "member_applied token holder \<longleftrightarrow> (case wm_applied holder of Some a \<Rightarrow> token \<le> a | None \<Rightarrow> False)"

definition note_holder :: "node_id \<Rightarrow> write_token \<Rightarrow> wait_member \<Rightarrow> progress \<Rightarrow> progress" where
  "note_holder writer token holder p = (
    if wm_member holder = writer \<or> wm_member holder |\<in>| pg_lapsed p then p
    else if member_applied token holder then p\<lparr>pg_waiting := fmdrop (wm_member holder) (pg_waiting p)\<rparr>
    else p\<lparr>pg_waiting := fmupd (wm_member holder) (wm_excusable_at holder) (pg_waiting p)\<rparr>)"

definition excuse_due :: "time \<Rightarrow> time option \<Rightarrow> bool" where
  "excuse_due now excuse \<longleftrightarrow> (case excuse of Some at \<Rightarrow> at \<le> now | None \<Rightarrow> False)"

definition excuse_all :: "time \<Rightarrow> progress \<Rightarrow> progress" where
  "excuse_all now p =
    (let excused = fset_of_list (map fst (filter (\<lambda>(_, excuse). excuse_due now excuse)
       (fentries (pg_waiting p)))) in
     \<lparr>pg_waiting = fmdrop_fset excused (pg_waiting p), pg_lapsed = pg_lapsed p |\<union>| excused\<rparr>)"

definition coherence_step ::
    "write_token \<Rightarrow> time \<Rightarrow> wait_member list \<Rightarrow> coherence_core \<Rightarrow> wait_verdict \<times> coherence_core" where
  "coherence_step token now snapshot c =
    (let p0 = (case fmlookup (cc_inflight c) token of Some p \<Rightarrow> p | None \<Rightarrow> progress_default);
         p = excuse_all now (fold (note_holder (cc_writer c) token) snapshot p0) in
     if pg_waiting p \<noteq> fmempty
     then (Waiting (keys_list (pg_waiting p)), c\<lparr>cc_inflight := fmupd token p (cc_inflight c)\<rparr>)
     else (if pg_lapsed p = {||} then AllApplied else LeaseLapsed (fset_list (pg_lapsed p)),
           c\<lparr>cc_inflight := fmdrop token (cc_inflight c)\<rparr>))"

definition abandon :: "write_token \<Rightarrow> coherence_core \<Rightarrow> node_id list option \<times> coherence_core" where
  "abandon token c = (case fmlookup (cc_inflight c) token of
      None \<Rightarrow> (None, c)
    | Some p \<Rightarrow> (Some (keys_list (pg_waiting p)), c\<lparr>cc_inflight := fmdrop token (cc_inflight c)\<rparr>))"


section \<open>One write's wait\<close>

text \<open>
  A wait polls the core with a snapshot at each instant until the verdict is terminal.  \<open>wait_run\<close> is
  that loop over a list of polls: the verdict and the poll it came at, or nothing when the polls run
  out first.
\<close>

type_synonym poll = "time \<times> wait_member list"

fun wait_run :: "write_token \<Rightarrow> poll list \<Rightarrow> coherence_core \<Rightarrow> wait_verdict option \<times> coherence_core" where
  "wait_run token [] c = (None, c)"
| "wait_run token ((now, snapshot) # polls) c = (
     case coherence_step token now snapshot c of
       (Waiting _, c') \<Rightarrow> wait_run token polls c'
     | (verdict, c') \<Rightarrow> (Some verdict, c'))"

text \<open>
  The contract, one member at a time, on the reports the polls have made of it: it is unacknowledged when
  its newest report does not carry the write, and its lapse is proven when at some poll its newest report
  did not carry the write and named an instant that had come.
\<close>

definition newest_report :: "node_id \<Rightarrow> poll list \<Rightarrow> wait_member option" where
  "newest_report m polls = (let hs = filter (\<lambda>h. wm_member h = m) (concat (map snd polls)) in
     if hs = [] then None else Some (last hs))"

definition unacknowledged :: "write_token \<Rightarrow> node_id \<Rightarrow> poll list \<Rightarrow> bool" where
  "unacknowledged token m polls \<longleftrightarrow>
    (\<exists>h. newest_report m polls = Some h \<and> (\<forall>a. wm_applied h = Some a \<longrightarrow> a < token))"

definition lapse_proven :: "write_token \<Rightarrow> node_id \<Rightarrow> poll list \<Rightarrow> bool" where
  "lapse_proven token m polls \<longleftrightarrow> (\<exists>k < length polls. \<exists>h at.
    newest_report m (take (Suc k) polls) = Some h \<and> (\<forall>a. wm_applied h = Some a \<longrightarrow> a < token) \<and>
    wm_excusable_at h = Some at \<and> at \<le> fst (polls ! k))"

definition expected_verdict :: "node_id \<Rightarrow> write_token \<Rightarrow> poll list \<Rightarrow> wait_verdict" where
  "expected_verdict writer token polls =
    (let lapsed = {m. m \<noteq> writer \<and> lapse_proven token m polls};
         waiting = {m. m \<noteq> writer \<and> unacknowledged token m polls} - lapsed in
     if waiting \<noteq> {} then Waiting (sorted_list_of_set waiting)
     else if lapsed \<noteq> {} then LeaseLapsed (sorted_list_of_set lapsed)
     else AllApplied)"


section \<open>The core keeps every member's status\<close>

text \<open>
  The core tracks the contract incrementally: a member is clear until it is reported without the write,
  pending with the instant of its newest report until it is reported with it, and excused for good once
  that instant has come.
\<close>

datatype wait_status = Clear | Pending "time option" | Excused

definition member_report :: "write_token \<Rightarrow> wait_member \<Rightarrow> wait_status \<Rightarrow> wait_status" where
  "member_report token holder st = (case st of
      Excused \<Rightarrow> Excused
    | _ \<Rightarrow> if member_applied token holder then Clear else Pending (wm_excusable_at holder))"

definition member_poll :: "write_token \<Rightarrow> node_id \<Rightarrow> poll \<Rightarrow> wait_status \<Rightarrow> wait_status" where
  "member_poll token m poll st = (case poll of (now, snapshot) \<Rightarrow>
    (case fold (member_report token) (filter (\<lambda>h. wm_member h = m) snapshot) st of
       Pending excuse \<Rightarrow> if excuse_due now excuse then Excused else Pending excuse
     | st' \<Rightarrow> st'))"

definition member_status :: "write_token \<Rightarrow> node_id \<Rightarrow> poll list \<Rightarrow> wait_status" where
  "member_status token m polls = fold (member_poll token m) polls Clear"


definition status_of :: "progress \<Rightarrow> node_id \<Rightarrow> wait_status" where
  "status_of p m = (
    if m |\<in>| pg_lapsed p then Excused
    else case fmlookup (pg_waiting p) m of Some excuse \<Rightarrow> Pending excuse | None \<Rightarrow> Clear)"

text \<open>An excused member is no longer waited for, and the writer never is.\<close>

definition progress_ok :: "node_id \<Rightarrow> progress \<Rightarrow> bool" where
  "progress_ok writer p \<longleftrightarrow> writer |\<notin>| pg_lapsed p \<and> fmlookup (pg_waiting p) writer = None \<and>
    (\<forall>m. m |\<in>| pg_lapsed p \<longrightarrow> fmlookup (pg_waiting p) m = None)"

lemma note_holder_lookup:
  "fmlookup (pg_waiting (note_holder writer token holder p)) m =
    (if wm_member holder = m \<and> m \<noteq> writer \<and> m |\<notin>| pg_lapsed p
     then if member_applied token holder then None else Some (wm_excusable_at holder)
     else fmlookup (pg_waiting p) m)"
  by (auto simp: note_holder_def)

lemma note_holder_lapsed [simp]: "pg_lapsed (note_holder writer token holder p) = pg_lapsed p"
  by (simp add: note_holder_def)

lemma excused_iff:
  "m |\<in>| fset_of_list (map fst (filter (\<lambda>(_, excuse). excuse_due now excuse) (fentries w))) \<longleftrightarrow>
    (\<exists>excuse. fmlookup w m = Some excuse \<and> excuse_due now excuse)"
  by (force simp: fset_of_list_elem in_fentries_iff)

lemma excuse_all_lookup:
  "fmlookup (pg_waiting (excuse_all now p)) m =
    (case fmlookup (pg_waiting p) m of
       Some excuse \<Rightarrow> if excuse_due now excuse then None else Some excuse | None \<Rightarrow> None)"
  unfolding excuse_all_def Let_def progress.select_convs fmlookup_drop_fset excused_iff
  by (auto split: option.split)

lemma excuse_all_lapsed:
  "m |\<in>| pg_lapsed (excuse_all now p) \<longleftrightarrow> m |\<in>| pg_lapsed p \<or>
    (\<exists>excuse. fmlookup (pg_waiting p) m = Some excuse \<and> excuse_due now excuse)"
  unfolding excuse_all_def Let_def progress.select_convs funion_iff excused_iff ..

lemma note_holder_status:
  "progress_ok writer p \<Longrightarrow> progress_ok writer (note_holder writer token h p)"
  "m \<noteq> writer \<Longrightarrow> status_of (note_holder writer token h p) m =
    (if wm_member h = m then member_report token h (status_of p m) else status_of p m)"
  by (auto simp: progress_ok_def note_holder_lookup status_of_def member_report_def split: option.split)

lemma note_all_status:
  "progress_ok writer p \<Longrightarrow> progress_ok writer (fold (note_holder writer token) hs p)"
  "m \<noteq> writer \<Longrightarrow> status_of (fold (note_holder writer token) hs p) m =
    fold (member_report token) (filter (\<lambda>h. wm_member h = m) hs) (status_of p m)"
  by (induction hs arbitrary: p) (auto simp: note_holder_status)

lemma excuse_all_status:
  "progress_ok writer p \<Longrightarrow> progress_ok writer (excuse_all now p)"
  "status_of (excuse_all now p) m = (case status_of p m of
      Pending excuse \<Rightarrow> if excuse_due now excuse then Excused else Pending excuse | st \<Rightarrow> st)"
  by (auto simp: progress_ok_def excuse_all_lookup excuse_all_lapsed status_of_def split: option.split)

definition poll_progress :: "node_id \<Rightarrow> write_token \<Rightarrow> poll \<Rightarrow> progress \<Rightarrow> progress" where
  "poll_progress writer token poll p = (case poll of (now, snapshot) \<Rightarrow>
     excuse_all now (fold (note_holder writer token) snapshot p))"

lemma poll_progress_status:
  assumes "progress_ok writer p"
  shows "progress_ok writer (poll_progress writer token poll p)"
    and "m \<noteq> writer \<Longrightarrow> status_of (poll_progress writer token poll p) m = member_poll token m poll (status_of p m)"
  using assms
  by (cases poll; simp add: poll_progress_def member_poll_def excuse_all_status note_all_status)+

lemma progress_default_ok:
  "progress_ok writer progress_default" "status_of progress_default m = Clear"
  by (simp_all add: progress_ok_def progress_default_def status_of_def)

lemma fold_poll_status:
  "progress_ok writer p \<Longrightarrow> progress_ok writer (fold (poll_progress writer token) polls p)"
  "progress_ok writer p \<Longrightarrow> m \<noteq> writer \<Longrightarrow>
    status_of (fold (poll_progress writer token) polls p) m = fold (member_poll token m) polls (status_of p m)"
  by (induction polls arbitrary: p) (simp_all add: poll_progress_status)

text \<open>The progress a wait has made, while its verdict is open.\<close>

definition core_progress :: "write_token \<Rightarrow> coherence_core \<Rightarrow> progress" where
  "core_progress token c = (case fmlookup (cc_inflight c) token of Some p \<Rightarrow> p | None \<Rightarrow> progress_default)"

lemma step_progress:
  "coherence_step token now snapshot c =
    (let p = poll_progress (cc_writer c) token (now, snapshot) (core_progress token c) in
     if pg_waiting p \<noteq> fmempty
     then (Waiting (keys_list (pg_waiting p)), c\<lparr>cc_inflight := fmupd token p (cc_inflight c)\<rparr>)
     else (if pg_lapsed p = {||} then AllApplied else LeaseLapsed (fset_list (pg_lapsed p)),
           c\<lparr>cc_inflight := fmdrop token (cc_inflight c)\<rparr>))"
  by (simp add: coherence_step_def core_progress_def poll_progress_def)

lemma step_waiting:
  assumes "coherence_step token now snapshot c = (Waiting on, c')"
  shows "cc_writer c' = cc_writer c" and
    "core_progress token c' = poll_progress (cc_writer c) token (now, snapshot) (core_progress token c)"
  using assms by (auto simp: step_progress Let_def core_progress_def split: if_splits)

lemma wait_run_None:
  "wait_run token polls c = (None, c') \<Longrightarrow> cc_writer c' = cc_writer c \<and>
    core_progress token c' = fold (poll_progress (cc_writer c) token) polls (core_progress token c)"
proof (induction token polls c rule: wait_run.induct)
  case (2 token now snapshot polls c)
  then obtain on c1 where step: "coherence_step token now snapshot c = (Waiting on, c1)"
    and rest: "wait_run token polls c1 = (None, c')"
    by (auto split: prod.splits wait_verdict.splits)
  from "2.IH" [OF step [symmetric] refl rest] step_waiting [OF step] show ?case by simp
qed simp

lemma coherence_new_writer [simp]: "cc_writer (coherence_new writer) = writer"
  by (simp add: coherence_new_def)

lemma core_progress_new: "core_progress token (coherence_new writer) = progress_default"
  by (simp add: core_progress_def coherence_new_def)

section \<open>The status is the contract\<close>

lemma not_applied_iff: "\<not> member_applied token h \<longleftrightarrow> (\<forall>a. wm_applied h = Some a \<longrightarrow> a < token)"
  by (auto simp: member_applied_def not_le split: option.split)

lemma newest_report_snoc:
  "newest_report m (polls @ [(now, snapshot)]) = (let hs = filter (\<lambda>h. wm_member h = m) snapshot in
     if hs = [] then newest_report m polls else Some (last hs))"
  by (simp add: newest_report_def Let_def last_append)

lemma fold_member_report:
  "fold (member_report token) hs st = (if hs = [] \<or> st = Excused then st
    else if member_applied token (last hs) then Clear else Pending (wm_excusable_at (last hs)))"
proof (induction hs arbitrary: st)
  case (Cons h hs)
  have "member_report token h st = Excused \<longleftrightarrow> st = Excused"
    by (auto simp: member_report_def split: wait_status.split)
  then show ?case unfolding fold_simps o_def Cons.IH
    by (auto simp: member_report_def split: wait_status.split)
qed simp

lemma lapse_proven_snoc:
  "lapse_proven token m (polls @ [(now, snapshot)]) \<longleftrightarrow> lapse_proven token m polls \<or>
    (\<exists>h. newest_report m (polls @ [(now, snapshot)]) = Some h \<and> \<not> member_applied token h \<and>
      excuse_due now (wm_excusable_at h))"
proof -
  have "k < Suc (length polls) \<longleftrightarrow> k < length polls \<or> k = length polls" for k by auto
  then show ?thesis
    unfolding lapse_proven_def not_applied_iff
    by (auto simp: nth_append excuse_due_def split: option.splits)
qed

lemma member_status_contract:
  "member_status token m polls = (if lapse_proven token m polls then Excused
    else case newest_report m polls of
      Some h \<Rightarrow> if member_applied token h then Clear else Pending (wm_excusable_at h)
    | None \<Rightarrow> Clear)"
proof (induction polls rule: rev_induct)
  case Nil
  show ?case by (simp add: member_status_def lapse_proven_def newest_report_def)
next
  case (snoc poll polls)
  obtain now snapshot where poll: "poll = (now, snapshot)" by (cases poll)
  define hs where "hs = filter (\<lambda>h. wm_member h = m) snapshot"
  have step: "member_status token m (polls @ [poll]) = (case fold (member_report token) hs (member_status token m polls) of
       Pending excuse \<Rightarrow> if excuse_due now excuse then Excused else Pending excuse | st' \<Rightarrow> st')"
    by (simp add: member_status_def member_poll_def poll hs_def)
  have newest: "newest_report m (polls @ [poll]) = (if hs = [] then newest_report m polls else Some (last hs))"
    by (simp add: poll newest_report_snoc hs_def Let_def)
  show ?case
    unfolding step fold_member_report snoc.IH lapse_proven_snoc [of token m polls now snapshot, folded poll] newest
    by (auto split: option.split)
qed

lemma pending_iff:
  "(\<exists>excuse. member_status token m polls = Pending excuse) \<longleftrightarrow>
    \<not> lapse_proven token m polls \<and> unacknowledged token m polls"
  by (auto simp: member_status_contract unacknowledged_def simp flip: not_applied_iff split: option.split)

lemma excused_iff_lapse: "member_status token m polls = Excused \<longleftrightarrow> lapse_proven token m polls"
  by (auto simp: member_status_contract split: option.split)

lemma step_verdict:
  assumes run: "wait_run token polls (coherence_new writer) = (None, c)"
    and step: "coherence_step token now snapshot c = (verdict, c')"
  shows "verdict = expected_verdict writer token (polls @ [(now, snapshot)])"
proof -
  let ?all = "polls @ [(now, snapshot)]"
  define p where "p = fold (poll_progress writer token) ?all progress_default"
  have c: "cc_writer c = writer" "core_progress token c = fold (poll_progress writer token) polls progress_default"
    using wait_run_None [OF run] by (simp_all add: core_progress_new)
  have ok: "progress_ok writer p" unfolding p_def by (rule fold_poll_status(1)) (rule progress_default_ok)
  have status: "status_of p m = member_status token m ?all" if "m \<noteq> writer" for m
    using fold_poll_status(2) [OF progress_default_ok(1) that, of token ?all]
    by (simp add: member_status_def progress_default_ok p_def)
  have member: "(fmlookup (pg_waiting p) m \<noteq> None \<longleftrightarrow>
        m \<noteq> writer \<and> \<not> lapse_proven token m ?all \<and> unacknowledged token m ?all) \<and>
      (m |\<in>| pg_lapsed p \<longleftrightarrow> m \<noteq> writer \<and> lapse_proven token m ?all)" for m
  proof (cases "m = writer")
    case True
    then show ?thesis using ok by (simp add: progress_ok_def)
  next
    case False
    have "m |\<in>| pg_lapsed p \<Longrightarrow> fmlookup (pg_waiting p) m = None" using ok by (simp add: progress_ok_def)
    then show ?thesis
      unfolding excused_iff_lapse [symmetric] pending_iff [symmetric]
      using False status [OF False, symmetric] pending_iff [of token m ?all] excused_iff_lapse [of token m ?all]
      by (cases "m |\<in>| pg_lapsed p"; cases "fmlookup (pg_waiting p) m") (simp_all add: status_of_def)
  qed
  have waiting: "fset (fmdom (pg_waiting p)) = {m. m \<noteq> writer \<and> unacknowledged token m ?all} -
      {m. m \<noteq> writer \<and> lapse_proven token m ?all}"
    using member by (auto simp: set_eq_iff fmlookup_dom_iff simp flip: not_None_eq)
  have lapsed: "fset (pg_lapsed p) = {m. m \<noteq> writer \<and> lapse_proven token m ?all}"
    using member by (simp add: set_eq_iff)
  have empty: "pg_waiting p = fmempty \<longleftrightarrow> fset (fmdom (pg_waiting p)) = {}"
    by (metis bot_fset.rep_eq fmdom_empty fmrestrict_fset_dom fmrestrict_fset_null fset_inject)
  have "verdict = (if pg_waiting p \<noteq> fmempty then Waiting (keys_list (pg_waiting p))
      else if pg_lapsed p = {||} then AllApplied else LeaseLapsed (fset_list (pg_lapsed p)))"
    using step c by (auto simp: step_progress Let_def p_def split: if_splits)
  moreover have "expected_verdict writer token ?all =
      (if fset (fmdom (pg_waiting p)) \<noteq> {} then Waiting (sorted_list_of_set (fset (fmdom (pg_waiting p))))
       else if fset (pg_lapsed p) \<noteq> {} then LeaseLapsed (sorted_list_of_set (fset (pg_lapsed p))) else AllApplied)"
    by (simp only: expected_verdict_def Let_def waiting lapsed)
  moreover have "pg_lapsed p = {||} \<longleftrightarrow> fset (pg_lapsed p) = {}" by auto
  ultimately show ?thesis
    using empty by (simp add: keys_list_def fset_list_def)
qed

lemma wait_run_append:
  "wait_run token (polls @ polls') c = (case wait_run token polls c of
      (None, c') \<Rightarrow> wait_run token polls' c' | (Some v, c') \<Rightarrow> (Some v, c'))"
  by (induction token polls c rule: wait_run.induct) (auto split: prod.split wait_verdict.split)

lemma wait_run_terminal: "wait_run token polls c = (Some v, c') \<Longrightarrow> v \<noteq> Waiting on"
  by (induction token polls c rule: wait_run.induct) (auto split: prod.splits wait_verdict.splits)


section \<open>Properties\<close>

text \<open>
  C8. The verdict of every poll of a wait is the one the reports call for: the wait goes on exactly for
  the members, other than the writer, whose newest report carries no token as new as the write's and
  whose lapse no poll has proven; with none of those left it has lapsed exactly for the members whose
  lapse some poll has proven, and with none of these it has been applied by all.  Members are named once
  each, in order.
\<close>

theorem coherence_verdict:
  assumes "wait_run token polls (coherence_new writer) = (None, c)"
    and "coherence_step token now snapshot c = (verdict, c')"
  shows "verdict = expected_verdict writer token (polls @ [(now, snapshot)])"
  using assms by (rule step_verdict)

definition sample_member :: "node_id \<Rightarrow> write_token option \<Rightarrow> time option \<Rightarrow> wait_member" where
  "sample_member n applied excuse = \<lparr>wm_member = n, wm_applied = applied, wm_excusable_at = excuse\<rparr>"

lemma sample_member_fields [simp]:
  "wm_member (sample_member n applied excuse) = n" "wm_applied (sample_member n applied excuse) = applied"
  "wm_excusable_at (sample_member n applied excuse) = excuse"
  by (simp_all add: sample_member_def)

text \<open>
  Two readers behind at the first poll; one acknowledges by the second, by which the lapse of the other,
  no longer in view, is proven.
\<close>

abbreviation sample_behind :: "wait_member list" where
  "sample_behind \<equiv> [sample_member (NodeId [1]) (Some (WriteToken 2 4)) None, sample_member (NodeId [2]) None (Some 1500)]"

abbreviation sample_ack :: "wait_member list" where
  "sample_ack \<equiv> [sample_member (NodeId [1]) (Some (WriteToken 2 5)) None]"

lemma sample_reports:
  "newest_report m [(1000, sample_behind)] =
    (if m = NodeId [1] then Some (sample_member (NodeId [1]) (Some (WriteToken 2 4)) None)
     else if m = NodeId [2] then Some (sample_member (NodeId [2]) None (Some 1500)) else None)"
  "newest_report m [(1000, sample_behind), (now, sample_ack)] =
    (if m = NodeId [1] then Some (sample_member (NodeId [1]) (Some (WriteToken 2 5)) None)
     else if m = NodeId [2] then Some (sample_member (NodeId [2]) None (Some 1500)) else None)"
  by (auto simp: newest_report_def Let_def)

lemma sample_expected:
  "expected_verdict (NodeId []) (WriteToken 2 5) [(1000, sample_behind)] = Waiting [NodeId [1], NodeId [2]]"
  "expected_verdict (NodeId []) (WriteToken 2 5) [(1000, sample_behind), (1500, sample_ack)] = LeaseLapsed [NodeId [2]]"
proof -
  have lapse: "lapse_proven (WriteToken 2 5) m [(1000, sample_behind)] \<longleftrightarrow> False"
    "lapse_proven (WriteToken 2 5) m [(1000, sample_behind), (1500, sample_ack)] \<longleftrightarrow> m = NodeId [2]" for m
    using lapse_proven_snoc [of "WriteToken 2 5" m "[]" 1000 sample_behind]
      lapse_proven_snoc [of "WriteToken 2 5" m "[(1000, sample_behind)]" 1500 sample_ack]
    by (auto simp: sample_reports lapse_proven_def [of _ _ "[]"] member_applied_def excuse_due_def)
  have unack: "unacknowledged (WriteToken 2 5) m [(1000, sample_behind)] \<longleftrightarrow> m = NodeId [1] \<or> m = NodeId [2]"
    "unacknowledged (WriteToken 2 5) m [(1000, sample_behind), (1500, sample_ack)] \<longleftrightarrow> m = NodeId [2]" for m
    by (auto simp: unacknowledged_def sample_reports less_write_token_def)
  have "{m. m \<noteq> NodeId [] \<and> (m = NodeId [1] \<or> m = NodeId [2])} = {NodeId [1], NodeId [2]}"
    "{m. m \<noteq> NodeId [] \<and> m = NodeId [2]} = {NodeId [2]}"
    by auto
  then show "expected_verdict (NodeId []) (WriteToken 2 5) [(1000, sample_behind)] = Waiting [NodeId [1], NodeId [2]]"
    "expected_verdict (NodeId []) (WriteToken 2 5) [(1000, sample_behind), (1500, sample_ack)] = LeaseLapsed [NodeId [2]]"
    by (simp_all add: expected_verdict_def lapse unack less_eq_node_id_def)
qed

theorem coherence_verdict_witness:
  "\<exists>c c'. coherence_step (WriteToken 2 5) 1000 sample_behind (coherence_new (NodeId [])) =
      (Waiting [NodeId [1], NodeId [2]], c) \<and>
    coherence_step (WriteToken 2 5) 1500 sample_ack c = (LeaseLapsed [NodeId [2]], c')"
proof -
  let ?new = "coherence_new (NodeId [])"
  obtain v c where one: "coherence_step (WriteToken 2 5) 1000 sample_behind ?new = (v, c)" by fastforce
  obtain v' c' where two: "coherence_step (WriteToken 2 5) 1500 sample_ack c = (v', c')" by fastforce
  have none: "wait_run (WriteToken 2 5) [] ?new = (None, ?new)" by simp
  have v: "v = Waiting [NodeId [1], NodeId [2]]"
    using coherence_verdict [OF none one] by (simp add: sample_expected)
  have "wait_run (WriteToken 2 5) [(1000, sample_behind)] ?new = (None, c)" using one v by simp
  from coherence_verdict [OF this two] have "v' = LeaseLapsed [NodeId [2]]" by (simp add: sample_expected)
  with one two v show ?thesis by blast
qed

text \<open>
  C14. A coherent wait ends: by the first poll at which the newest report of every member other than the
  writer carries the write, or names an instant that has come, the wait has a terminal verdict, however
  far behind the member was reported before.
\<close>

theorem coherent_wait_ends:
  assumes "\<forall>m h. m \<noteq> writer \<longrightarrow> newest_report m (polls @ [(now, snapshot)]) = Some h \<longrightarrow>
    (\<exists>a. wm_applied h = Some a \<and> token \<le> a) \<or> (\<exists>at. wm_excusable_at h = Some at \<and> at \<le> now)"
  shows "\<exists>verdict c. wait_run token (polls @ [(now, snapshot)]) (coherence_new writer) = (Some verdict, c) \<and>
    (\<forall>on. verdict \<noteq> Waiting on)"
proof (cases "wait_run token polls (coherence_new writer)")
  case (Pair v c)
  show ?thesis
  proof (cases v)
    case (Some verdict)
    with Pair wait_run_terminal [of token polls] show ?thesis by (auto simp: wait_run_append)
  next
    case None
    with Pair have run: "wait_run token polls (coherence_new writer) = (None, c)" by simp
    obtain verdict c' where step: "coherence_step token now snapshot c = (verdict, c')" by fastforce
    have "lapse_proven token m (polls @ [(now, snapshot)])"
      if m: "m \<noteq> writer" and un: "unacknowledged token m (polls @ [(now, snapshot)])" for m
    proof -
      obtain h where h: "newest_report m (polls @ [(now, snapshot)]) = Some h" "\<not> member_applied token h"
        using un by (auto simp: unacknowledged_def not_applied_iff)
      then have "excuse_due now (wm_excusable_at h)"
        using assms m by (force simp: not_applied_iff excuse_due_def)
      with h show ?thesis by (auto simp: lapse_proven_snoc)
    qed
    then have "verdict \<noteq> Waiting on" for on
      unfolding step_verdict [OF run step] expected_verdict_def Let_def by auto
    with run step show ?thesis by (cases verdict) (auto simp: wait_run_append)
  qed
qed

theorem coherent_wait_ends_witness:
  "\<exists>verdict c. wait_run (WriteToken 2 5)
      ([(1000, [sample_member (NodeId [1]) (Some (WriteToken 2 4)) None])] @ [(1001, sample_ack)])
      (coherence_new (NodeId [])) = (Some verdict, c) \<and> verdict \<noteq> Waiting [NodeId [1]]"
proof -
  have "newest_report m ([(1000, [sample_member (NodeId [1]) (Some (WriteToken 2 4)) None])] @ [(1001, sample_ack)]) =
      (if m = NodeId [1] then Some (sample_member (NodeId [1]) (Some (WriteToken 2 5)) None) else None)" for m
    by (auto simp: newest_report_def Let_def)
  then show ?thesis
    using coherent_wait_ends [of "NodeId []" "[(1000, [sample_member (NodeId [1]) (Some (WriteToken 2 4)) None])]"
        1001 sample_ack "WriteToken 2 5"]
    by (fastforce split: if_splits)
qed

end
