(* ===== verification/Lease_Safety.thy ===== *)
theory Lease_Safety
  imports Lease_Core Grant_Ledger Coherence_Core
begin

text \<open>
  One reader and one writer of a lease set, joined by gossip.  Real time passes; each node reads its own
  clock.  The reader renews, hears of granters and of their maps, affirms and departs; the writer folds
  the renewals it can see into its grant map, hears of the reader's maps, runs coherent writes, departs,
  and restarts at any moment: it then has an empty ledger, a new life and a new clock, while the maps of
  its earlier lives stay visible to the reader.  Either node may see any value the other has published,
  late, repeated or out of order, and leftovers of the reader's earlier lives; what third nodes do is
  arbitrary.

  The theorem is the inequality the tier rests on: when the writer's ledger excuses a reader that counts
  it, that reader is not serving.  It rests on the one assumption about clocks that the documentation
  names, the bound on how far their rates differ over one lease duration.  After a restart it needs one
  thing more, which the last section shows to be necessary: that the life the writer holds to have
  departed is not an earlier life of the reader.
\<close>


section \<open>The two nodes\<close>

record lease_world =
  lw_time :: nat
  lw_boots :: nat
  lw_born :: nat
  lw_core :: lease_core
  lw_ledger :: grant_ledger
  lw_renewed :: "u64 \<rightharpoonup> nat"
  lw_maps :: "grant_map set"
  lw_reader_maps :: "grant_map set"

text \<open>
  \<open>lw_boots\<close> counts the writer's restarts and \<open>lw_born\<close> is the real time at which its current life
  started.  A clock is read from the start of its process, so each life \<open>k\<close> of the writer has a clock
  \<open>cw k\<close> of its own.  \<open>lw_renewed\<close> records the real time at which each renewal was published, \<open>lw_maps\<close> and
  \<open>lw_reader_maps\<close> every grant map the writer, in whichever life, and the reader have published.
\<close>

definition clocks_ok :: "(nat \<Rightarrow> time) \<Rightarrow> (nat \<Rightarrow> nat \<Rightarrow> time) \<Rightarrow> u64 \<Rightarrow> u64 \<Rightarrow> bool" where
  "clocks_ok cr cw duration margin \<longleftrightarrow>
    (\<forall>k s t. s \<le> t \<longrightarrow> cr s \<le> cr t \<and> cw k s \<le> cw k t \<and>
      (unat (cw k s) + unat duration \<le> unat (cw k t) \<longrightarrow>
        unat (cr s) + (unat duration - unat margin) \<le> unat (cr t))) \<and>
    (\<forall>k t. unat (cr t) + unat duration < 2 ^ 64 \<and> unat (cw k t) + unat duration < 2 ^ 64)"

abbreviation writer_now :: "(nat \<Rightarrow> nat \<Rightarrow> time) \<Rightarrow> lease_world \<Rightarrow> time" where
  "writer_now cw x \<equiv> cw (lw_boots x) (lw_time x)"

text \<open>A renewal of the reader as the writer may see it: one it has published, or one of an earlier life.\<close>

definition renewal_shown :: "lease_world \<Rightarrow> renewal_id \<Rightarrow> bool" where
  "renewal_shown x i \<longleftrightarrow> rn_epoch i < lc_epoch (lw_core x) \<or>
    rn_epoch i = lc_epoch (lw_core x) \<and> lw_renewed x (rn_seq i) \<noteq> None"

text \<open>
  A map of the writer as the reader may see it: one that some life of it has published since the reader
  started, or an older one, which can grant only an earlier life of the reader.
\<close>

definition writer_map_shown :: "node_id \<Rightarrow> lease_world \<Rightarrow> grant_map \<Rightarrow> bool" where
  "writer_map_shown r x m \<longleftrightarrow> m \<in> lw_maps x \<or>
    (case fmlookup m r of Some i \<Rightarrow> rn_epoch i \<noteq> lc_epoch (lw_core x) | None \<Rightarrow> True)"

definition reader_map_shown :: "node_id \<Rightarrow> lease_world \<Rightarrow> grant_map \<Rightarrow> bool" where
  "reader_map_shown r x m \<longleftrightarrow> m \<in> lw_reader_maps x \<or>
    (case life_of r m of Some life \<Rightarrow> gl_epoch life \<noteq> lc_epoch (lw_core x) | None \<Rightarrow> True)"

definition reader_map_ok :: "node_id \<Rightarrow> lease_world \<Rightarrow> grant_map \<Rightarrow> bool" where
  "reader_map_ok r x m \<longleftrightarrow>
    (case life_of r m of Some life \<Rightarrow> gl_departed life \<longrightarrow> lc_departed (lw_core x) | None \<Rightarrow> True)"

inductive lease_world_step ::
    "(nat \<Rightarrow> time) \<Rightarrow> (nat \<Rightarrow> nat \<Rightarrow> time) \<Rightarrow> lease_config \<Rightarrow> node_id \<Rightarrow> node_id \<Rightarrow>
      lease_world \<Rightarrow> lease_world \<Rightarrow> bool"
  for cr :: "nat \<Rightarrow> time" and cw :: "nat \<Rightarrow> nat \<Rightarrow> time" and cfg :: lease_config and r w :: node_id where
  pass: "lw_time x \<le> t \<Longrightarrow> lease_world_step cr cw cfg r w x (x\<lparr>lw_time := t\<rparr>)"
| renew: "lc_next_seq (lw_core x) < u64_max \<Longrightarrow> on_renew (cr (lw_time x)) (lw_core x) = (i, c) \<Longrightarrow>
    lease_world_step cr cw cfg r w x
      (x\<lparr>lw_core := c, lw_renewed := (lw_renewed x)(rn_seq i \<mapsto> lw_time x)\<rparr>)"
| roster: "lease_world_step cr cw cfg r w x (x\<lparr>lw_core := set_roster advertised (lw_core x)\<rparr>)"
| pinned: "lease_world_step cr cw cfg r w x (x\<lparr>lw_core := pin granter life (lw_core x)\<rparr>)"
| observe: "granter = w \<longrightarrow> writer_map_shown r x m \<Longrightarrow>
    lease_world_step cr cw cfg r w x (x\<lparr>lw_core := observe_grant_map granter m (lw_core x)\<rparr>)"
| forget: "lease_world_step cr cw cfg r w x (x\<lparr>lw_core := forget_granter granter (lw_core x)\<rparr>)"
| poll: "lease_world_step cr cw cfg r w x (x\<lparr>lw_core := snd (lease_poll (cr (lw_time x)) (lw_core x))\<rparr>)"
| affirm: "lease_world_step cr cw cfg r w x (x\<lparr>lw_core := snd (mark_caught_up (cr (lw_time x)) (lw_core x))\<rparr>)"
| resync: "lease_world_step cr cw cfg r w x (x\<lparr>lw_core := require_resync (lw_core x)\<rparr>)"
| leave: "lease_world_step cr cw cfg r w x (x\<lparr>lw_core := lease_depart (lw_core x)\<rparr>)"
| advertise: "reader_map_ok r x m \<Longrightarrow>
    lease_world_step cr cw cfg r w x (x\<lparr>lw_reader_maps := insert m (lw_reader_maps x)\<rparr>)"
| grant: "\<forall>i. (r, i) \<in> set visible \<longrightarrow> renewal_shown x i \<Longrightarrow>
    ledger_fold (writer_now cw x) visible applied (lw_ledger x) = (m, l) \<Longrightarrow>
    lease_world_step cr cw cfg r w x (x\<lparr>lw_ledger := l, lw_maps := insert m (lw_maps x)\<rparr>)"
| hear: "reader = r \<longrightarrow> reader_map_shown r x m \<Longrightarrow>
    lease_world_step cr cw cfg r w x (x\<lparr>lw_ledger := observe_reader_map reader m (lw_ledger x)\<rparr>)"
| begin_write: "lease_world_step cr cw cfg r w x
    (x\<lparr>lw_ledger := ledger_begin feed token (writer_now cw x) (lw_ledger x)\<rparr>)"
| end_write: "lease_world_step cr cw cfg r w x (x\<lparr>lw_ledger := ledger_end feed token (lw_ledger x)\<rparr>)"
| retire: "lease_world_step cr cw cfg r w x (x\<lparr>lw_ledger := ledger_depart (lw_ledger x)\<rparr>)"
| restart: "lease_world_step cr cw cfg r w x
    (x\<lparr>lw_boots := Suc (lw_boots x), lw_born := lw_time x,
       lw_ledger := ledger_from_validated w cfg life (cw (Suc (lw_boots x)) (lw_time x))\<rparr>)"

definition lease_world_init ::
    "(nat \<Rightarrow> nat \<Rightarrow> time) \<Rightarrow> lease_config \<Rightarrow> node_id \<Rightarrow> node_id \<Rightarrow> u64 \<Rightarrow> u64 \<Rightarrow> nat \<Rightarrow> lease_world" where
  "lease_world_init cw cfg r w epoch life t =
    \<lparr>lw_time = t, lw_boots = 0, lw_born = t, lw_core = lease_core_from_validated r cfg epoch,
     lw_ledger = ledger_from_validated w cfg life (cw 0 t), lw_renewed = Map.empty,
     lw_maps = {}, lw_reader_maps = {}\<rparr>"

text \<open>
  The life that the ledger holds to have departed, if it is the one whose renewal it saw last, is the
  reader's life \<open>epoch\<close> and no earlier one.
\<close>

definition departure_current :: "grant_ledger \<Rightarrow> node_id \<Rightarrow> u64 \<Rightarrow> bool" where
  "departure_current l r epoch \<longleftrightarrow> (case rr_seen (reader_of l r) of
      Some (seen, _) \<Rightarrow> rr_departed (reader_of l r) \<noteq> Some (rn_epoch seen) \<or> rn_epoch seen = epoch
    | None \<Rightarrow> True)"


section \<open>The invariant\<close>

text \<open>
  A recorded sighting of a renewal of the reader's current life was made after the renewal was
  published, at a time the writer's clock has shown.
\<close>

definition sighting_ok :: "(nat \<Rightarrow> time) \<Rightarrow> lease_world \<Rightarrow> renewal_id \<times> time \<Rightarrow> bool" where
  "sighting_ok cw x s \<longleftrightarrow> rn_epoch (fst s) \<le> lc_epoch (lw_core x) \<and>
    (rn_epoch (fst s) = lc_epoch (lw_core x) \<longrightarrow>
      (\<exists>published seen. lw_renewed x (rn_seq (fst s)) = Some published \<and> published \<le> seen \<and>
        seen \<le> lw_time x \<and> snd s = cw seen))"

definition record_ok :: "(nat \<Rightarrow> time) \<Rightarrow> lease_world \<Rightarrow> reader_record \<Rightarrow> bool" where
  "record_ok cw x rec \<longleftrightarrow>
    (\<forall>s. rr_seen rec = Some s \<longrightarrow> sighting_ok cw x s) \<and>
    (\<forall>s. rr_granted rec = Some s \<longrightarrow> sighting_ok cw x s) \<and>
    (\<forall>g at. rr_granted rec = Some (g, at) \<longrightarrow> (\<exists>s at'. rr_seen rec = Some (s, at') \<and> g \<le> s)) \<and>
    (rr_departed rec = Some (lc_epoch (lw_core x)) \<longrightarrow> lc_departed (lw_core x))"

text \<open>
  What a grant to the reader's current life rests on: the newest grant on record, or a renewal that an
  earlier life of the writer granted, published before the writer's current life started.
\<close>

definition recorded_grant :: "node_id \<Rightarrow> lease_world \<Rightarrow> renewal_id \<Rightarrow> bool" where
  "recorded_grant r x i \<longleftrightarrow> (\<exists>g at. rr_granted (reader_of (lw_ledger x) r) = Some (g, at) \<and> i \<le> g)"

definition earlier_grant :: "lease_world \<Rightarrow> renewal_id \<Rightarrow> bool" where
  "earlier_grant x i \<longleftrightarrow> 0 < lw_boots x \<and>
    (\<exists>g p. i \<le> g \<and> rn_epoch g = lc_epoch (lw_core x) \<and> lw_renewed x (rn_seq g) = Some p \<and> p \<le> lw_born x)"

definition grant_covered :: "node_id \<Rightarrow> lease_world \<Rightarrow> renewal_id \<Rightarrow> bool" where
  "grant_covered r x i \<longleftrightarrow> recorded_grant r x i \<or> earlier_grant x i"

lemmas covered_defs = grant_covered_def recorded_grant_def earlier_grant_def

definition renewals_ok :: "(nat \<Rightarrow> time) \<Rightarrow> lease_world \<Rightarrow> bool" where
  "renewals_ok cr x \<longleftrightarrow>
    (\<forall>seq at. fmlookup (lc_published (lw_core x)) seq = Some at \<longrightarrow>
      (\<exists>t. lw_renewed x seq = Some t \<and> at = cr t)) \<and>
    (\<forall>seq t. lw_renewed x seq = Some t \<longrightarrow> t \<le> lw_time x \<and> seq < lc_next_seq (lw_core x)) \<and>
    (\<forall>seq seq' t t'. lw_renewed x seq = Some t \<longrightarrow> lw_renewed x seq' = Some t' \<longrightarrow> seq \<le> seq' \<longrightarrow> t \<le> t')"

definition lease_world_ok :: "(nat \<Rightarrow> time) \<Rightarrow> (nat \<Rightarrow> nat \<Rightarrow> time) \<Rightarrow> node_id \<Rightarrow> node_id \<Rightarrow> u64 \<Rightarrow> u64 \<Rightarrow>
    lease_world \<Rightarrow> bool" where
  "lease_world_ok cr cw r w duration margin x \<longleftrightarrow>
    lc_me (lw_core x) = r \<and> lc_duration_ms (lw_core x) = duration \<and> lc_margin_ms (lw_core x) = margin \<and>
    gd_me (lw_ledger x) = w \<and> gd_duration_ms (lw_ledger x) = duration \<and>
    gd_born (lw_ledger x) = cw (lw_boots x) (lw_born x) \<and> lw_born x \<le> lw_time x \<and>
    renewals_ok cr x \<and> record_ok (cw (lw_boots x)) x (reader_of (lw_ledger x) r) \<and>
    (\<forall>m i. m \<in> lw_maps x \<longrightarrow> fmlookup m r = Some i \<longrightarrow> rn_epoch i = lc_epoch (lw_core x) \<longrightarrow> grant_covered r x i) \<and>
    (\<forall>j. fmlookup (lc_granters (lw_core x)) w = Some j \<longrightarrow>
      grant_covered r x (RenewalId (lc_epoch (lw_core x)) j)) \<and>
    (\<forall>m life. m \<in> lw_reader_maps x \<longrightarrow> life_of r m = Some life \<longrightarrow> gl_departed life \<longrightarrow> lc_departed (lw_core x))"

text \<open>
  The arithmetic of the two clocks: a window that opened by real time \<open>t\<close> is closed once a lease
  duration has passed on the writer's clock since \<open>t\<close>.
\<close>

lemma window_closed:
  assumes clocks: "clocks_ok cr cw duration margin"
    and t: "q \<le> t" "t \<le> now" "unat (cw k t) + unat duration \<le> unat (cw k now)"
  shows "\<not> cr now < sat_sub (sat_add (cr q) duration) margin"
proof -
  have "unat (cr t) + (unat duration - unat margin) \<le> unat (cr now)"
    using clocks t by (simp add: clocks_ok_def)
  moreover have "unat (cr q) \<le> unat (cr t)"
    using clocks t(1) by (simp add: clocks_ok_def word_le_nat_alt)
  moreover have "unat (cr q) + unat duration < 2 ^ 64" using clocks by (simp add: clocks_ok_def)
  ultimately show ?thesis
    by (simp add: word_less_nat_alt unat_sat_sub unat_sat_add)
qed

text \<open>Unless it holds the reader to have departed, a ledger excuses nobody within a lease duration of its birth.\<close>

lemma excuse_after_birth:
  assumes "excusable_at l r = Some at"
  obtains s s_at where "rr_seen (reader_of l r) = Some (s, s_at)"
    and "rr_departed (reader_of l r) = Some (rn_epoch s) \<or> sat_add (gd_born l) (gd_duration_ms l) \<le> at"
    and "\<And>g g_at. rr_granted (reader_of l r) = Some (g, g_at) \<Longrightarrow> rn_epoch g = rn_epoch s \<Longrightarrow>
      rr_departed (reader_of l r) = Some (rn_epoch s) \<or> sat_add g_at (gd_duration_ms l) \<le> at"
proof -
  obtain rec s s_at where rec: "fmlookup (gd_readers l) r = Some rec" "rr_seen rec = Some (s, s_at)"
    using assms by (auto simp: excusable_at_def bind_eq_Some_conv split: if_splits)
  define base where "base = (case rr_granted rec of
      Some (g, g_at) \<Rightarrow> if rn_epoch g = rn_epoch s then max g_at (gd_born l) else gd_born l
    | None \<Rightarrow> gd_born l)"
  have at: "rr_departed rec = Some (rn_epoch s) \<or> at = sat_add base (gd_duration_ms l)"
    using assms rec by (auto simp: excusable_at_def base_def split: if_splits)
  have "gd_born l \<le> base"
    by (auto simp: base_def split: option.split)
  then have born: "sat_add (gd_born l) (gd_duration_ms l) \<le> sat_add base (gd_duration_ms l)"
    by (intro sat_add_mono order_refl)
  have granted: "sat_add g_at (gd_duration_ms l) \<le> sat_add base (gd_duration_ms l)"
    if "rr_granted rec = Some (g, g_at)" "rn_epoch g = rn_epoch s" for g g_at
    using that by (intro sat_add_mono order_refl) (simp add: base_def)
  have "reader_of l r = rec" using rec by (simp add: reader_of_def)
  with at born granted rec show ?thesis by (intro that [of s s_at]) auto
qed

text \<open>The inequality: a serving reader's window closes before the writer's excuse opens.\<close>

lemma excuse_after_window:
  assumes clocks: "clocks_ok cr cw duration margin"
    and ok: "lease_world_ok cr cw r w duration margin x"
    and serving: "lease_peek (lw_core x) (cr (lw_time x)) = Serving"
    and counts: "w |\<in>| lc_roster (lw_core x)"
    and current: "lw_boots x = 0 \<or> departure_current (lw_ledger x) r (lc_epoch (lw_core x))"
    and excuse: "excusable_at (lw_ledger x) r = Some at"
  shows "writer_now cw x < at"
proof (rule ccontr)
  assume "\<not> writer_now cw x < at"
  then have late: "at \<le> writer_now cw x" by simp
  let ?e = "lc_epoch (lw_core x)" and ?k = "lw_boots x" and ?rec = "reader_of (lw_ledger x) r"
  obtain seq s_i where seq: "confirmed_seq (lw_core x) = Some seq"
    "fmlookup (lc_published (lw_core x)) seq = Some s_i"
    and now: "cr (lw_time x) < sat_sub (sat_add s_i duration) margin" and here: "\<not> lc_departed (lw_core x)"
    using serving ok unfolding serving_iff by (auto simp: lease_world_ok_def)
  obtain j where j: "fmlookup (lc_granters (lw_core x)) w = Some j" "seq \<le> j"
    by (rule confirmed_seq_le [OF seq(1) counts])
  obtain q where q: "lw_renewed x seq = Some q" "s_i = cr q"
    using ok seq(2) by (auto simp: lease_world_ok_def renewals_ok_def)
  have rec: "record_ok (cw ?k) x ?rec" using ok by (simp add: lease_world_ok_def)
  then have open_life: "rr_departed ?rec \<noteq> Some ?e" using here by (simp add: record_ok_def)
  obtain s s_at where s: "rr_seen ?rec = Some (s, s_at)"
    and born: "rr_departed ?rec = Some (rn_epoch s) \<or> sat_add (gd_born (lw_ledger x)) duration \<le> at"
    and granted: "\<And>g g_at. rr_granted ?rec = Some (g, g_at) \<Longrightarrow> rn_epoch g = rn_epoch s \<Longrightarrow>
      rr_departed ?rec = Some (rn_epoch s) \<or> sat_add g_at duration \<le> at"
    using excuse_after_birth [OF excuse] ok by (metis lease_world_ok_def)
  have closed: False if "q \<le> t" "t \<le> lw_time x" "sat_add (cw ?k t) duration \<le> at" for t
  proof -
    have "unat (cw ?k t) + unat duration < 2 ^ 64" using clocks by (simp add: clocks_ok_def)
    moreover have "unat (sat_add (cw ?k t) duration) \<le> unat (writer_now cw x)"
      using that(3) late by (simp add: word_le_nat_alt)
    ultimately have "unat (cw ?k t) + unat duration \<le> unat (writer_now cw x)"
      by (simp add: unat_sat_add)
    from window_closed [OF clocks that(1,2) this] now q(2) show False by simp
  qed
  have earlier: "q \<le> p" if "lw_renewed x i = Some p" "j \<le> i" for p i
    using ok q(1) that j(2) by (auto simp: lease_world_ok_def renewals_ok_def)
  have "grant_covered r x (RenewalId ?e j)" using ok j(1) by (simp add: lease_world_ok_def)
  then consider (recorded) g g_at where "rr_granted ?rec = Some (g, g_at)" "RenewalId ?e j \<le> g"
    | (earlier) g p where "0 < ?k" "RenewalId ?e j \<le> g" "rn_epoch g = ?e" "lw_renewed x (rn_seq g) = Some p" "p \<le> lw_born x"
    by (auto simp: covered_defs)
  then show False
  proof cases
    case recorded
    have sg: "sighting_ok (cw ?k) x (g, g_at)" using rec recorded by (auto simp: record_ok_def)
    have ge: "rn_epoch g = ?e" "j \<le> rn_seq g"
      using recorded(2) sg by (auto simp: renewal_le_iff sighting_ok_def)
    obtain p t where t: "lw_renewed x (rn_seq g) = Some p" "p \<le> t" "t \<le> lw_time x" "g_at = cw ?k t"
      using sg ge by (auto simp: sighting_ok_def)
    have "g \<le> s" using rec recorded(1) s by (fastforce simp: record_ok_def)
    then have "rn_epoch s = ?e"
      using rec s ge by (auto simp: record_ok_def sighting_ok_def renewal_le_iff)
    then have "sat_add g_at duration \<le> at" using granted [OF recorded(1)] ge(1) open_life by auto
    with closed [of t] earlier [OF t(1) ge(2)] t show False by simp
  next
    case earlier
    have "rr_departed ?rec \<noteq> Some (rn_epoch s)"
      using current earlier(1) s open_life by (auto simp: departure_current_def)
    then have "sat_add (cw ?k (lw_born x)) duration \<le> at"
      using born ok by (simp add: lease_world_ok_def)
    moreover have "j \<le> rn_seq g" using earlier(2,3) by (simp add: renewal_le_iff)
    then have "q \<le> p" using \<open>\<And>p i. lw_renewed x i = Some p \<Longrightarrow> j \<le> i \<Longrightarrow> q \<le> p\<close> earlier(4) by blast
    moreover have "lw_born x \<le> lw_time x" using ok by (simp add: lease_world_ok_def)
    ultimately show False using closed [of "lw_born x"] earlier(5) by simp
  qed
qed


section \<open>Every step keeps the invariant\<close>

text \<open>A step of the reader that publishes no renewal.\<close>

lemma reader_step_ok:
  assumes ok: "lease_world_ok cr cw r w duration margin x"
    and same: "lc_me c = lc_me (lw_core x)" "lc_epoch c = lc_epoch (lw_core x)"
      "lc_duration_ms c = lc_duration_ms (lw_core x)" "lc_margin_ms c = lc_margin_ms (lw_core x)"
      "lc_published c = lc_published (lw_core x)" "lc_next_seq c = lc_next_seq (lw_core x)"
    and departed: "lc_departed (lw_core x) \<Longrightarrow> lc_departed c"
    and granters: "\<And>j. fmlookup (lc_granters c) w = Some j \<Longrightarrow>
      grant_covered r x (RenewalId (lc_epoch (lw_core x)) j)"
  shows "lease_world_ok cr cw r w duration margin (x\<lparr>lw_core := c\<rparr>)"
proof -
  have "record_ok k (x\<lparr>lw_core := c\<rparr>) rec" if "record_ok k x rec" for k rec
    using that same departed by (auto simp: record_ok_def sighting_ok_def)
  moreover have "grant_covered r (x\<lparr>lw_core := c\<rparr>) i = grant_covered r x i" for i
    using same by (simp add: covered_defs)
  moreover have "renewals_ok cr (x\<lparr>lw_core := c\<rparr>) = renewals_ok cr x"
    using same by (simp add: renewals_ok_def)
  ultimately show ?thesis
    using ok same departed granters by (auto simp: lease_world_ok_def)
qed

lemma granters_covered:
  "lease_world_ok cr cw r w duration margin x \<Longrightarrow> fmlookup (lc_granters (lw_core x)) w = Some j \<Longrightarrow>
    grant_covered r x (RenewalId (lc_epoch (lw_core x)) j)"
  by (simp add: lease_world_ok_def)

lemma observe_covered:
  assumes ok: "lease_world_ok cr cw r w duration margin x" and m: "granter = w \<longrightarrow> writer_map_shown r x m"
    and j: "fmlookup (lc_granters (observe_grant_map granter m (lw_core x))) w = Some j"
  shows "grant_covered r x (RenewalId (lc_epoch (lw_core x)) j)"
proof (cases "granter = w")
  case False
  then have "fmlookup (lc_granters (lw_core x)) w = Some j"
    using j by (auto simp: observe_grant_map_def split: option.splits if_splits)
  with ok show ?thesis by (rule granters_covered)
next
  case True
  then obtain i where i: "fmlookup m r = Some i" "rn_epoch i = lc_epoch (lw_core x)" "j = rn_seq i"
    using j ok by (auto simp: observe_grant_map_def lease_world_ok_def split: option.splits if_splits)
  then have "m \<in> lw_maps x" using m True by (simp add: writer_map_shown_def)
  with ok i have "grant_covered r x i" by (simp add: lease_world_ok_def)
  moreover have "i = RenewalId (lc_epoch (lw_core x)) j" using i by (cases i) simp
  ultimately show ?thesis by simp
qed

text \<open>A renewal: the new sequence number is above every published one, and published now.\<close>

lemma drop_oldest_lookup: "fmlookup (drop_oldest p) seq = Some at \<Longrightarrow> fmlookup p seq = Some at"
proof (induction p rule: drop_oldest.induct)
  case (1 p)
  then show ?case
    by (subst (asm) (2) drop_oldest.simps) (auto split: if_splits option.splits)
qed

lemma renew_ok:
  assumes ok: "lease_world_ok cr cw r w duration margin x"
    and room: "lc_next_seq (lw_core x) < u64_max"
    and renew: "on_renew (cr (lw_time x)) (lw_core x) = (i, c)"
  shows "lease_world_ok cr cw r w duration margin
    (x\<lparr>lw_core := c, lw_renewed := (lw_renewed x)(rn_seq i \<mapsto> lw_time x)\<rparr>)" (is "lease_world_ok _ _ _ _ _ _ ?x")
proof -
  let ?seq = "lc_next_seq (lw_core x)"
  have i: "rn_seq i = ?seq" and c: "lc_me c = lc_me (lw_core x)" "lc_epoch c = lc_epoch (lw_core x)"
    "lc_duration_ms c = lc_duration_ms (lw_core x)" "lc_margin_ms c = lc_margin_ms (lw_core x)"
    "lc_published c = drop_oldest (fmupd ?seq (cr (lw_time x)) (lc_published (lw_core x)))"
    "lc_next_seq c = sat_add ?seq 1" "lc_departed c = lc_departed (lw_core x)"
    "lc_granters c = lc_granters (lw_core x)"
    using renew by (auto simp: on_renew_def Let_def)
  have next_seq: "?seq < sat_add ?seq 1" using room by (simp add: sat_add_1_less_iff)
  have rok: "renewals_ok cr x" using ok by (simp add: lease_world_ok_def)
  then have old: "\<And>seq t. lw_renewed x seq = Some t \<Longrightarrow> t \<le> lw_time x \<and> seq < ?seq"
    and pub: "\<And>seq at. fmlookup (lc_published (lw_core x)) seq = Some at \<Longrightarrow>
      \<exists>t. lw_renewed x seq = Some t \<and> at = cr t"
    and ord: "\<And>seq seq' t t'. lw_renewed x seq = Some t \<Longrightarrow> lw_renewed x seq' = Some t' \<Longrightarrow>
      seq \<le> seq' \<Longrightarrow> t \<le> t'"
    unfolding renewals_ok_def by blast+
  have fresh: "lw_renewed x ?seq = None" using old [of ?seq] by (cases "lw_renewed x ?seq") auto
  have "renewals_ok cr ?x"
    unfolding renewals_ok_def
  proof (intro conjI allI impI)
    fix seq at
    assume "fmlookup (lc_published (lw_core ?x)) seq = Some at"
    then have "fmlookup (drop_oldest (fmupd ?seq (cr (lw_time x)) (lc_published (lw_core x)))) seq = Some at"
      using c by simp
    from drop_oldest_lookup [OF this]
    show "\<exists>t. lw_renewed ?x seq = Some t \<and> at = cr t"
      using pub [of seq at] i by (auto split: if_splits)
  next
    fix seq t
    assume "lw_renewed ?x seq = Some t"
    then show "t \<le> lw_time ?x" "seq < lc_next_seq (lw_core ?x)"
      using old [of seq t] c i next_seq by (auto split: if_splits intro: less_trans)
  next
    fix seq seq' t t'
    assume "lw_renewed ?x seq = Some t" "lw_renewed ?x seq' = Some t'" "seq \<le> seq'"
    then show "t \<le> t'"
      using ord [of seq t seq' t'] old [of seq t] old [of seq' t'] i by (auto split: if_splits)
  qed
  moreover have sight: "sighting_ok k ?x s" if "sighting_ok k x s" for k s
    using that c i fresh by (fastforce simp: sighting_ok_def)
  then have "record_ok k ?x rec" if "record_ok k x rec" for k rec
    using that c unfolding record_ok_def by simp
  moreover have "grant_covered r ?x k" if "grant_covered r x k" for k
    using that c i fresh by (fastforce simp: covered_defs)
  ultimately show ?thesis using ok c by (simp add: lease_world_ok_def)
qed

text \<open>A step of the writer.\<close>

lemma writer_step_ok:
  assumes ok: "lease_world_ok cr cw r w duration margin x"
    and same: "gd_me l = gd_me (lw_ledger x)" "gd_duration_ms l = gd_duration_ms (lw_ledger x)"
      "gd_born l = gd_born (lw_ledger x)"
    and rec: "record_ok (cw (lw_boots x)) x (reader_of l r)"
    and mono: "\<And>i. grant_covered r x i \<Longrightarrow> grant_covered r (x\<lparr>lw_ledger := l\<rparr>) i"
    and maps: "\<And>m i. m \<in> extra \<Longrightarrow> fmlookup m r = Some i \<Longrightarrow> rn_epoch i = lc_epoch (lw_core x) \<Longrightarrow>
      grant_covered r (x\<lparr>lw_ledger := l\<rparr>) i"
  shows "lease_world_ok cr cw r w duration margin (x\<lparr>lw_ledger := l, lw_maps := lw_maps x \<union> extra\<rparr>)"
    (is "lease_world_ok _ _ _ _ _ _ ?x")
proof -
  have "record_ok k ?x rec = record_ok k x rec" for k rec
    by (simp add: record_ok_def sighting_ok_def)
  moreover have "grant_covered r ?x i = grant_covered r (x\<lparr>lw_ledger := l\<rparr>) i" for i
    by (simp add: covered_defs)
  moreover have "renewals_ok cr ?x = renewals_ok cr x" by (simp add: renewals_ok_def)
  ultimately show ?thesis using ok same rec mono maps by (auto simp: lease_world_ok_def)
qed

lemma sighting_now:
  assumes "renewals_ok cr x" "renewal_shown x i"
  shows "sighting_ok cw x (i, cw (lw_time x))"
proof -
  have "t \<le> lw_time x" if "lw_renewed x seq = Some t" for seq t
    using assms(1) that unfolding renewals_ok_def by blast
  with assms(2) show ?thesis
    by (fastforce simp: sighting_ok_def renewal_shown_def intro: less_imp_le)
qed

lemma first_seen_ok:
  assumes rec: "record_ok cw x rec" and now: "sighting_ok cw x (i, cw (lw_time x))"
    and fs: "first_seen (cw (lw_time x)) i rec = (at, rec')"
  shows "record_ok cw x rec'" "sighting_ok cw x (i, at)" "rr_granted rec' = rr_granted rec"
    "\<exists>s at'. rr_seen rec' = Some (s, at') \<and> i \<le> s"
proof -
  consider (same) at0 where "rr_seen rec = Some (i, at0)" "at = at0" "rec' = rec"
    | (older) s at0 where "rr_seen rec = Some (s, at0)" "i < s" "at = cw (lw_time x)" "rec' = rec"
    | (newer) "at = cw (lw_time x)" "rec' = rec\<lparr>rr_seen := Some (i, at)\<rparr>"
        "\<And>s at0. rr_seen rec = Some (s, at0) \<Longrightarrow> s < i"
    using fs by (auto simp: first_seen_def split: option.splits if_splits)
  note cases = this
  show "record_ok cw x rec'"
    using cases
  proof cases
    case newer
    have "\<exists>s at'. rr_seen rec' = Some (s, at') \<and> g \<le> s" if g: "rr_granted rec = Some (g, g_at)" for g g_at
    proof -
      obtain s at' where "rr_seen rec = Some (s, at')" "g \<le> s" using rec g by (fastforce simp: record_ok_def)
      with newer show ?thesis by force
    qed
    with rec now newer show ?thesis by (auto simp: record_ok_def)
  qed (use rec in auto)
  show "sighting_ok cw x (i, at)"
    using cases by cases (use rec now in \<open>auto simp: record_ok_def\<close>)
  show "rr_granted rec' = rr_granted rec"
    using cases by cases auto
  show "\<exists>s at'. rr_seen rec' = Some (s, at') \<and> i \<le> s"
    using cases by cases auto
qed

text \<open>What one visible renewal of the reader does to its record and to the map being built.\<close>

definition fold_ok :: "(nat \<Rightarrow> time) \<Rightarrow> node_id \<Rightarrow> node_id \<Rightarrow> lease_world \<Rightarrow> grant_ledger \<times> grant_map \<Rightarrow> bool" where
  "fold_ok cw r w x st \<longleftrightarrow> (case st of (l, grants) \<Rightarrow>
    gd_me l = w \<and> gd_duration_ms l = gd_duration_ms (lw_ledger x) \<and> gd_born l = gd_born (lw_ledger x) \<and>
    record_ok cw x (reader_of l r) \<and>
    (\<forall>i. recorded_grant r x i \<longrightarrow> recorded_grant r (x\<lparr>lw_ledger := l\<rparr>) i) \<and>
    (\<forall>i. fmlookup grants r = Some i \<longrightarrow> recorded_grant r (x\<lparr>lw_ledger := l\<rparr>) i))"

lemma reader_of_upd [simp]: "reader_of (l\<lparr>gd_readers := fmupd r' rec (gd_readers l)\<rparr>) r = (if r = r' then rec else reader_of l r)"
  by (simp add: reader_of_def)

lemma fold_reader_same:
  assumes rw: "r \<noteq> w" and st: "fold_ok cw r w x (l, grants)" and now: "sighting_ok cw x (i, cw (lw_time x))"
  shows "fold_ok cw r w x (fold_reader (cw (lw_time x)) applied (r, i) (l, grants))"
proof -
  obtain at rec where fs: "first_seen (cw (lw_time x)) i (reader_of l r) = (at, rec)" by fastforce
  have rec0: "record_ok cw x (reader_of l r)" and me: "gd_me l = w"
    and cov: "\<And>i. recorded_grant r x i \<Longrightarrow> recorded_grant r (x\<lparr>lw_ledger := l\<rparr>) i"
    and grants: "\<And>i. fmlookup grants r = Some i \<Longrightarrow> recorded_grant r (x\<lparr>lw_ledger := l\<rparr>) i"
    using st by (simp_all add: fold_ok_def)
  note rec = first_seen_ok [OF rec0 now fs]
  obtain opn where opn: "opn = (reader_current applied l r \<and>
      (case grant_cap applied l r of None \<Rightarrow> True | Some began \<Rightarrow> at \<le> began))" by blast
  define rec' where "rec' = (if opn \<and> (case rr_granted rec of None \<Rightarrow> True | Some (g, _) \<Rightarrow> g < i)
    then rec\<lparr>rr_granted := Some (i, at)\<rparr> else rec)"
  define grants' where "grants' = (if opn then fmupd r i grants else case rr_granted rec of
      Some (g, _) \<Rightarrow> if rn_epoch g = rn_epoch i \<and> g \<le> i then fmupd r g grants else grants | None \<Rightarrow> grants)"
  define l' where "l' = l\<lparr>gd_readers := fmupd r rec' (gd_readers l)\<rparr>"
  have step: "fold_reader (cw (lw_time x)) applied (r, i) (l, grants) = (l', grants')"
    using rw me fs by (simp add: fold_reader_def l'_def rec'_def grants'_def opn)
  have covered: "recorded_grant r (x\<lparr>lw_ledger := l'\<rparr>) k \<longleftrightarrow> (\<exists>g at. rr_granted rec' = Some (g, at) \<and> k \<le> g)" for k
    by (simp add: recorded_grant_def l'_def)
  have covered0: "recorded_grant r (x\<lparr>lw_ledger := l\<rparr>) k \<longleftrightarrow> (\<exists>g at. rr_granted rec = Some (g, at) \<and> k \<le> g)" for k
    using rec(3) by (simp add: recorded_grant_def)
  have keep: "\<exists>g' at'. rr_granted rec' = Some (g', at') \<and> g \<le> g'" if "rr_granted rec = Some (g, g_at)" for g g_at
    using that by (auto simp: rec'_def)
  have mono: "recorded_grant r (x\<lparr>lw_ledger := l\<rparr>) k \<Longrightarrow> recorded_grant r (x\<lparr>lw_ledger := l'\<rparr>) k" for k
    unfolding covered covered0 using keep by (meson order_trans)
  have rec'_ok: "record_ok cw x rec'" using rec by (auto simp: rec'_def record_ok_def)
  have new: "recorded_grant r (x\<lparr>lw_ledger := l'\<rparr>) k" if k: "fmlookup grants' r = Some k" for k
  proof (cases opn)
    case True
    then have "k = i" using k by (simp add: grants'_def)
    moreover have "\<exists>g at. rr_granted rec' = Some (g, at) \<and> i \<le> g"
      using True by (auto simp: rec'_def split: option.splits)
    ultimately show ?thesis unfolding covered by blast
  next
    case False
    then have "fmlookup grants r = Some k \<or> (\<exists>g_at. rr_granted rec = Some (k, g_at))"
      using k by (auto simp: grants'_def split: option.splits if_splits)
    then show ?thesis
    proof
      assume "fmlookup grants r = Some k"
      then show ?thesis by (intro mono grants)
    next
      assume "\<exists>g_at. rr_granted rec = Some (k, g_at)"
      then show ?thesis unfolding covered using keep by blast
    qed
  qed
  have "reader_of l' r = rec'" by (simp add: l'_def)
  then show ?thesis
    unfolding step fold_ok_def using rec'_ok mono cov new st by (auto simp: fold_ok_def l'_def)
qed

lemma fold_reader_other_ok:
  assumes "fst v \<noteq> r" "fold_ok cw r w x (l, grants)"
  shows "fold_ok cw r w x (fold_reader now applied v (l, grants))"
proof -
  obtain l' grants' where step: "fold_reader now applied v (l, grants) = (l', grants')" by fastforce
  have "reader_of l' r = reader_of l r" "fmlookup grants' r = fmlookup grants r"
    "gd_me l' = gd_me l" "gd_duration_ms l' = gd_duration_ms l" "gd_born l' = gd_born l"
    using fold_reader_other [of r v now applied l grants] fold_reader_fields [of now applied v l grants] assms(1) step
    by (simp_all add: reader_of_def)
  then show ?thesis using assms(2) by (simp add: step fold_ok_def recorded_grant_def)
qed

lemma fold_visible_ok:
  assumes rw: "r \<noteq> w"
    and visible: "\<forall>i. (r, i) \<in> set visible \<longrightarrow> sighting_ok cw x (i, cw (lw_time x))"
    and st: "fold_ok cw r w x st"
  shows "fold_ok cw r w x (fold (fold_reader (cw (lw_time x)) applied) visible st)"
  using visible st
proof (induction visible arbitrary: st)
  case (Cons v visible)
  obtain l grants where st: "st = (l, grants)" by (cases st)
  obtain reader i where v: "v = (reader, i)" by (cases v)
  have "fold_ok cw r w x (fold_reader (cw (lw_time x)) applied v st)"
    using Cons.prems fold_reader_same [OF rw, of cw x l grants i applied]
      fold_reader_other_ok [of v r cw w x l grants "cw (lw_time x)" applied]
    by (cases "reader = r") (auto simp: st v)
  with Cons show ?case by simp
qed simp

lemma grant_ok:
  assumes rw: "r \<noteq> w" and ok: "lease_world_ok cr cw r w duration margin x"
    and visible: "\<forall>i. (r, i) \<in> set visible \<longrightarrow> renewal_shown x i"
    and fold: "ledger_fold (writer_now cw x) visible applied (lw_ledger x) = (m, l)"
  shows "lease_world_ok cr cw r w duration margin (x\<lparr>lw_ledger := l, lw_maps := lw_maps x \<union> {m}\<rparr>)"
proof -
  define k where "k = cw (lw_boots x)"
  obtain l' grants where run: "fold (fold_reader (k (lw_time x)) applied) visible (lw_ledger x, fmempty) = (l', grants)"
    by fastforce
  have l: "l' = l" and m: "m = life_stamp (ledger_life l) (gd_me l) grants"
    using fold run by (auto simp: ledger_fold_def Let_def k_def)
  have "fold_ok k r w x (lw_ledger x, fmempty)"
    using ok by (simp add: fold_ok_def lease_world_ok_def recorded_grant_def k_def)
  moreover have "\<forall>i. (r, i) \<in> set visible \<longrightarrow> sighting_ok k x (i, k (lw_time x))"
    using visible sighting_now [of cr x] ok by (auto simp: lease_world_ok_def)
  ultimately have "fold_ok k r w x (l, grants)"
    using fold_visible_ok [OF rw, of visible k x "(lw_ledger x, fmempty)" applied] run l by simp
  then have st: "gd_me l = w" "gd_duration_ms l = gd_duration_ms (lw_ledger x)" "gd_born l = gd_born (lw_ledger x)"
    "record_ok k x (reader_of l r)" "\<And>i. recorded_grant r x i \<Longrightarrow> recorded_grant r (x\<lparr>lw_ledger := l\<rparr>) i"
    "\<And>i. fmlookup grants r = Some i \<Longrightarrow> recorded_grant r (x\<lparr>lw_ledger := l\<rparr>) i"
    by (simp_all add: fold_ok_def)
  have "grant_covered r (x\<lparr>lw_ledger := l\<rparr>) i" if "grant_covered r x i" for i
    using that st(5) by (auto simp: grant_covered_def earlier_grant_def)
  moreover have "grant_covered r (x\<lparr>lw_ledger := l\<rparr>) i" if "fmlookup grants r = Some i" for i
    using st(6) [OF that] by (simp add: grant_covered_def)
  moreover have "gd_me (lw_ledger x) = w" using ok by (simp add: lease_world_ok_def)
  ultimately show ?thesis
    using st(1-4) rw m by (intro writer_step_ok [OF ok]) (auto simp: life_stamp_def k_def)
qed

lemma hear_ok:
  assumes ok: "lease_world_ok cr cw r w duration margin x"
    and m: "reader = r \<longrightarrow> reader_map_shown r x m"
  shows "lease_world_ok cr cw r w duration margin (x\<lparr>lw_ledger := observe_reader_map reader m (lw_ledger x)\<rparr>)"
proof -
  let ?l = "observe_reader_map reader m (lw_ledger x)"
  have same: "gd_me ?l = gd_me (lw_ledger x)" "gd_duration_ms ?l = gd_duration_ms (lw_ledger x)"
    "gd_born ?l = gd_born (lw_ledger x)"
    "rr_seen (reader_of ?l r) = rr_seen (reader_of (lw_ledger x) r)"
    "rr_granted (reader_of ?l r) = rr_granted (reader_of (lw_ledger x) r)"
    by (auto simp: observe_reader_map_def Let_def split: option.split)
  have "rr_departed (reader_of ?l r) = Some (lc_epoch (lw_core x)) \<longrightarrow> lc_departed (lw_core x)"
  proof (cases "reader = r")
    case False
    then have "rr_departed (reader_of ?l r) = rr_departed (reader_of (lw_ledger x) r)"
      by (auto simp: observe_reader_map_def Let_def split: option.split)
    with ok show ?thesis by (simp add: lease_world_ok_def record_ok_def)
  next
    case True
    then have "rr_departed (reader_of ?l r) = rr_departed (reader_of (lw_ledger x) r) \<or>
        (\<exists>life. life_of r m = Some life \<and> gl_departed life \<and> rr_departed (reader_of ?l r) = Some (gl_epoch life))"
      by (auto simp: observe_reader_map_def Let_def split: option.split)
    then show ?thesis
      using ok m True by (auto simp: lease_world_ok_def record_ok_def reader_map_shown_def)
  qed
  then have "record_ok (cw (lw_boots x)) x (reader_of ?l r)"
    using ok same by (simp add: lease_world_ok_def record_ok_def)
  then show ?thesis
    using writer_step_ok [OF ok same(1-3), of "{}"] same(5) by (simp add: covered_defs)
qed

text \<open>
  A restart: every grant of the ended life covers a renewal that was published before the new life
  started.
\<close>

lemma restart_ok:
  assumes ok: "lease_world_ok cr cw r w (duration_ms cfg) margin x"
  shows "lease_world_ok cr cw r w (duration_ms cfg) margin
    (x\<lparr>lw_boots := Suc (lw_boots x), lw_born := lw_time x,
       lw_ledger := ledger_from_validated w cfg life (cw (Suc (lw_boots x)) (lw_time x))\<rparr>)"
    (is "lease_world_ok _ _ _ _ _ _ ?x")
proof -
  have rec: "record_ok (cw (lw_boots x)) x (reader_of (lw_ledger x) r)" using ok by (simp add: lease_world_ok_def)
  have "grant_covered r ?x i" if i: "rn_epoch i = lc_epoch (lw_core x)" and cov: "grant_covered r x i" for i
  proof -
    consider (recorded) "recorded_grant r x i" | (earlier) "earlier_grant x i"
      using cov by (auto simp: grant_covered_def)
    then have "\<exists>g p. i \<le> g \<and> rn_epoch g = lc_epoch (lw_core x) \<and> lw_renewed x (rn_seq g) = Some p \<and> p \<le> lw_time x"
    proof cases
      case recorded
      then obtain g g_at where g: "rr_granted (reader_of (lw_ledger x) r) = Some (g, g_at)" "i \<le> g"
        by (auto simp: recorded_grant_def)
      have sg: "sighting_ok (cw (lw_boots x)) x (g, g_at)" using rec g by (auto simp: record_ok_def)
      then have "rn_epoch g = lc_epoch (lw_core x)"
        using i g(2) by (auto simp: sighting_ok_def renewal_le_iff)
      with sg g(2) show ?thesis by (force simp: sighting_ok_def)
    next
      case earlier
      moreover have "lw_born x \<le> lw_time x" using ok by (simp add: lease_world_ok_def)
      ultimately show ?thesis unfolding earlier_grant_def by (meson order_trans)
    qed
    then show ?thesis by (simp add: grant_covered_def earlier_grant_def)
  qed
  moreover have "record_ok k ?x (reader_of (lw_ledger ?x) r)" for k
    by (simp add: record_ok_def reader_of_def reader_default_def ledger_from_validated_def)
  moreover have "renewals_ok cr ?x = renewals_ok cr x" by (simp add: renewals_ok_def)
  ultimately show ?thesis using ok by (simp add: lease_world_ok_def ledger_from_validated_def)
qed

lemma lease_world_step_ok:
  assumes "lease_world_step cr cw cfg r w x y" "r \<noteq> w" "lease_world_ok cr cw r w (duration_ms cfg) margin x"
  shows "lease_world_ok cr cw r w (duration_ms cfg) margin y"
  using assms
proof (induction rule: lease_world_step.induct)
  case (pass x t)
  have "sighting_ok k (x\<lparr>lw_time := t\<rparr>) s" if "sighting_ok k x s" for k s
    using that pass.hyps by (fastforce simp: sighting_ok_def)
  then have "record_ok k (x\<lparr>lw_time := t\<rparr>) rec" if "record_ok k x rec" for k rec
    using that unfolding record_ok_def by simp
  moreover have "renewals_ok cr (x\<lparr>lw_time := t\<rparr>)"
    using pass by (force simp: lease_world_ok_def renewals_ok_def)
  moreover have "grant_covered r (x\<lparr>lw_time := t\<rparr>) i = grant_covered r x i" for i by (simp add: covered_defs)
  moreover have "lw_born x \<le> t" using pass by (simp add: lease_world_ok_def)
  ultimately show ?case using pass.prems by (simp add: lease_world_ok_def)
next
  case (renew x i c)
  then show ?case using renew_ok by blast
next
  case (observe granter x m)
  then show ?case
    using observe_covered [OF observe.prems(2), of granter m]
    by (intro reader_step_ok) (auto simp: observe_grant_map_def)
next
  case (advertise x m)
  have "record_ok k (x\<lparr>lw_reader_maps := insert m (lw_reader_maps x)\<rparr>) rec = record_ok k x rec" for k rec
    by (simp add: record_ok_def sighting_ok_def)
  moreover have "renewals_ok cr (x\<lparr>lw_reader_maps := insert m (lw_reader_maps x)\<rparr>) = renewals_ok cr x"
    by (simp add: renewals_ok_def)
  moreover have "grant_covered r (x\<lparr>lw_reader_maps := insert m (lw_reader_maps x)\<rparr>) i = grant_covered r x i" for i
    by (simp add: covered_defs)
  ultimately show ?case
    using advertise by (auto simp: lease_world_ok_def reader_map_ok_def)
next
  case (grant visible x applied m l)
  then show ?case using grant_ok [of r w cr cw "duration_ms cfg" margin x visible applied m l] by simp
next
  case (hear reader x m)
  then show ?case using hear_ok by blast
next
  case (begin_write x feed token)
  have "reader_of (ledger_begin feed token (writer_now cw x) (lw_ledger x)) r = reader_of (lw_ledger x) r"
    by (simp add: reader_of_def ledger_begin_def split: option.split)
  with begin_write show ?case
    using writer_step_ok [OF begin_write.prems(2), of "ledger_begin feed token (writer_now cw x) (lw_ledger x)" "{}"]
    by (simp add: covered_defs lease_world_ok_def) (simp add: ledger_begin_def split: option.split)
next
  case (end_write x feed token)
  have "reader_of (ledger_end feed token (lw_ledger x)) r = reader_of (lw_ledger x) r"
    by (simp add: reader_of_def ledger_end_def)
  with end_write show ?case
    using writer_step_ok [OF end_write.prems(2), of "ledger_end feed token (lw_ledger x)" "{}"]
    by (simp add: covered_defs lease_world_ok_def) (simp add: ledger_end_def)
next
  case (retire x)
  have "reader_of (ledger_depart (lw_ledger x)) r = reader_of (lw_ledger x) r"
    by (simp add: reader_of_def ledger_depart_def)
  with retire show ?case
    using writer_step_ok [OF retire.prems(2), of "ledger_depart (lw_ledger x)" "{}"]
    by (simp add: covered_defs lease_world_ok_def) (simp add: ledger_depart_def)
next
  case (restart x life)
  then show ?case using restart_ok by blast
qed (auto intro!: reader_step_ok dest: granters_covered
    simp: lease_op_defs split: option.splits if_splits)


section \<open>Properties\<close>

definition lease_world_reachable :: "(nat \<Rightarrow> time) \<Rightarrow> (nat \<Rightarrow> nat \<Rightarrow> time) \<Rightarrow> lease_config \<Rightarrow> node_id \<Rightarrow> node_id \<Rightarrow>
    lease_world \<Rightarrow> lease_world \<Rightarrow> bool" where
  "lease_world_reachable cr cw cfg r w = (lease_world_step cr cw cfg r w)\<^sup>*\<^sup>*"

lemma lease_world_init_ok:
  "lease_world_ok cr cw r w (duration_ms cfg) (rate_margin_ms cfg) (lease_world_init cw cfg r w epoch life t)"
  by (simp add: lease_world_ok_def lease_world_init_def lease_core_from_validated_def
      ledger_from_validated_def renewals_ok_def record_ok_def reader_of_def reader_default_def)

lemma lease_world_reachable_ok:
  assumes "lease_world_reachable cr cw cfg r w x y" "r \<noteq> w" "lease_world_ok cr cw r w (duration_ms cfg) margin x"
  shows "lease_world_ok cr cw r w (duration_ms cfg) margin y"
  using assms(1) unfolding lease_world_reachable_def
  by (induction rule: rtranclp_induct) (use assms lease_world_step_ok in auto)

text \<open>
  C3. The lapse is proven: in every state that a reader and a writer reach, whatever is delayed,
  repeated, reordered or left over from earlier lives, and however often the writer restarts while the
  reader holds a grant of one of its earlier lives, once the writer's clock has passed the instant from
  which its ledger excuses the reader, a reader that counts the writer is not serving.  The provisos: the
  reader's clock loses at most the rate margin against the writer's over one lease duration, and a writer
  that has restarted does not take the departure of an earlier life of the reader for that of the
  current one.
\<close>

theorem excused_reader_not_serving:
  assumes "clocks_ok cr cw (duration_ms cfg) (rate_margin_ms cfg)" "r \<noteq> w"
    and "lease_world_reachable cr cw cfg r w (lease_world_init cw cfg r w epoch life t) x"
    and "w |\<in>| lc_roster (lw_core x)"
    and "lw_boots x = 0 \<or> departure_current (lw_ledger x) r (lc_epoch (lw_core x))"
    and "excusable_at (lw_ledger x) r = Some at" "at \<le> cw (lw_boots x) (lw_time x)"
  shows "lease_peek (lw_core x) (cr (lw_time x)) \<noteq> Serving"
  using excuse_after_window [OF assms(1) lease_world_reachable_ok [OF assms(3,2) lease_world_init_ok] _ assms(4-6)]
    assms(7) by auto

text \<open>
  A run in which every assumption holds.  The reader serves on a grant of the writer's first life; the
  writer restarts under it at time 100, begins a write, and grants the reader nothing: only the birth of
  its second life bounds the lapse.
\<close>

definition sample_clock :: "nat \<Rightarrow> time" where
  "sample_clock t = of_nat (min t 100000)"

definition sample_writer_clock :: "nat \<Rightarrow> nat \<Rightarrow> time" where
  "sample_writer_clock k t = of_nat (min t 100000 - 100 * k)"

lemma unat_sample_clock: "unat (sample_clock t) = min t 100000"
  unfolding sample_clock_def by (rule unat_of_nat_u64) simp

lemma unat_sample_writer_clock: "unat (sample_writer_clock k t) = min t 100000 - 100 * k"
  unfolding sample_writer_clock_def by (rule unat_of_nat_u64) simp

lemma sample_clocks_ok: "clocks_ok sample_clock sample_writer_clock 2000 20"
  by (auto simp: clocks_ok_def unat_sample_writer_clock unat_sample_clock word_le_nat_alt)

abbreviation sample_reader :: node_id where
  "sample_reader \<equiv> NodeId [114]"

abbreviation sample_writer :: node_id where
  "sample_writer \<equiv> NodeId [119]"

lemma sample_config_ms: "duration_ms lease_config_default = 2000" "rate_margin_ms lease_config_default = 20"
  by (simp_all add: lease_config_default_def lease_for_duration_def clamp_ms_def as_millis_def)

abbreviation sample_step :: "lease_world \<Rightarrow> lease_world \<Rightarrow> bool" where
  "sample_step \<equiv> lease_world_step sample_clock sample_writer_clock lease_config_default sample_reader sample_writer"

abbreviation sample_init :: lease_world where
  "sample_init \<equiv> lease_world_init sample_writer_clock lease_config_default sample_reader sample_writer 7 5 0"

definition sample_lease_core :: lease_core where
  "sample_lease_core = (lease_core_from_validated sample_reader lease_config_default 7)
    \<lparr>lc_roster := {|sample_writer|}, lc_next_seq := 2, lc_published := fmupd 1 0 fmempty,
     lc_granters := fmupd sample_writer 1 fmempty,
     lc_lives := fmupd sample_writer \<lparr>gl_epoch = 5, gl_departed = False\<rparr> fmempty, lc_caught_up := True\<rparr>"

definition sample_writer_map :: grant_map where
  "sample_writer_map = life_stamp \<lparr>gl_epoch = 5, gl_departed = False\<rparr> sample_writer
    (fmupd sample_reader (RenewalId 7 1) fmempty)"

definition sample_restarted :: lease_world where
  "sample_restarted =
    \<lparr>lw_time = 100, lw_boots = 1, lw_born = 100, lw_core = sample_lease_core,
     lw_ledger = ledger_from_validated sample_writer lease_config_default 6 0,
     lw_renewed = [1 \<mapsto> 0], lw_maps = {sample_writer_map}, lw_reader_maps = {}\<rparr>"

lemma fentries_fmempty [simp]: "fentries (fmempty :: ('k :: linorder, 'v) fmap) = []"
  by (simp add: fentries_def keys_list_def)

lemma fset_last_single: "fset_last {|a :: u64|} = Some a"
  by (simp add: fset_last_Some_iff)

lemma sample_live:
  "live_at (c\<lparr>lc_roster := {|sample_writer|}, lc_published := fmupd 1 0 fmempty,
    lc_granters := fmupd sample_writer 1 fmempty, lc_duration_ms := 2000, lc_margin_ms := 20\<rparr>) now \<longleftrightarrow> now < 1980"
proof -
  have "fset_list {|sample_writer|} = [sample_writer]" by (simp add: fset_list_def)
  then show ?thesis
    by (simp add: live_at_def serve_until_def confirmed_seq_def fset_last_single sat_add_def sat_sub_def)
qed

lemma sample_core_serving: "lease_peek sample_lease_core now = (if now < 1980 then Serving else Lapsed)"
  using sample_live [of sample_lease_core now]
  by (simp add: lease_peek_def sample_lease_core_def lease_core_from_validated_def sample_config_ms)

lemma sample_restarted_reachable: "sample_step\<^sup>*\<^sup>* sample_init sample_restarted"
proof -
  let ?x1 = "sample_init\<lparr>lw_core := pin sample_writer 5 (lw_core sample_init)\<rparr>"
  let ?c2 = "snd (on_renew 0 (lw_core ?x1))"
  let ?x2 = "?x1\<lparr>lw_core := ?c2, lw_renewed := [1 \<mapsto> 0]\<rparr>"
  let ?f = "ledger_fold 0 [(sample_reader, RenewalId 7 1)] (\<lambda>_ _. None) (lw_ledger ?x2)"
  let ?x3 = "?x2\<lparr>lw_ledger := snd ?f, lw_maps := {fst ?f}\<rparr>"
  let ?x4 = "?x3\<lparr>lw_core := observe_grant_map sample_writer (fst ?f) (lw_core ?x3)\<rparr>"
  let ?x5 = "?x4\<lparr>lw_core := snd (mark_caught_up 0 (lw_core ?x4))\<rparr>"
  let ?x6 = "?x5\<lparr>lw_time := 100\<rparr>"
  let ?x7 = "?x6\<lparr>lw_boots := Suc (lw_boots ?x6), lw_born := lw_time ?x6,
    lw_ledger := ledger_from_validated sample_writer lease_config_default 6
      (sample_writer_clock (Suc (lw_boots ?x6)) (lw_time ?x6))\<rparr>"
  have clock: "sample_clock 0 = 0" "sample_writer_clock k 0 = 0" for k
    by (simp_all add: sample_clock_def sample_writer_clock_def)
  have "sample_step sample_init ?x1" by (rule lease_world_step.pinned)
  moreover have "on_renew (sample_clock (lw_time ?x1)) (lw_core ?x1) = (RenewalId 7 1, ?c2)"
    "lc_next_seq (lw_core ?x1) < u64_max" "lw_renewed ?x1 = Map.empty" "lw_time ?x1 = 0"
    by (simp_all add: clock lease_world_init_def on_renew_def pin_def lease_core_from_validated_def Let_def
        word_less_nat_alt)
  then have "sample_step ?x1 ?x2"
    using lease_world_step.renew [of ?x1 sample_clock "RenewalId 7 1" ?c2] by simp
  moreover have "renewal_shown ?x2 (RenewalId 7 1)"
    by (simp add: renewal_shown_def lease_world_init_def on_renew_def pin_def lease_core_from_validated_def Let_def)
  then have "sample_step ?x2 ?x3"
    using lease_world_step.grant [of sample_reader "[(sample_reader, RenewalId 7 1)]" ?x2 sample_writer_clock
        "\<lambda>_ _. None" "fst ?f" "snd ?f" sample_clock lease_config_default sample_writer]
    by (simp add: clock lease_world_init_def)
  moreover have "sample_step ?x3 ?x4"
    by (rule lease_world_step.observe) (simp add: writer_map_shown_def)
  moreover have "sample_step ?x4 ?x5"
    using lease_world_step.affirm [of sample_clock sample_writer_clock lease_config_default sample_reader sample_writer ?x4]
    by (simp add: clock lease_world_init_def)
  moreover have "sample_step ?x5 ?x6"
    by (rule lease_world_step.pass) (simp add: lease_world_init_def)
  moreover have "sample_step ?x6 ?x7" by (rule lease_world_step.restart)
  ultimately have "sample_step\<^sup>*\<^sup>* sample_init ?x7"
    by (meson rtranclp.rtrancl_refl rtranclp.rtrancl_into_rtrancl)
  moreover have "fst ?f = sample_writer_map"
    by (simp add: sample_writer_map_def lease_world_init_def ledger_from_validated_def ledger_fold_def
        fold_reader_def first_seen_def reader_of_def reader_default_def reader_current_def grant_cap_def
        ledger_life_def Let_def)
  then have c4: "lw_core ?x4 = sample_lease_core\<lparr>lc_caught_up := False\<rparr>"
    by (simp add: sample_lease_core_def sample_writer_map_def lease_world_init_def pin_def on_renew_def
        lease_core_from_validated_def observe_grant_map_def drop_oldest.simps MAX_TRACKED_RENEWALS_def
        life_of_def life_stamp_def LIFE_LIVE_def Let_def sat_add_def fcard.rep_eq)
  have "live_at (lw_core ?x4) 0"
    using sample_live [of "sample_lease_core\<lparr>lc_caught_up := False\<rparr>" 0]
    unfolding c4 by (simp add: sample_lease_core_def lease_core_from_validated_def sample_config_ms)
  then have "snd (mark_caught_up 0 (lw_core ?x4)) = sample_lease_core"
    unfolding c4 by (simp add: mark_caught_up_def sample_lease_core_def lease_core_from_validated_def Let_def)
  with \<open>fst ?f = sample_writer_map\<close> have "?x7 = sample_restarted"
    by (simp add: sample_restarted_def lease_world_init_def sample_writer_clock_def sample_clock_def)
  ultimately show ?thesis by simp
qed

definition sample_reader_map :: grant_map where
  "sample_reader_map = life_stamp \<lparr>gl_epoch = 7, gl_departed = False\<rparr> sample_reader
    (fmupd sample_writer (RenewalId 6 1) fmempty)"

definition sample_lease_world :: lease_world where
  "sample_lease_world = sample_restarted
    \<lparr>lw_time := 2100,
     lw_ledger := (ledger_from_validated sample_writer lease_config_default 6 0)
       \<lparr>gd_readers := fmupd sample_reader
          \<lparr>rr_seen = Some (RenewalId 7 1, 50), rr_granted = None, rr_counts_me = Some 7, rr_departed = None\<rparr> fmempty,
        gd_inflight := fmupd (sample_writer, WriteToken 6 1) 0 fmempty\<rparr>,
     lw_maps := {life_stamp \<lparr>gl_epoch = 6, gl_departed = False\<rparr> sample_writer fmempty, sample_writer_map},
     lw_reader_maps := {sample_reader_map}\<rparr>"

lemma sample_lease_world_reachable: "sample_step\<^sup>*\<^sup>* sample_init sample_lease_world"
proof -
  let ?y0 = sample_restarted
  let ?y1 = "?y0\<lparr>lw_ledger := ledger_begin sample_writer (WriteToken 6 1)
    (sample_writer_clock (lw_boots ?y0) (lw_time ?y0)) (lw_ledger ?y0)\<rparr>"
  let ?y2 = "?y1\<lparr>lw_time := 150\<rparr>"
  let ?f = "ledger_fold 50 [(sample_reader, RenewalId 7 1)] (\<lambda>_ _. None) (lw_ledger ?y2)"
  let ?y3 = "?y2\<lparr>lw_ledger := snd ?f, lw_maps := insert (fst ?f) (lw_maps ?y2)\<rparr>"
  let ?y4 = "?y3\<lparr>lw_reader_maps := {sample_reader_map}\<rparr>"
  let ?y5 = "?y4\<lparr>lw_ledger := observe_reader_map sample_reader sample_reader_map (lw_ledger ?y4)\<rparr>"
  let ?y6 = "?y5\<lparr>lw_time := 2100\<rparr>"
  have clock: "sample_writer_clock (Suc 0) 150 = 50" "sample_writer_clock (Suc 0) 100 = 0"
    by (simp_all add: sample_writer_clock_def)
  have "sample_step ?y0 ?y1" by (rule lease_world_step.begin_write)
  moreover have "sample_step ?y1 ?y2" by (rule lease_world_step.pass) (simp add: sample_restarted_def)
  moreover have "renewal_shown ?y2 (RenewalId 7 1)"
    by (simp add: renewal_shown_def sample_restarted_def sample_lease_core_def lease_core_from_validated_def)
  then have "sample_step ?y2 ?y3"
    using lease_world_step.grant [of sample_reader "[(sample_reader, RenewalId 7 1)]" ?y2 sample_writer_clock
        "\<lambda>_ _. None" "fst ?f" "snd ?f" sample_clock lease_config_default sample_writer]
    by (simp add: clock sample_restarted_def)
  moreover have "reader_map_ok sample_reader ?y3 sample_reader_map"
    by (simp add: reader_map_ok_def sample_reader_map_def life_of_def life_stamp_def LIFE_LIVE_def)
  then have "sample_step ?y3 ?y4"
    using lease_world_step.advertise [of sample_reader ?y3 sample_reader_map sample_clock sample_writer_clock
        lease_config_default sample_writer]
    by (simp add: sample_restarted_def)
  moreover have "sample_step ?y4 ?y5"
    by (rule lease_world_step.hear) (simp add: reader_map_shown_def)
  moreover have "sample_step ?y5 ?y6"
    by (rule lease_world_step.pass) (simp add: sample_restarted_def)
  ultimately have "sample_step\<^sup>*\<^sup>* ?y0 ?y6"
    by (meson rtranclp.rtrancl_refl rtranclp.rtrancl_into_rtrancl)
  moreover have "?y6 = sample_lease_world"
    by (simp add: sample_lease_world_def sample_restarted_def ledger_from_validated_def ledger_begin_def clock
        ledger_fold_def fold_reader_def first_seen_def reader_of_def reader_default_def reader_current_def
        grant_cap_def behind_def fentries_def keys_list_def fset_list_def observe_reader_map_def ledger_life_def
        sample_reader_map_def life_stamp_def life_of_def LIFE_LIVE_def Let_def)
  ultimately show ?thesis using sample_restarted_reachable by simp
qed

theorem excused_reader_not_serving_witness:
  "lw_boots sample_lease_world = 1 \<and> sample_writer |\<in>| lc_roster (lw_core sample_lease_world) \<and>
    excusable_at (lw_ledger sample_lease_world) sample_reader = Some 2000 \<and>
    lease_peek (lw_core sample_lease_world) (sample_clock 1979) = Serving \<and>
    lease_peek (lw_core sample_lease_world) (sample_clock (lw_time sample_lease_world)) \<noteq> Serving"
proof -
  have boots: "lw_boots sample_lease_world = 1" and core: "lw_core sample_lease_world = sample_lease_core"
    by (simp_all add: sample_lease_world_def sample_restarted_def)
  have counts: "sample_writer |\<in>| lc_roster (lw_core sample_lease_world)"
    by (simp add: core sample_lease_core_def)
  have current: "departure_current (lw_ledger sample_lease_world) sample_reader (lc_epoch (lw_core sample_lease_world))"
    by (simp add: sample_lease_world_def departure_current_def reader_of_def)
  have excuse: "excusable_at (lw_ledger sample_lease_world) sample_reader = Some 2000"
    by (simp add: sample_lease_world_def excusable_at_def ledger_from_validated_def sample_config_ms)
  have late: "(2000 :: time) \<le> sample_writer_clock (lw_boots sample_lease_world) (lw_time sample_lease_world)"
    by (simp add: sample_lease_world_def sample_restarted_def sample_writer_clock_def)
  have serving: "lease_peek (lw_core sample_lease_world) (sample_clock 1979) = Serving"
    by (simp add: core sample_core_serving sample_clock_def)
  have "lease_peek (lw_core sample_lease_world) (sample_clock (lw_time sample_lease_world)) \<noteq> Serving"
    using excused_reader_not_serving [of sample_clock sample_writer_clock lease_config_default sample_reader
        sample_writer 7 5 0 sample_lease_world 2000] sample_clocks_ok sample_lease_world_reachable
      counts current excuse late
    by (simp add: sample_config_ms lease_world_reachable_def)
  with boots counts excuse serving show ?thesis by blast
qed


section \<open>Departures of earlier lives\<close>

text \<open>
  The proviso on departures is needed.  A writer that has restarted and knows only an earlier life of the
  reader, whose map declared its departure, excuses the reader at once, while the reader's current life
  serves on a grant of the writer's previous life.
\<close>

lemma stale_departure_excuses:
  obtains x where "sample_step\<^sup>*\<^sup>* sample_init x" "sample_writer |\<in>| lc_roster (lw_core x)"
    and "excusable_at (lw_ledger x) sample_reader = Some 0"
    and "lease_peek (lw_core x) (sample_clock (lw_time x)) = Serving"
proof -
  let ?y0 = sample_restarted
  let ?f = "ledger_fold 0 [(sample_reader, RenewalId 4 1)] (\<lambda>_ _. None) (lw_ledger ?y0)"
  let ?y1 = "?y0\<lparr>lw_ledger := snd ?f, lw_maps := insert (fst ?f) (lw_maps ?y0)\<rparr>"
  let ?m = "life_stamp \<lparr>gl_epoch = 4, gl_departed = True\<rparr> sample_reader fmempty"
  let ?y2 = "?y1\<lparr>lw_ledger := observe_reader_map sample_reader ?m (lw_ledger ?y1)\<rparr>"
  have "renewal_shown ?y0 (RenewalId 4 1)"
    by (simp add: renewal_shown_def sample_restarted_def sample_lease_core_def lease_core_from_validated_def)
  then have "sample_step ?y0 ?y1"
    using lease_world_step.grant [of sample_reader "[(sample_reader, RenewalId 4 1)]" ?y0 sample_writer_clock
        "\<lambda>_ _. None" "fst ?f" "snd ?f" sample_clock lease_config_default sample_writer]
    by (simp add: sample_restarted_def sample_writer_clock_def)
  moreover have life: "life_of sample_reader ?m = Some \<lparr>gl_epoch = 4, gl_departed = True\<rparr>"
    by (simp add: life_of_def life_stamp_def LIFE_LIVE_def LIFE_DEPARTED_def)
  then have "sample_step ?y1 ?y2"
    by (intro lease_world_step.hear)
      (simp add: reader_map_shown_def sample_restarted_def sample_lease_core_def lease_core_from_validated_def)
  ultimately have "sample_step\<^sup>*\<^sup>* sample_init ?y2"
    using sample_restarted_reachable by (meson rtranclp.rtrancl_into_rtrancl)
  moreover have "sample_writer |\<in>| lc_roster (lw_core ?y2)"
    by (simp add: sample_restarted_def sample_lease_core_def)
  moreover have "excusable_at (lw_ledger ?y2) sample_reader = Some 0"
    using life by (simp add: sample_restarted_def ledger_from_validated_def ledger_fold_def fold_reader_def
        first_seen_def reader_of_def reader_default_def reader_current_def grant_cap_def observe_reader_map_def
        excusable_at_def Let_def)
  moreover have "lease_peek (lw_core ?y2) (sample_clock (lw_time ?y2)) = Serving"
    by (simp add: sample_restarted_def sample_core_serving sample_clock_def)
  ultimately show thesis by (rule that)
qed

end
