(* ===== verification/Write_Feed.thy ===== *)
theory Write_Feed
  imports Group_View
begin

text \<open>
  The session tier of \<open>crates/groupnet-consistency/src\<close>: a writer's feed, a ring of its recent writes
  gossiped as one entry (\<open>feed.rs\<close>), the subscriber that turns the frames it sees into ordered events
  (\<open>peers.rs\<close>), the applied frontier (\<open>frontier.rs\<close>), the acknowledgement ledger (\<open>acks.rs\<close>) and the
  sequence floors (\<open>floor.rs\<close>).  The group handle appears as the snapshot of entries its reads see, and
  as the answer of the actor's inbox to an enqueued write.

  The lemmas show which window onto the history of its writes a ring always is, and that a subscriber
  fed any of a writer's frames, in any order, accounts for every write it passes.
\<close>


section \<open>The group handle\<close>

datatype entry_write = SetEntry str bytes "u64 option" | DeleteEntry str

datatype command_rejected = InboxFull | GroupClosed

definition PUBLISH_RETRIES :: nat where
  "PUBLISH_RETRIES = 8"

text \<open>
  \<open>enqueue\<close> retries a refused write; \<open>answers n\<close> is what the \<open>n\<close>-th attempt from here is told, \<open>None\<close>
  being success.
\<close>

function enqueue_from :: "nat \<Rightarrow> (nat \<Rightarrow> command_rejected option) \<Rightarrow> command_rejected option" where
  "enqueue_from attempt answers =
    (case answers attempt of
       None \<Rightarrow> None
     | Some rejected \<Rightarrow>
         if PUBLISH_RETRIES \<le> attempt then Some rejected else enqueue_from (attempt + 1) answers)"
  by pat_completeness auto
termination
  by (relation "measure (\<lambda>(attempt, _). PUBLISH_RETRIES - attempt)") auto

declare enqueue_from.simps [simp del]

definition enqueue :: "(nat \<Rightarrow> command_rejected option) \<Rightarrow> command_rejected option" where
  "enqueue answers = enqueue_from 1 answers"


section \<open>The ring\<close>

record ring =
  rg_epoch :: u64
  rg_first_seq :: u64
  rg_keys :: "bytes list"
  rg_capacity :: u64
  rg_max_frame_bytes :: u64
  rg_encoded_keys_bytes :: u64
  rg_sealed :: bool

definition ring_new :: "u64 \<Rightarrow> u64 \<Rightarrow> u64 \<Rightarrow> ring" where
  "ring_new epoch capacity max_frame_bytes =
    \<lparr>rg_epoch = epoch, rg_first_seq = 1, rg_keys = [], rg_capacity = capacity,
     rg_max_frame_bytes = max_frame_bytes, rg_encoded_keys_bytes = 0, rg_sealed = False\<rparr>"

definition key_cost :: "bytes \<Rightarrow> u64" where
  "key_cost key = sat_add 4 (of_nat (length key))"

definition ring_encoded_len :: "ring \<Rightarrow> u64" where
  "ring_encoded_len r = sat_add 21 (rg_encoded_keys_bytes r)"

definition ring_pop :: "ring \<Rightarrow> ring" where
  "ring_pop r = (case rg_keys r of
      [] \<Rightarrow> r
    | removed # rest \<Rightarrow>
        r\<lparr>rg_keys := rest,
          rg_encoded_keys_bytes := sat_sub (rg_encoded_keys_bytes r) (key_cost removed),
          rg_first_seq := rg_first_seq r + 1\<rparr>)"

function ring_trim :: "ring \<Rightarrow> ring" where
  "ring_trim r = (
    if rg_keys r \<noteq> [] \<and>
       (unat (rg_capacity r) < length (rg_keys r) \<or>
        1 < length (rg_keys r) \<and> rg_max_frame_bytes r < ring_encoded_len r)
    then ring_trim (ring_pop r) else r)"
  by pat_completeness auto
termination
  by (relation "measure (length \<circ> rg_keys)") (auto simp: ring_pop_def split: list.splits)

declare ring_trim.simps [simp del]

definition ring_push :: "ring \<Rightarrow> bytes \<Rightarrow> ring" where
  "ring_push r key = ring_trim
    (r\<lparr>rg_encoded_keys_bytes := sat_add (rg_encoded_keys_bytes r) (key_cost key),
       rg_keys := rg_keys r @ [key]\<rparr>)"

function ring_retire_loop :: "ring \<Rightarrow> u64 \<Rightarrow> ring" where
  "ring_retire_loop r seq = (
    if 1 < length (rg_keys r) \<and> rg_first_seq r \<le> seq then ring_retire_loop (ring_pop r) seq else r)"
  by pat_completeness auto
termination
  by (relation "measure (length \<circ> rg_keys \<circ> fst)") (auto simp: ring_pop_def split: list.splits)

declare ring_retire_loop.simps [simp del]

definition ring_retire_through :: "ring \<Rightarrow> write_token \<Rightarrow> bool \<times> ring" where
  "ring_retire_through r token = (
    if tok_epoch token \<noteq> rg_epoch r \<or> length (rg_keys r) \<le> 1 \<or> tok_seq token < rg_first_seq r
    then (False, r) else (True, ring_retire_loop r (tok_seq token)))"

definition ring_frame :: "ring \<Rightarrow> feed_frame" where
  "ring_frame r = \<lparr>ff_epoch = rg_epoch r, ff_first_seq = rg_first_seq r, ff_keys = rg_keys r,
    ff_sealed = rg_sealed r\<rparr>"


section \<open>The feed\<close>

text \<open>
  An operation returns the ring and what it was told; what it advertises afterwards is the frame of
  the ring it returns.
\<close>

datatype publish_error = FeedSealed | Unadvertised write_token command_rejected

definition feed_next :: "ring \<Rightarrow> write_token" where
  "feed_next r = WriteToken (rg_epoch r) (rg_first_seq r + of_nat (length (rg_keys r)))"

definition feed_last_token :: "ring \<Rightarrow> write_token option" where
  "feed_last_token r = (
    if rg_keys r = [] then None
    else Some (WriteToken (rg_epoch r) (rg_first_seq r + of_nat (length (rg_keys r)) - 1)))"

definition feed_publish ::
    "(nat \<Rightarrow> command_rejected option) \<Rightarrow> bytes \<Rightarrow> ring \<Rightarrow> (publish_error + write_token) \<times> ring" where
  "feed_publish answers key r = (
    if rg_sealed r then (Inl FeedSealed, r)
    else (case enqueue answers of
        None \<Rightarrow> Inr (feed_next r)
      | Some cause \<Rightarrow> Inl (Unadvertised (feed_next r) cause), ring_push r key))"

definition feed_seal ::
    "(nat \<Rightarrow> command_rejected option) \<Rightarrow> ring \<Rightarrow> (publish_error + write_token) \<times> ring" where
  "feed_seal answers r =
    (case enqueue answers of
       None \<Rightarrow> Inr (feed_next r)
     | Some cause \<Rightarrow> Inl (Unadvertised (feed_next r) cause), r\<lparr>rg_sealed := True\<rparr>)"

definition feed_retire ::
    "(nat \<Rightarrow> command_rejected option) \<Rightarrow> write_token \<Rightarrow> ring \<Rightarrow> command_rejected option \<times> ring" where
  "feed_retire answers token r =
    (let (changed, r') = ring_retire_through r token in
     (if changed then enqueue answers else None, r'))"


section \<open>The subscriber\<close>

datatype 'k peer_write =
    Wrote node_id write_token 'k
  | Gap node_id write_token
  | Sealed node_id write_token
  | Renewed node_id write_token u64

record cursor =
  cur_epoch :: u64
  cur_next :: u64
  cur_sealed :: bool

definition attached :: "feed_frame \<Rightarrow> cursor" where
  "attached frame = \<lparr>cur_epoch = ff_epoch frame,
    cur_next = feed_end frame + (if ff_sealed frame then 1 else 0), cur_sealed = ff_sealed frame\<rparr>"

definition checked_head_at :: "bytes option \<Rightarrow> unit + write_token option" where
  "checked_head_at entry = (case entry of
      None \<Rightarrow> Inr None
    | Some bs \<Rightarrow> (case feed_decode bs of
        None \<Rightarrow> Inl ()
      | Some frame \<Rightarrow> (case u64_checked_add (ff_first_seq frame) (of_nat (length (ff_keys frame))) of
          None \<Rightarrow> Inl ()
        | Some fin \<Rightarrow>
            if fin \<noteq> 0 \<and> ff_first_seq frame \<le> fin - 1
            then Inr (Some (WriteToken (ff_epoch frame) (fin - 1))) else Inr None)))"

text \<open>
  The delivery loop.  The index is within the window because \<open>reconcile\<close> enters it with \<open>next\<close> at or
  past the first position of the frame.
\<close>

function deliver ::
    "node_id \<Rightarrow> (bytes \<Rightarrow> 'k option) \<Rightarrow> feed_frame \<Rightarrow> u64 \<Rightarrow> 'k peer_write list \<Rightarrow>
      u64 \<times> 'k peer_write list" where
  "deliver node dec frame nxt pending = (
    if nxt < feed_end frame then
      deliver node dec frame (nxt + 1)
        (case dec (ff_keys frame ! unat (nxt - ff_first_seq frame)) of
           Some key \<Rightarrow> pending @ [Wrote node (WriteToken (ff_epoch frame) nxt) key]
         | None \<Rightarrow> pending)
    else (nxt, pending))"
  by pat_completeness auto

lemma u64_succ_less: "(a :: u64) < b \<Longrightarrow> unat (a + 1) = Suc (unat a)"
  using unat_u64_bound [of b] by (simp add: word_less_nat_alt unat_word_ariths)

termination deliver
  by (relation "measure (\<lambda>(_, _, frame, nxt, _). unat (feed_end frame) - unat nxt)")
    (auto simp: u64_succ_less word_less_nat_alt)

declare deliver.simps [simp del]

definition deliver_rest ::
    "node_id \<Rightarrow> (bytes \<Rightarrow> 'k option) \<Rightarrow> feed_frame \<Rightarrow> cursor \<Rightarrow> 'k peer_write list \<Rightarrow>
      cursor \<times> 'k peer_write list" where
  "deliver_rest node dec frame cursor pending =
    (let (nxt, pending) = deliver node dec frame (cur_next cursor) pending in
     if ff_sealed frame \<and> nxt = feed_end frame
     then (cursor\<lparr>cur_next := nxt + 1, cur_sealed := True\<rparr>,
           pending @ [Sealed node (WriteToken (ff_epoch frame) nxt)])
     else (cursor\<lparr>cur_next := nxt\<rparr>, pending))"

definition reconcile ::
    "node_id \<Rightarrow> (bytes \<Rightarrow> 'k option) \<Rightarrow> feed_frame \<Rightarrow> cursor \<times> 'k peer_write list \<Rightarrow>
      u64 \<times> cursor \<times> 'k peer_write list" where
  "reconcile node dec frame st = (case st of (cursor, pending) \<Rightarrow>
    let gap = Gap node (WriteToken (ff_epoch frame) (sat_sub (ff_first_seq frame) 1)) in
    if ff_epoch frame < cur_epoch cursor then (0, cursor, pending)
    else if cur_epoch cursor < ff_epoch frame then
      (let fresh = \<lparr>cur_epoch = ff_epoch frame, cur_next = ff_first_seq frame, cur_sealed = False\<rparr> in
       if cur_sealed cursor \<and> ff_first_seq frame = 1
       then (0, deliver_rest node dec frame fresh
         (pending @ [Renewed node (WriteToken (cur_epoch cursor) (cur_next cursor - 1)) (ff_epoch frame)]))
       else (1, deliver_rest node dec frame fresh (pending @ [gap])))
    else if cur_sealed cursor then (0, cursor, pending)
    else if cur_next cursor < ff_first_seq frame
    then (1, deliver_rest node dec frame (cursor\<lparr>cur_next := ff_first_seq frame\<rparr>) (pending @ [gap]))
    else (0, deliver_rest node dec frame cursor pending))"

record 'k peer_writes =
  pw_me :: node_id
  pw_key :: str
  pw_cursors :: "(node_id, cursor) fmap"
  pw_pending :: "'k peer_write list"
  pw_gaps_seen :: u64

definition frame_at :: "entries_view \<Rightarrow> node_id \<Rightarrow> str \<Rightarrow> feed_frame option" where
  "frame_at view node key = do { bs \<leftarrow> view_node_entry view node key; feed_decode bs }"

definition peer_writes_new :: "entries_view \<Rightarrow> node_id \<Rightarrow> str \<Rightarrow> 'k peer_writes" where
  "peer_writes_new view me key =
    \<lparr>pw_me = me, pw_key = key,
     pw_cursors = fmap_of_list (List.map_filter
       (\<lambda>node. if node = me then None
               else map_option (\<lambda>frame. (node, attached frame)) (frame_at view node key))
       (keys_list view)),
     pw_pending = [], pw_gaps_seen = 0\<rparr>"

definition pw_lag :: "entries_view \<Rightarrow> 'k peer_writes \<Rightarrow> node_id \<Rightarrow> u64 option" where
  "pw_lag view pw peer = do {
    frame \<leftarrow> frame_at view peer (pw_key pw);
    Some (case fmlookup (pw_cursors pw) peer of
        Some c \<Rightarrow> if cur_epoch c = ff_epoch frame then sat_sub (feed_end frame) (cur_next c)
                  else sat_sub (feed_end frame) (ff_first_seq frame)
      | None \<Rightarrow> sat_sub (feed_end frame) (ff_first_seq frame))
  }"

definition pw_scan ::
    "(bytes \<Rightarrow> 'k option) \<Rightarrow> entries_view \<Rightarrow> node_id \<Rightarrow> 'k peer_writes \<Rightarrow> 'k peer_writes" where
  "pw_scan dec view node pw = (case frame_at view node (pw_key pw) of
      None \<Rightarrow> pw
    | Some frame \<Rightarrow>
        (let cursor = (case fmlookup (pw_cursors pw) node of
               Some c \<Rightarrow> c
             | None \<Rightarrow> \<lparr>cur_epoch = ff_epoch frame, cur_next = ff_first_seq frame, cur_sealed = False\<rparr>);
             (gaps, cursor', pending) = reconcile node dec frame (cursor, pw_pending pw) in
         pw\<lparr>pw_cursors := fmupd node cursor' (pw_cursors pw), pw_pending := pending,
            pw_gaps_seen := pw_gaps_seen pw + gaps\<rparr>))"

definition pw_scan_all ::
    "(bytes \<Rightarrow> 'k option) \<Rightarrow> entries_view \<Rightarrow> node_id list \<Rightarrow> 'k peer_writes \<Rightarrow> 'k peer_writes" where
  "pw_scan_all dec view roster pw =
    fold (\<lambda>node pw. if node \<noteq> pw_me pw then pw_scan dec view node pw else pw) roster pw"

text \<open>What the event stream delivers, as far as a subscriber tells events apart.\<close>

datatype group_event = EdgeNodeState node_id str | EdgeMembership | Lagged | OtherEvent | Closed

text \<open>
  One turn of \<open>next\<close>: a pending event is returned first; otherwise one event of the stream is taken
  and the turn ends without an answer, unless the stream is closed.
\<close>

datatype 'k pw_turn = Event "'k peer_write" | Again | Ended

definition pw_next ::
    "(bytes \<Rightarrow> 'k option) \<Rightarrow> entries_view \<Rightarrow> node_id list \<Rightarrow> group_event \<Rightarrow> 'k peer_writes \<Rightarrow>
      'k pw_turn \<times> 'k peer_writes" where
  "pw_next dec view roster event pw = (case pw_pending pw of
      e # rest \<Rightarrow> (Event e, pw\<lparr>pw_pending := rest\<rparr>)
    | [] \<Rightarrow> (case event of
        EdgeNodeState node key \<Rightarrow>
          if key = pw_key pw \<and> node \<noteq> pw_me pw then (Again, pw_scan dec view node pw) else (Again, pw)
      | Lagged \<Rightarrow> (Again, pw_scan_all dec view roster pw)
      | EdgeMembership \<Rightarrow> (Again, pw_scan_all dec view roster pw)
      | OtherEvent \<Rightarrow> (Again, pw)
      | Closed \<Rightarrow> (Ended, pw)))"


section \<open>Frontier, acknowledgements, floors\<close>

type_synonym applied = "(node_id, write_token) fmap"

definition watermark :: "applied \<Rightarrow> node_id \<Rightarrow> write_token" where
  "watermark a peer = (case fmlookup a peer of Some t \<Rightarrow> t | None \<Rightarrow> WriteToken 0 0)"

definition frontier_advance :: "node_id \<Rightarrow> write_token \<Rightarrow> applied \<Rightarrow> applied" where
  "frontier_advance peer token a =
    fmupd peer (if watermark a peer < token then token else watermark a peer) a"

definition frontier_reached :: "applied \<Rightarrow> node_id \<Rightarrow> write_token \<Rightarrow> bool" where
  "frontier_reached a peer token \<longleftrightarrow>
    (case fmlookup a peer of Some t \<Rightarrow> token \<le> t | None \<Rightarrow> False)"

datatype recorded = Advanced | Covered

definition ack_record ::
    "(nat \<Rightarrow> command_rejected option) \<Rightarrow> node_id \<Rightarrow> write_token \<Rightarrow> applied \<Rightarrow>
      (command_rejected + recorded) \<times> applied" where
  "ack_record answers writer token a = (
    if token \<le> watermark a writer then (Inr Covered, fmupd writer (watermark a writer) a)
    else (case enqueue answers of None \<Rightarrow> Inr Advanced | Some cause \<Rightarrow> Inl cause,
          fmupd writer token a))"

definition applied_by :: "entries_view \<Rightarrow> node_id \<Rightarrow> node_id \<Rightarrow> write_token option" where
  "applied_by view member writer = do {
    bs \<leftarrow> view_node_entry view member ACK_KEY;
    decode_one bs (as_str writer)
  }"

definition fold_max :: "(str, u64) fmap \<Rightarrow> str \<Rightarrow> u64 \<Rightarrow> u64 \<times> (str, u64) fmap" where
  "fold_max published key seq_floor = (case fmlookup published key of
      Some current \<Rightarrow> (max current seq_floor, fmupd key (max current seq_floor) published)
    | None \<Rightarrow> (seq_floor, fmupd key seq_floor published))"

definition FLOOR_KEY :: str where
  "FLOOR_KEY = ascii ''~floor''"

definition floor_encode :: "u64 \<Rightarrow> bytes" where
  "floor_encode seq_floor = to_le_bytes 8 seq_floor"

definition floor_decode :: "bytes \<Rightarrow> u64 option" where
  "floor_decode bs = (if length bs = 8 then Some (from_le_bytes bs) else None)"

definition floor_of :: "entries_view \<Rightarrow> str \<Rightarrow> node_id \<Rightarrow> str \<Rightarrow> u64 option" where
  "floor_of view prefix node key = do { bs \<leftarrow> view_node_entry view node (prefix @ key); floor_decode bs }"

definition floors_for :: "entries_view \<Rightarrow> str \<Rightarrow> node_id list \<Rightarrow> str \<Rightarrow> (node_id \<times> u64) list" where
  "floors_for view prefix roster key = List.map_filter
    (\<lambda>node. map_option (\<lambda>seq_floor. (node, seq_floor)) (floor_of view prefix node key)) roster"

record seq_floors =
  sf_prefix :: str
  sf_ttl_ms :: u64
  sf_published :: "(str, u64) fmap"

text \<open>A duration is its count of nanoseconds; \<open>Inl\<close> is the refusal of one under a millisecond.\<close>

definition floors_build :: "str option \<Rightarrow> nat \<Rightarrow> nat + seq_floors" where
  "floors_build set_name ttl =
    (let ms = ttl div 1000000; ttl_ms = (if ms < 2 ^ 64 then of_nat ms else u64_max) in
     if ttl_ms = 0 then Inl ttl
     else Inr \<lparr>sf_prefix = set_prefix FLOOR_KEY set_name, sf_ttl_ms = ttl_ms, sf_published = fmempty\<rparr>)"

definition floors_publish :: "str \<Rightarrow> u64 \<Rightarrow> seq_floors \<Rightarrow> entry_write \<times> seq_floors" where
  "floors_publish key seq_floor f =
    (let (value, published) = fold_max (sf_published f) key seq_floor in
     (SetEntry (sf_prefix f @ key) (floor_encode value) (Some (sf_ttl_ms f)), f\<lparr>sf_published := published\<rparr>))"


section \<open>Waiting for acknowledgements\<close>

datatype ack_basis = AliveMembers | AliveSelected | FixedRoster

record ack_outcome =
  ao_basis :: ack_basis
  ao_selected :: "node_id list"
  ao_acknowledged :: "node_id list"
  ao_missing :: "node_id list"
  ao_skipped :: "node_id list"

definition ack_is_complete :: "ack_outcome \<Rightarrow> bool" where
  "ack_is_complete o' \<longleftrightarrow> ao_missing o' = []"

definition ack_is_vacuous :: "ack_outcome \<Rightarrow> bool" where
  "ack_is_vacuous o' \<longleftrightarrow> ao_selected o' = []"

definition ack_empty :: "ack_basis \<Rightarrow> ack_outcome" where
  "ack_empty basis =
    \<lparr>ao_basis = basis, ao_selected = [], ao_acknowledged = [], ao_missing = [], ao_skipped = []\<rparr>"

definition ack_count ::
    "entries_view \<Rightarrow> node_id \<Rightarrow> write_token \<Rightarrow> node_id \<Rightarrow> ack_outcome \<Rightarrow> ack_outcome" where
  "ack_count view writer token member o' =
    (let o' = (case applied_by view member writer of
         Some t \<Rightarrow> if token \<le> t then o'\<lparr>ao_acknowledged := ao_acknowledged o' @ [member]\<rparr>
                   else o'\<lparr>ao_missing := ao_missing o' @ [member]\<rparr>
       | None \<Rightarrow> o'\<lparr>ao_missing := ao_missing o' @ [member]\<rparr>) in
     o'\<lparr>ao_selected := ao_selected o' @ [member]\<rparr>)"

definition alive_outcome ::
    "group_view \<Rightarrow> node_id \<Rightarrow> write_token \<Rightarrow> ack_basis \<Rightarrow> (node_id \<Rightarrow> bool) \<Rightarrow> ack_outcome" where
  "alive_outcome view writer token basis include = fold (\<lambda>(member, status) o'.
      if member = writer \<or> status \<noteq> Alive then o'
      else if include member then ack_count (gv_entries view) writer token member o'
      else o'\<lparr>ao_skipped := ao_skipped o' @ [member]\<rparr>)
    (sort_key fst (view_statuses view)) (ack_empty basis)"

definition roster_outcome ::
    "group_view \<Rightarrow> node_id \<Rightarrow> write_token \<Rightarrow> node_id list \<Rightarrow> ack_outcome" where
  "roster_outcome view writer token roster =
    fold (ack_count (gv_entries view) writer token)
      (remdups_adj (sort (filter (\<lambda>m. m \<noteq> writer) roster))) (ack_empty FixedRoster)"

text \<open>
  The polls of one wait: each is the outcome at that instant and whether the deadline has passed by
  then; \<open>None\<close> means that the wait goes on past them.
\<close>

fun ack_poll :: "(ack_outcome \<times> bool) list \<Rightarrow> ack_outcome option" where
  "ack_poll [] = None"
| "ack_poll ((outcome, passed) # rest) =
     (if ack_is_complete outcome \<or> passed then Some outcome else ack_poll rest)"


section \<open>A ring is a window onto its history\<close>

text \<open>
  The history of a life is the list of all its writes; position \<open>n\<close> of the feed is element \<open>n - 1\<close>.
  \<open>ring_ok h r\<close> says that the ring holds the writes of \<open>h\<close> from its first position on, and at least
  the newest one.
\<close>

definition ring_ok :: "bytes list \<Rightarrow> ring \<Rightarrow> bool" where
  "ring_ok h r \<longleftrightarrow> (\<exists>i \<le> length h. unat (rg_first_seq r) = Suc i \<and> rg_keys r = drop i h) \<and>
    (h \<noteq> [] \<longrightarrow> rg_keys r \<noteq> []) \<and> length h + 2 < 2 ^ 64 \<and> rg_capacity r \<noteq> 0"

lemma ring_pop_Cons:
  "rg_keys r = removed # rest \<Longrightarrow> ring_pop r =
    r\<lparr>rg_keys := rest, rg_encoded_keys_bytes := sat_sub (rg_encoded_keys_bytes r) (key_cost removed),
      rg_first_seq := rg_first_seq r + 1\<rparr>"
  by (simp add: ring_pop_def)

lemma ring_pop_frame [simp]:
  "rg_epoch (ring_pop r) = rg_epoch r" "rg_sealed (ring_pop r) = rg_sealed r"
  by (simp_all add: ring_pop_def split: list.split)

lemma ring_pop_ok:
  assumes ok: "ring_ok h r" and len: "1 < length (rg_keys r)"
  shows "ring_ok h (ring_pop r)"
proof -
  obtain removed rest where keys: "rg_keys r = removed # rest" and rest: "rest \<noteq> []"
    using len by (cases "rg_keys r") auto
  obtain i where i: "i \<le> length h" "unat (rg_first_seq r) = Suc i" "rg_keys r = drop i h"
    using ok by (auto simp: ring_ok_def)
  have lt: "i < length h" using keys i by (cases "i = length h") auto
  then have "unat (rg_first_seq r + 1) = Suc (Suc i)"
    using ok i by (simp add: ring_ok_def unat_word_ariths)
  moreover have "rest = drop (Suc i) h" using keys i by (metis drop_Suc list.sel(3) tl_drop)
  ultimately show ?thesis
    unfolding ring_pop_Cons [OF keys] using ok lt rest by (auto simp: ring_ok_def)
qed

lemma ring_trim_ok: "ring_ok h r \<Longrightarrow> ring_ok h (ring_trim r)"
proof (induction r rule: ring_trim.induct)
  case (1 r)
  show ?case
  proof (cases "rg_keys r \<noteq> [] \<and> (unat (rg_capacity r) < length (rg_keys r) \<or>
      1 < length (rg_keys r) \<and> rg_max_frame_bytes r < ring_encoded_len r)")
    case True
    have "0 < unat (rg_capacity r)" using "1.prems" by (simp add: ring_ok_def unat_gt_0)
    with True have "1 < length (rg_keys r)" by auto
    with 1 True show ?thesis by (subst ring_trim.simps) (simp add: ring_pop_ok)
  next
    case False
    then show ?thesis using "1.prems" by (subst ring_trim.simps) auto
  qed
qed

lemma ring_trim_frame [simp]:
  "rg_epoch (ring_trim r) = rg_epoch r" "rg_sealed (ring_trim r) = rg_sealed r"
  by (induction r rule: ring_trim.induct) (subst ring_trim.simps, simp)+

lemma ring_push_ok:
  assumes "ring_ok h r" "length h + 3 < 2 ^ 64"
  shows "ring_ok (h @ [key]) (ring_push r key)"
  unfolding ring_push_def using assms by (intro ring_trim_ok) (auto simp: ring_ok_def)

lemma ring_retire_loop_ok: "ring_ok h r \<Longrightarrow> ring_ok h (ring_retire_loop r seq)"
proof (induction r seq rule: ring_retire_loop.induct)
  case (1 r seq)
  then show ?case by (subst ring_retire_loop.simps) (simp add: ring_pop_ok)
qed

lemma ring_retire_loop_frame [simp]:
  "rg_epoch (ring_retire_loop r seq) = rg_epoch r" "rg_sealed (ring_retire_loop r seq) = rg_sealed r"
  by (induction r seq rule: ring_retire_loop.induct) (subst ring_retire_loop.simps, simp)+

text \<open>
  A frame of a life with history \<open>h\<close>: the window the ring had when the life had made \<open>n\<close> writes.  A
  sealed frame shows the end of the whole history.
\<close>

definition frame_of :: "bytes list \<Rightarrow> bool \<Rightarrow> feed_frame \<Rightarrow> bool" where
  "frame_of h ended f \<longleftrightarrow> length h + 2 < 2 ^ 64 \<and> (\<exists>i n. i \<le> n \<and> n \<le> length h \<and> (n = 0 \<or> i < n) \<and>
    unat (ff_first_seq f) = Suc i \<and> ff_keys f = drop i (take n h) \<and>
    (ff_sealed f \<longrightarrow> ended \<and> n = length h))"

lemma frame_of_end:
  assumes "frame_of h ended f"
  obtains i n where "i \<le> n" "n \<le> length h" "n = 0 \<or> i < n" "unat (ff_first_seq f) = Suc i"
    "ff_keys f = drop i (take n h)" "unat (feed_end f) = Suc n"
    "ff_sealed f \<longrightarrow> ended \<and> n = length h" "length h + 2 < 2 ^ 64"
proof -
  from assms obtain i n where n: "i \<le> n" "n \<le> length h" "n = 0 \<or> i < n"
    "unat (ff_first_seq f) = Suc i" "ff_keys f = drop i (take n h)"
    "ff_sealed f \<longrightarrow> ended \<and> n = length h" and len: "length h + 2 < 2 ^ 64"
    by (auto simp: frame_of_def)
  have "length (ff_keys f) = n - i" using n by simp
  moreover have "unat (of_nat (length (ff_keys f)) :: u64) = length (ff_keys f)"
    using n len by (intro unat_of_nat_u64) simp
  ultimately have "unat (feed_end f) = (Suc i + (n - i)) mod 2 ^ 64"
    unfolding feed_end_def unat_word_ariths(1) n(4) by simp
  then have "unat (feed_end f) = Suc n" using n len by simp
  with n len show thesis using that by blast
qed

lemma ring_frame_of:
  assumes "ring_ok h r"
  shows "frame_of h (rg_sealed r) (ring_frame r)"
proof -
  obtain i where i: "i \<le> length h" "unat (rg_first_seq r) = Suc i" "rg_keys r = drop i h"
    using assms by (auto simp: ring_ok_def)
  then have "length h = 0 \<or> i < length h" using assms by (cases "h = []") (auto simp: ring_ok_def)
  with assms i show ?thesis
    by (auto simp: frame_of_def ring_frame_def ring_ok_def intro!: exI [of _ i] exI [of _ "length h"])
qed

lemma frame_of_append:
  assumes "frame_of h False f" "length h + length h' + 2 < 2 ^ 64"
  shows "frame_of (h @ h') ended f"
proof -
  from assms(1) obtain i n where "i \<le> n" "n \<le> length h" "n = 0 \<or> i < n"
    "unat (ff_first_seq f) = Suc i" "ff_keys f = drop i (take n h)" "\<not> ff_sealed f"
    by (auto simp: frame_of_def)
  with assms(2) show ?thesis by (auto simp: frame_of_def intro!: exI [of _ i] exI [of _ n])
qed


text \<open>The life of a feed: the rings it goes through and the history it leaves.\<close>

datatype feed_op = Publish bytes | SealFeed | Retire write_token

fun feed_step :: "feed_op \<Rightarrow> ring \<Rightarrow> ring" where
  "feed_step (Publish key) r = snd (feed_publish (\<lambda>_. None) key r)"
| "feed_step SealFeed r = snd (feed_seal (\<lambda>_. None) r)"
| "feed_step (Retire token) r = snd (feed_retire (\<lambda>_. None) token r)"

fun feed_run :: "feed_op list \<Rightarrow> ring \<Rightarrow> ring list" where
  "feed_run [] r = [r]"
| "feed_run (op # ops) r = r # feed_run ops (feed_step op r)"

fun feed_history :: "bool \<Rightarrow> feed_op list \<Rightarrow> bytes list" where
  "feed_history sealed [] = []"
| "feed_history sealed (Publish key # ops) = (if sealed then [] else [key]) @ feed_history sealed ops"
| "feed_history sealed (SealFeed # ops) = feed_history True ops"
| "feed_history sealed (Retire _ # ops) = feed_history sealed ops"

lemma feed_history_sealed [simp]: "feed_history True ops = []"
  by (induction True ops rule: feed_history.induct) auto

lemma length_feed_history: "length (feed_history sealed ops) \<le> length ops"
  by (induction sealed ops rule: feed_history.induct) auto

lemma ring_sealed_ok [simp]: "ring_ok h (r\<lparr>rg_sealed := b\<rparr>) \<longleftrightarrow> ring_ok h r"
  by (simp add: ring_ok_def)

lemma enqueue_accepted [simp]: "enqueue (\<lambda>_. None) = None"
  by (simp add: enqueue_def enqueue_from.simps)

lemma feed_step_cases:
  "feed_step (Publish key) r = (if rg_sealed r then r else ring_push r key)"
  "feed_step SealFeed r = r\<lparr>rg_sealed := True\<rparr>"
  "feed_step (Retire token) r = r \<or> feed_step (Retire token) r = ring_retire_loop r (tok_seq token)"
  by (simp_all add: feed_publish_def feed_seal_def feed_retire_def ring_retire_through_def)

lemma ring_push_frame [simp]:
  "rg_epoch (ring_push r key) = rg_epoch r" "rg_sealed (ring_push r key) = rg_sealed r"
  by (simp_all add: ring_push_def)

lemma feed_step_ok:
  assumes "ring_ok h r" "length h + 3 < 2 ^ 64"
  shows "ring_ok (h @ feed_history (rg_sealed r) [op]) (feed_step op r) \<and>
    (rg_sealed (feed_step op r) \<longleftrightarrow> rg_sealed r \<or> op = SealFeed)"
proof (cases op)
  case (Publish key)
  with assms show ?thesis by (simp add: feed_step_cases(1) ring_push_ok del: feed_step.simps)
next
  case SealFeed
  with assms show ?thesis by (simp add: feed_step_cases(2) del: feed_step.simps)
next
  case (Retire token)
  with assms feed_step_cases(3) [of token r] ring_retire_loop_ok [of h r] show ?thesis
    by (auto simp del: feed_step.simps)
qed

lemma feed_history_Cons:
  "feed_history sealed (op # ops) = feed_history sealed [op] @ feed_history (sealed \<or> op = SealFeed) ops"
  by (cases op) auto

lemma feed_run_frames:
  "ring_ok h r \<Longrightarrow> length h + length ops + 2 < 2 ^ 64 \<Longrightarrow> r' \<in> set (feed_run ops r) \<Longrightarrow>
    frame_of (h @ feed_history (rg_sealed r) ops) (rg_sealed r \<or> SealFeed \<in> set ops) (ring_frame r')"
proof (induction ops r arbitrary: h rule: feed_run.induct)
  case (1 r)
  then show ?case using ring_frame_of [of h r] by simp
next
  case (2 op ops r)
  have step: "ring_ok (h @ feed_history (rg_sealed r) [op]) (feed_step op r)"
    "rg_sealed (feed_step op r) \<longleftrightarrow> rg_sealed r \<or> op = SealFeed"
    using feed_step_ok [OF "2.prems"(1)] "2.prems"(2) by auto
  show ?case
  proof (cases "r' \<in> set (feed_run ops (feed_step op r))")
    case True
    have "frame_of ((h @ feed_history (rg_sealed r) [op]) @ feed_history (rg_sealed (feed_step op r)) ops)
        (rg_sealed (feed_step op r) \<or> SealFeed \<in> set ops) (ring_frame r')"
      using "2.prems"(2) length_feed_history [of "rg_sealed r" "[op]"] True
      by (intro "2.IH" [OF step(1)]) auto
    then show ?thesis
      using step(2) by (simp add: feed_history_Cons [of _ op ops] eq_commute [of SealFeed])
  next
    case False
    then have r': "r' = r" using "2.prems"(3) by simp
    show ?thesis
    proof (cases "rg_sealed r")
      case True
      then show ?thesis using ring_frame_of [OF "2.prems"(1)] r' by simp
    next
      case False
      have "length h + length (feed_history False (op # ops)) + 2 < 2 ^ 64"
        using "2.prems"(2) length_feed_history [of False "op # ops"] by simp
      with False show ?thesis using ring_frame_of [OF "2.prems"(1)] r' by (auto intro: frame_of_append)
    qed
  qed
qed

lemma feed_next_token:
  assumes "ring_ok h r"
  shows "feed_next r = WriteToken (rg_epoch r) (of_nat (length h + 1))"
proof -
  obtain i where i: "i \<le> length h" "unat (rg_first_seq r) = Suc i" "rg_keys r = drop i h"
    using assms by (auto simp: ring_ok_def)
  have "rg_first_seq r = of_nat (unat (rg_first_seq r))" by simp
  then have "rg_first_seq r = of_nat (Suc i)" using i(2) by simp
  with i show ?thesis by (simp add: feed_next_def flip: of_nat_add)
qed


section \<open>The window a ring keeps\<close>

text \<open>
  The reference: of the history of a life a ring shows the longest end that fits its capacity and, if it
  is more than one write, its frame budget, less what has been retired.  \<open>fitting_start\<close> is where that
  longest end starts.
\<close>

definition keys_bytes :: "bytes list \<Rightarrow> nat" where
  "keys_bytes keys = sum_list (map (\<lambda>key. 4 + length key) keys)"

definition window_fits :: "u64 \<Rightarrow> u64 \<Rightarrow> bytes list \<Rightarrow> bool" where
  "window_fits capacity budget keys \<longleftrightarrow>
    length keys \<le> unat capacity \<and> (length keys \<le> 1 \<or> 21 + keys_bytes keys \<le> unat budget)"

fun fitting_start :: "u64 \<Rightarrow> u64 \<Rightarrow> bytes list \<Rightarrow> nat" where
  "fitting_start capacity budget [] = 0"
| "fitting_start capacity budget (key # keys) =
    (if window_fits capacity budget (key # keys) then 0 else Suc (fitting_start capacity budget keys))"

text \<open>
  How many writes have been retired: a retirement in this life reaches up to its token, and never the
  newest of the writes \<open>made\<close> so far.
\<close>

fun retired_by :: "u64 \<Rightarrow> bool \<Rightarrow> nat \<Rightarrow> feed_op list \<Rightarrow> nat" where
  "retired_by epoch sealed made [] = 0"
| "retired_by epoch sealed made (Publish _ # ops) = retired_by epoch sealed (if sealed then made else Suc made) ops"
| "retired_by epoch sealed made (SealFeed # ops) = retired_by epoch True made ops"
| "retired_by epoch sealed made (Retire token # ops) = max
    (if tok_epoch token = epoch then min (unat (tok_seq token)) (made - 1) else 0)
    (retired_by epoch sealed made ops)"

lemma keys_bytes_simps [simp]:
  "keys_bytes [] = 0" "keys_bytes (key # keys) = 4 + length key + keys_bytes keys"
  "keys_bytes (keys @ keys') = keys_bytes keys + keys_bytes keys'"
  by (simp_all add: keys_bytes_def)

lemma keys_bytes_drop: "keys_bytes (drop i h) \<le> keys_bytes h"
  using keys_bytes_simps(3) [of "take i h" "drop i h"] by simp

lemma length_keys_bytes: "4 * length h \<le> keys_bytes h"
  by (induction h) auto

lemma window_fits_tl: "window_fits capacity budget (key # keys) \<Longrightarrow> window_fits capacity budget keys"
  by (auto simp: window_fits_def)

lemma window_fits_butlast: "window_fits capacity budget (keys @ [key]) \<Longrightarrow> window_fits capacity budget keys"
  by (auto simp: window_fits_def)

lemma window_fits_drop: "window_fits capacity budget h \<Longrightarrow> window_fits capacity budget (drop i h)"
proof (induction h arbitrary: i)
  case (Cons key h)
  then show ?case using window_fits_tl [of capacity budget key h] by (cases i) auto
qed simp

lemma window_fits_iff: "window_fits capacity budget (drop i h) \<longleftrightarrow> fitting_start capacity budget h \<le> i"
proof (induction h arbitrary: i)
  case Nil
  then show ?case by (simp add: window_fits_def)
next
  case (Cons key h)
  show ?case
  proof (cases i)
    case (Suc j)
    then show ?thesis
      using Cons.IH [of j] window_fits_drop [OF window_fits_tl, of capacity budget key h j] by auto
  qed simp
qed

lemma fitting_start_less: "capacity \<noteq> 0 \<Longrightarrow> h \<noteq> [] \<Longrightarrow> fitting_start capacity budget h < length h"
proof (induction h)
  case (Cons key h)
  have "0 < unat capacity" using Cons.prems by (simp add: unat_gt_0)
  then show ?case using Cons by (cases "h = []") (auto simp: window_fits_def)
qed simp

lemma fitting_start_snoc: "fitting_start capacity budget h \<le> fitting_start capacity budget (h @ [key])"
proof (rule ccontr)
  let ?i = "fitting_start capacity budget (h @ [key])"
  assume less: "\<not> fitting_start capacity budget h \<le> ?i"
  have "fitting_start capacity budget h \<le> length h"
    unfolding window_fits_iff [symmetric] by (simp add: window_fits_def)
  then have "window_fits capacity budget (drop ?i h @ [key])"
    using window_fits_iff [of capacity budget ?i "h @ [key]"] less by simp
  then have "window_fits capacity budget (drop ?i h)" by (rule window_fits_butlast)
  with less show False by (simp add: window_fits_iff)
qed

lemma fitting_start_append: "fitting_start capacity budget h \<le> fitting_start capacity budget (h @ h')"
proof (induction h' arbitrary: h)
  case (Cons key h')
  from order_trans [OF fitting_start_snoc [of capacity budget h key] Cons.IH [of "h @ [key]"]] show ?case by simp
qed simp

text \<open>The ring of a life with history \<open>h\<close> that shows its writes from \<open>i\<close> on.\<close>

definition ring_from :: "u64 \<Rightarrow> u64 \<Rightarrow> u64 \<Rightarrow> bool \<Rightarrow> bytes list \<Rightarrow> nat \<Rightarrow> ring" where
  "ring_from epoch capacity budget sealed h i =
    \<lparr>rg_epoch = epoch, rg_first_seq = of_nat (Suc i), rg_keys = drop i h, rg_capacity = capacity,
     rg_max_frame_bytes = budget, rg_encoded_keys_bytes = of_nat (keys_bytes (drop i h)), rg_sealed = sealed\<rparr>"

lemma unat_bytes: "21 + keys_bytes h < 2 ^ 64 \<Longrightarrow> unat (of_nat (keys_bytes (drop i h)) :: u64) = keys_bytes (drop i h)"
  using keys_bytes_drop [of i h] by (intro unat_of_nat_u64) simp

lemma ring_pop_from:
  assumes "i < length h" "21 + keys_bytes h < 2 ^ 64"
  shows "ring_pop (ring_from epoch capacity budget sealed h i) = ring_from epoch capacity budget sealed h (Suc i)"
proof -
  have keys: "drop i h = h ! i # drop (Suc i) h" using assms(1) by (simp add: Cons_nth_drop_Suc)
  have small: "4 + length (h ! i) + keys_bytes (drop (Suc i) h) < 2 ^ 64"
    using keys_bytes_drop [of i h] assms(2) keys by simp
  have cost: "unat (key_cost (h ! i)) = 4 + length (h ! i)"
    using small unat_of_nat_u64 [of "length (h ! i)"] by (simp add: key_cost_def unat_sat_add)
  have "sat_sub (of_nat (keys_bytes (drop i h))) (key_cost (h ! i)) = (of_nat (keys_bytes (drop (Suc i) h)) :: u64)"
    unfolding word_unat_eq_iff unat_sat_sub cost unat_bytes [OF assms(2)] by (simp add: keys)
  then show ?thesis by (simp add: ring_from_def ring_pop_def keys)
qed

lemma ring_trim_from:
  assumes "i < length h" "21 + keys_bytes h < 2 ^ 64" "capacity \<noteq> 0"
  shows "ring_trim (ring_from epoch capacity budget sealed h i) =
    ring_from epoch capacity budget sealed h (max i (fitting_start capacity budget h))"
  using assms(1)
proof (induction "length h - i" arbitrary: i rule: less_induct)
  case less
  let ?r = "ring_from epoch capacity budget sealed h i"
  have "unat (ring_encoded_len ?r) = 21 + keys_bytes (drop i h)"
    using unat_bytes [OF assms(2), of i] keys_bytes_drop [of i h] assms(2)
    by (simp add: ring_encoded_len_def ring_from_def unat_sat_add)
  then have trim: "rg_keys ?r \<noteq> [] \<and> (unat (rg_capacity ?r) < length (rg_keys ?r) \<or>
      1 < length (rg_keys ?r) \<and> rg_max_frame_bytes ?r < ring_encoded_len ?r) \<longleftrightarrow> i < fitting_start capacity budget h"
    using less.prems window_fits_iff [of capacity budget i h]
    by (auto simp: word_less_nat_alt ring_from_def window_fits_def)
  show ?case
  proof (cases "i < fitting_start capacity budget h")
    case True
    then have next_i: "Suc i < length h"
      using fitting_start_less [OF assms(3), of h budget] less.prems by fastforce
    have "ring_trim ?r = ring_trim (ring_pop ?r)" using True trim by (subst ring_trim.simps) simp
    also have "\<dots> = ring_from epoch capacity budget sealed h (max (Suc i) (fitting_start capacity budget h))"
      unfolding ring_pop_from [OF less.prems assms(2)] using next_i by (intro less.hyps) auto
    finally show ?thesis using True by (simp add: max_def)
  next
    case False
    then have "ring_trim ?r = ?r" using trim by (subst ring_trim.simps) (simp only: if_False)
    with False show ?thesis by (simp add: max_def)
  qed
qed

lemma ring_push_from:
  assumes "i \<le> length h" "21 + keys_bytes (h @ [key]) < 2 ^ 64" "capacity \<noteq> 0"
  shows "ring_push (ring_from epoch capacity budget sealed h i) key =
    ring_from epoch capacity budget sealed (h @ [key]) (max i (fitting_start capacity budget (h @ [key])))"
proof -
  have small: "keys_bytes (drop i h) + (4 + length key) < 2 ^ 64"
    using keys_bytes_drop [of i h] assms(2) by simp
  have cost: "unat (key_cost key) = 4 + length key"
    using small unat_of_nat_u64 [of "length key"] by (simp add: key_cost_def unat_sat_add)
  have bytes: "unat (of_nat (keys_bytes (drop i h)) :: u64) = keys_bytes (drop i h)"
    using small by (intro unat_of_nat_u64) simp
  have "sat_add (of_nat (keys_bytes (drop i h))) (key_cost key) =
      (of_nat (keys_bytes (drop i (h @ [key]))) :: u64)"
    unfolding word_unat_eq_iff unat_sat_add cost bytes unat_bytes [OF assms(2)]
    using small assms(1) by simp
  then have "ring_push (ring_from epoch capacity budget sealed h i) key =
      ring_trim (ring_from epoch capacity budget sealed (h @ [key]) i)"
    using assms(1) by (simp add: ring_push_def ring_from_def)
  then show ?thesis using assms by (simp add: ring_trim_from)
qed

lemma ring_retire_from:
  assumes "i \<le> length h" "21 + keys_bytes h < 2 ^ 64"
  shows "snd (ring_retire_through (ring_from epoch capacity budget sealed h i) token) =
    ring_from epoch capacity budget sealed h
      (max i (if tok_epoch token = epoch then min (unat (tok_seq token)) (length h - 1) else 0))"
proof -
  have first: "of_nat (Suc i) \<le> (tok_seq token :: u64) \<longleftrightarrow> i < unat (tok_seq token)" if "i \<le> length h" for i
  proof -
    have "unat (of_nat (Suc i) :: u64) = Suc i"
      using that length_keys_bytes [of h] assms(2) by (intro unat_of_nat_u64) simp
    then show ?thesis by (simp add: word_le_nat_alt Suc_le_eq del: of_nat_Suc)
  qed
  have loop: "ring_retire_loop (ring_from epoch capacity budget sealed h i) (tok_seq token) =
      ring_from epoch capacity budget sealed h (max i (min (unat (tok_seq token)) (length h - 1)))" if "i \<le> length h" for i
    using that
  proof (induction "length h - i" arbitrary: i rule: less_induct)
    case less
    let ?r = "ring_from epoch capacity budget sealed h i"
    have cond: "1 < length (rg_keys ?r) \<and> rg_first_seq ?r \<le> tok_seq token \<longleftrightarrow>
        i < min (unat (tok_seq token)) (length h - 1)"
      using first [OF less.prems] by (auto simp: ring_from_def simp del: of_nat_Suc)
    show ?case
    proof (cases "i < min (unat (tok_seq token)) (length h - 1)")
      case True
      then have i: "i < length h" by linarith
      have "ring_retire_loop ?r (tok_seq token) = ring_retire_loop (ring_pop ?r) (tok_seq token)"
        using True cond by (subst ring_retire_loop.simps) simp
      also have "\<dots> = ring_from epoch capacity budget sealed h (max (Suc i) (min (unat (tok_seq token)) (length h - 1)))"
        unfolding ring_pop_from [OF i assms(2)] using i by (intro less.hyps) auto
      finally show ?thesis using True by (simp add: max_def)
    next
      case False
      then have "ring_retire_loop ?r (tok_seq token) = ?r" using cond by (subst ring_retire_loop.simps) (simp only: if_False)
      moreover have "max i (min (unat (tok_seq token)) (length h - 1)) = i" using False by linarith
      ultimately show ?thesis by simp
    qed
  qed
  let ?r = "ring_from epoch capacity budget sealed h i"
  have fields: "rg_epoch ?r = epoch" "length (rg_keys ?r) = length h - i" "rg_first_seq ?r = of_nat (Suc i)"
    by (simp_all add: ring_from_def)
  have skip: "tok_epoch token \<noteq> rg_epoch ?r \<or> length (rg_keys ?r) \<le> 1 \<or> tok_seq token < rg_first_seq ?r \<longleftrightarrow>
      tok_epoch token \<noteq> epoch \<or> \<not> i < min (unat (tok_seq token)) (length h - 1)"
    unfolding fields using first [OF assms(1)] by (auto simp: not_less [symmetric] simp del: of_nat_Suc)
  show ?thesis
  proof (cases "tok_epoch token = epoch \<and> i < min (unat (tok_seq token)) (length h - 1)")
    case True
    then have "snd (ring_retire_through ?r token) = ring_retire_loop ?r (tok_seq token)"
      using skip unfolding ring_retire_through_def by (simp only: simp_thms if_False snd_conv)
    with True loop [OF assms(1)] show ?thesis by simp
  next
    case False
    then have "snd (ring_retire_through ?r token) = ?r"
      using skip unfolding ring_retire_through_def by (simp only: de_Morgan_conj if_True snd_conv)
    moreover have "max i (if tok_epoch token = epoch then min (unat (tok_seq token)) (length h - 1) else 0) = i"
      using False by (cases "tok_epoch token = epoch") auto
    ultimately show ?thesis by simp
  qed
qed

lemma feed_fold_from:
  assumes "fitting_start capacity budget h \<le> i" "i \<le> length h"
    and "21 + keys_bytes (h @ feed_history sealed ops) < 2 ^ 64" "capacity \<noteq> 0"
  shows "fold feed_step ops (ring_from epoch capacity budget sealed h i) =
    ring_from epoch capacity budget (sealed \<or> SealFeed \<in> set ops) (h @ feed_history sealed ops)
      (max (max i (fitting_start capacity budget (h @ feed_history sealed ops))) (retired_by epoch sealed (length h) ops))"
  using assms(1-3)
proof (induction ops arbitrary: sealed h i)
  case Nil
  then show ?case by (simp add: max_def)
next
  case (Cons op ops)
  show ?case
  proof (cases op)
    case (Publish key)
    show ?thesis
    proof (cases sealed)
      case True
      with Cons Publish show ?thesis by (simp add: feed_step_cases(1) ring_from_def del: feed_step.simps)
    next
      case False
      let ?j = "max i (fitting_start capacity budget (h @ [key]))"
      have "feed_step op (ring_from epoch capacity budget sealed h i) =
          ring_push (ring_from epoch capacity budget sealed h i) key"
        using False unfolding Publish feed_step_cases(1) by (simp add: ring_from_def)
      also have "\<dots> = ring_from epoch capacity budget sealed (h @ [key]) ?j"
        using Cons.prems Publish False assms(4) by (intro ring_push_from) auto
      finally have step: "feed_step op (ring_from epoch capacity budget sealed h i) = \<dots>" .
      have "fitting_start capacity budget (h @ [key]) \<le> length h"
        using fitting_start_less [OF assms(4), of "h @ [key]" budget] by simp
      then have "fold feed_step ops (ring_from epoch capacity budget sealed (h @ [key]) ?j) =
          ring_from epoch capacity budget (sealed \<or> SealFeed \<in> set ops) ((h @ [key]) @ feed_history sealed ops)
            (max (max ?j (fitting_start capacity budget ((h @ [key]) @ feed_history sealed ops)))
              (retired_by epoch sealed (length (h @ [key])) ops))"
        using Cons.prems Publish False by (intro Cons.IH) auto
      moreover have "fitting_start capacity budget (h @ [key]) \<le>
          fitting_start capacity budget ((h @ [key]) @ feed_history sealed ops)"
        by (rule fitting_start_append)
      ultimately show ?thesis using step Publish False by (simp add: max.absorb2 max.assoc)
    qed
  next
    case SealFeed
    have "feed_step op (ring_from epoch capacity budget sealed h i) = ring_from epoch capacity budget True h i"
      unfolding SealFeed feed_step_cases(2) by (simp add: ring_from_def)
    moreover have "fold feed_step ops (ring_from epoch capacity budget True h i) =
        ring_from epoch capacity budget (True \<or> SealFeed \<in> set ops) (h @ feed_history True ops)
          (max (max i (fitting_start capacity budget (h @ feed_history True ops))) (retired_by epoch True (length h) ops))"
      using Cons.prems SealFeed by (intro Cons.IH) auto
    ultimately show ?thesis using SealFeed by simp
  next
    case (Retire token)
    let ?k = "if tok_epoch token = epoch then min (unat (tok_seq token)) (length h - 1) else 0"
    have "feed_step op (ring_from epoch capacity budget sealed h i) = ring_from epoch capacity budget sealed h (max i ?k)"
      unfolding Retire using ring_retire_from [of i h epoch capacity budget sealed token] Cons.prems
      by (simp add: feed_retire_def case_prod_beta)
    moreover have "fold feed_step ops (ring_from epoch capacity budget sealed h (max i ?k)) =
        ring_from epoch capacity budget (sealed \<or> SealFeed \<in> set ops) (h @ feed_history sealed ops)
          (max (max (max i ?k) (fitting_start capacity budget (h @ feed_history sealed ops)))
            (retired_by epoch sealed (length h) ops))"
      using Cons.prems Retire by (intro Cons.IH) auto
    moreover have "max (max (max i ?k) f) n = max (max i f) (max ?k n)" for f n by linarith
    ultimately show ?thesis using Retire by simp
  qed
qed

lemma retired_by_less: "retired_by epoch sealed made ops \<le> made + length (feed_history sealed ops) - 1"
  by (induction epoch sealed made ops rule: retired_by.induct) auto


section \<open>A subscriber accounts for every write it passes\<close>

text \<open>
  The lives of a writer: the history of each epoch it has lived, and whether that life ended with a
  seal.  A seal is the end of a history because a sealed feed refuses to publish.
\<close>

type_synonym lives = "u64 \<rightharpoonup> bytes list \<times> bool"

definition frame_in :: "lives \<Rightarrow> feed_frame \<Rightarrow> bool" where
  "frame_in lives f \<longleftrightarrow> (case lives (ff_epoch f) of Some (h, ended) \<Rightarrow> frame_of h ended f | None \<Rightarrow> False)"

definition write_in :: "lives \<Rightarrow> write_token \<Rightarrow> bytes \<Rightarrow> bool" where
  "write_in lives t key \<longleftrightarrow> (case lives (tok_epoch t) of
      Some (h, _) \<Rightarrow> (\<exists>i < length h. unat (tok_seq t) = Suc i \<and> key = h ! i) | None \<Rightarrow> False)"

definition position :: "cursor \<Rightarrow> write_token" where
  "position c = WriteToken (cur_epoch c) (cur_next c)"

fun event_token :: "'k peer_write \<Rightarrow> write_token" where
  "event_token (Wrote _ t _) = t"
| "event_token (Gap _ t) = t"
| "event_token (Sealed _ t) = t"
| "event_token (Renewed _ _ e) = WriteToken e 0"

text \<open>
  How an event list accounts for a write: it delivers it with its decoded key, or declares it missed,
  or its key does not decode, or a renewal passes over the whole life the write belongs to.
\<close>

definition accounts ::
    "node_id \<Rightarrow> (bytes \<Rightarrow> 'k option) \<Rightarrow> 'k peer_write list \<Rightarrow> write_token \<Rightarrow> bytes \<Rightarrow> bool" where
  "accounts node dec events t key \<longleftrightarrow>
     (\<exists>k. dec key = Some k \<and> Wrote node t k \<in> set events) \<or> dec key = None \<or>
     (\<exists>m. Gap node m \<in> set events \<and> t \<le> m) \<or>
     (\<exists>sealed e. Renewed node sealed e \<in> set events \<and> tok_epoch sealed < tok_epoch t \<and> tok_epoch t < e)"

definition cursor_ok :: "lives \<Rightarrow> cursor \<Rightarrow> bool" where
  "cursor_ok lives c \<longleftrightarrow> (case lives (cur_epoch c) of
      None \<Rightarrow> False
    | Some (h, ended) \<Rightarrow> length h + 2 < 2 ^ 64 \<and>
        (if cur_sealed c then ended \<and> unat (cur_next c) = length h + 2
         else 1 \<le> unat (cur_next c) \<and> unat (cur_next c) \<le> length h + 1))"

definition subscriber_ok ::
    "lives \<Rightarrow> node_id \<Rightarrow> (bytes \<Rightarrow> 'k option) \<Rightarrow> write_token \<Rightarrow> cursor \<times> 'k peer_write list \<Rightarrow> bool" where
  "subscriber_ok lives node dec origin st \<longleftrightarrow> (case st of (c, events) \<Rightarrow>
     cursor_ok lives c \<and> sorted_wrt (<) (map event_token events) \<and>
     (\<forall>e \<in> set events. event_token e < position c) \<and>
     (\<forall>t k. Wrote node t k \<in> set events \<longrightarrow> (\<exists>key. write_in lives t key \<and> dec key = Some k)) \<and>
     (\<forall>t key. write_in lives t key \<longrightarrow> origin \<le> t \<longrightarrow> t < position c \<longrightarrow> accounts node dec events t key))"

text \<open>The three ways a cursor moves: over one write, over a gap, into a new life.\<close>

lemma accounts_mono: "accounts node dec events t key \<Longrightarrow> accounts node dec (events @ extra) t key"
  by (auto simp: accounts_def)

lemma write_in_unique: "write_in lives t key \<Longrightarrow> write_in lives t key' \<Longrightarrow> key = key'"
  by (auto simp: write_in_def split: option.splits)

lemma subscriber_ok_advance:
  assumes ok: "subscriber_ok lives node dec origin (c, events)"
    and c': "cursor_ok lives c'" "position c \<le> position c'"
    and new: "sorted_wrt (<) (map event_token extra)"
      "\<And>e. e \<in> set extra \<Longrightarrow> position c \<le> event_token e \<and> event_token e < position c'"
      "\<And>t k. Wrote node t k \<in> set extra \<Longrightarrow> \<exists>key. write_in lives t key \<and> dec key = Some k"
    and passed: "\<And>t key. write_in lives t key \<Longrightarrow> position c \<le> t \<Longrightarrow> t < position c' \<Longrightarrow>
      accounts node dec (events @ extra) t key"
  shows "subscriber_ok lives node dec origin (c', events @ extra)"
proof -
  have "event_token e < event_token e'" if "e \<in> set events" "e' \<in> set extra" for e e'
    using ok new(2) [OF that(2)] that(1) by (auto simp: subscriber_ok_def intro: less_le_trans)
  moreover have "accounts node dec (events @ extra) t key"
    if "write_in lives t key" "origin \<le> t" "t < position c'" for t key
    using that ok passed [of t key] accounts_mono [of node dec events t key extra]
    by (cases "t < position c") (auto simp: subscriber_ok_def)
  moreover have "event_token e < position c'" if "e \<in> set (events @ extra)" for e
    using that ok new(2) c'(2) by (auto simp: subscriber_ok_def intro: less_le_trans)
  ultimately show ?thesis
    using ok new c' by (auto simp: subscriber_ok_def sorted_wrt_append)
qed

lemma deliver_ok:
  assumes "frame_in lives f" "cur_epoch c = ff_epoch f" "\<not> cur_sealed c"
    and "subscriber_ok lives node dec origin (c\<lparr>cur_next := nxt\<rparr>, events)" "ff_first_seq f \<le> nxt"
  shows "\<exists>nxt' events'. deliver node dec f nxt events = (nxt', events') \<and>
    subscriber_ok lives node dec origin (c\<lparr>cur_next := nxt'\<rparr>, events') \<and> nxt' = max nxt (feed_end f)"
  using assms
proof (induction node dec f nxt events rule: deliver.induct)
  case (1 node dec f nxt events)
  show ?case
  proof (cases "nxt < feed_end f")
    case False
    then show ?thesis using "1.prems" by (subst deliver.simps) auto
  next
    case True
    obtain h ended where h: "lives (ff_epoch f) = Some (h, ended)" and fr: "frame_of h ended f"
      using "1.prems"(1) by (auto simp: frame_in_def split: option.splits)
    obtain i n where f: "i \<le> n" "n \<le> length h" "unat (ff_first_seq f) = Suc i"
      "ff_keys f = drop i (take n h)" "unat (feed_end f) = Suc n" "length h + 2 < 2 ^ 64"
      by (rule frame_of_end [OF fr])
    obtain j where j: "unat nxt = Suc j" "i \<le> j" "j < n"
      using True "1.prems"(5) f by (cases "unat nxt") (auto simp: word_less_nat_alt word_le_nat_alt)
    have "unat (nxt - ff_first_seq f) = j - i"
      using "1.prems"(5) j f by (simp add: unat_sub word_le_nat_alt)
    then have key: "ff_keys f ! unat (nxt - ff_first_seq f) = h ! j" using f j by simp
    have succ: "unat (nxt + 1) = Suc (Suc j)" using u64_succ_less [OF True] j by simp
    let ?t = "WriteToken (ff_epoch f) nxt"
    let ?extra = "case dec (h ! j) of Some k \<Rightarrow> [Wrote node ?t k] | None \<Rightarrow> []"
    have wr: "write_in lives ?t (h ! j)" using h j f by (auto simp: write_in_def)
    have only: "t = ?t" if "position (c\<lparr>cur_next := nxt\<rparr>) \<le> t" "t < position (c\<lparr>cur_next := nxt + 1\<rparr>)" for t
    proof (cases t)
      case (WriteToken e x)
      then have "e = ff_epoch f" "unat x = unat nxt"
        using that "1.prems"(2) succ j by (auto simp: position_def word_le_nat_alt word_less_nat_alt)
      with WriteToken show ?thesis by (simp add: word_unat_eq_iff [of x nxt])
    qed
    have "subscriber_ok lives node dec origin (c\<lparr>cur_next := nxt + 1\<rparr>, events @ ?extra)"
    proof (rule subscriber_ok_advance [OF "1.prems"(4)])
      show "cursor_ok lives (c\<lparr>cur_next := nxt + 1\<rparr>)"
        using "1.prems"(2,3) h f j succ by (simp add: cursor_ok_def)
      show "position (c\<lparr>cur_next := nxt\<rparr>) \<le> position (c\<lparr>cur_next := nxt + 1\<rparr>)"
        using succ j by (simp add: position_def word_le_nat_alt)
      show "accounts node dec (events @ ?extra) t key"
        if "write_in lives t key" "position (c\<lparr>cur_next := nxt\<rparr>) \<le> t"
          "t < position (c\<lparr>cur_next := nxt + 1\<rparr>)" for t key
        using only [OF that(2,3)] write_in_unique [OF that(1)] wr
        by (auto simp: accounts_def split: option.splits)
    qed (use wr "1.prems"(2) succ j in \<open>auto simp: position_def word_less_nat_alt split: option.splits\<close>)
    then have ok': "subscriber_ok lives node dec origin (c\<lparr>cur_next := nxt + 1\<rparr>,
        case dec (ff_keys f ! unat (nxt - ff_first_seq f)) of
          Some k \<Rightarrow> events @ [Wrote node ?t k] | None \<Rightarrow> events)"
      unfolding key by (cases "dec (h ! j)") simp_all
    have le: "ff_first_seq f \<le> nxt + 1" using succ j f by (simp add: word_le_nat_alt)
    have mx: "max (nxt + 1) (feed_end f) = max nxt (feed_end f)"
      using True succ j f by (simp add: max_def word_le_nat_alt word_less_nat_alt)
    show ?thesis
      using "1.IH" [OF True "1.prems"(1,2,3) ok' le] True unfolding mx by (subst deliver.simps) simp
  qed
qed

lemma deliver_rest_ok:
  assumes fr: "frame_in lives f" and c: "cur_epoch c = ff_epoch f" "\<not> cur_sealed c"
    and ok: "subscriber_ok lives node dec origin (c, events)" and le: "ff_first_seq f \<le> cur_next c"
  shows "subscriber_ok lives node dec origin (deliver_rest node dec f c events)"
proof -
  obtain nxt events' where del: "deliver node dec f (cur_next c) events = (nxt, events')"
    and ok': "subscriber_ok lives node dec origin (c\<lparr>cur_next := nxt\<rparr>, events')"
    using deliver_ok [OF fr c, of node dec origin "cur_next c" events] ok le by auto
  show ?thesis
  proof (cases "ff_sealed f \<and> nxt = feed_end f")
    case False
    then show ?thesis using del ok' by (auto simp: deliver_rest_def)
  next
    case True
    obtain h ended where h: "lives (ff_epoch f) = Some (h, ended)" and fo: "frame_of h ended f"
      using fr by (auto simp: frame_in_def split: option.splits)
    obtain i n where f: "i \<le> n" "unat (feed_end f) = Suc n" "ff_sealed f \<longrightarrow> ended \<and> n = length h"
      "length h + 2 < 2 ^ 64"
      by (rule frame_of_end [OF fo])
    have end': "unat nxt = length h + 1" "ended" using True f by auto
    then have succ: "unat (nxt + 1) = length h + 2" using f by (simp add: unat_word_ariths)
    let ?c = "c\<lparr>cur_next := nxt + 1, cur_sealed := True\<rparr>"
    let ?seal = "Sealed node (WriteToken (ff_epoch f) nxt)"
    have "subscriber_ok lives node dec origin (?c, events' @ [?seal])"
    proof (rule subscriber_ok_advance [OF ok'])
      show "cursor_ok lives ?c" using h end' succ c f by (simp add: cursor_ok_def)
      show "position (c\<lparr>cur_next := nxt\<rparr>) \<le> position ?c"
        using succ end' by (simp add: position_def word_le_nat_alt)
      show "accounts node dec (events' @ [?seal]) t key"
        if "write_in lives t key" "position (c\<lparr>cur_next := nxt\<rparr>) \<le> t" "t < position ?c" for t key
        using that h end' succ c
        by (cases t) (auto simp: position_def write_in_def word_le_nat_alt word_less_nat_alt split: option.splits)
    qed (use c succ end' in \<open>auto simp: position_def word_less_nat_alt\<close>)
    with True del show ?thesis by (simp add: deliver_rest_def)
  qed
qed

lemma position_le_epoch: "cur_epoch c < e \<Longrightarrow> position c \<le> WriteToken e s"
  by (simp add: position_def)

lemma reconcile_ok:
  assumes fr: "frame_in lives f" and ok: "subscriber_ok lives node dec origin (c, events)"
  shows "subscriber_ok lives node dec origin (snd (reconcile node dec f (c, events)))"
proof -
  obtain h ended where h: "lives (ff_epoch f) = Some (h, ended)" and fo: "frame_of h ended f"
    using fr by (auto simp: frame_in_def split: option.splits)
  obtain i n where f: "i \<le> n" "n \<le> length h" "unat (ff_first_seq f) = Suc i" "length h + 2 < 2 ^ 64"
    by (rule frame_of_end [OF fo])
  let ?gap = "Gap node (WriteToken (ff_epoch f) (sat_sub (ff_first_seq f) 1)) :: 'a peer_write"
  have miss: "unat (sat_sub (ff_first_seq f) 1) = i" using f by (simp add: unat_sat_sub)
  let ?fresh = "\<lparr>cur_epoch = ff_epoch f, cur_next = ff_first_seq f, cur_sealed = False\<rparr>"
  have fresh: "cursor_ok lives ?fresh" using h f by (simp add: cursor_ok_def)
  have gap_ok: "subscriber_ok lives node dec origin (c', events @ [?gap])"
    if "cursor_ok lives c'" "position c' = position ?fresh" "position c < position c'"
      "position c \<le> event_token ?gap" for c'
  proof (rule subscriber_ok_advance [OF ok that(1)])
    show "accounts node dec (events @ [?gap]) t key"
      if "write_in lives t key" "position c \<le> t" "t < position c'" for t key
      using that \<open>position c' = position ?fresh\<close> f miss
      by (cases t) (auto simp: accounts_def position_def word_less_nat_alt word_le_nat_alt)
  qed (use that f miss in \<open>auto simp: position_def word_less_nat_alt word_le_nat_alt\<close>)
  consider (stale) "ff_epoch f < cur_epoch c" | (renewed) "cur_epoch c < ff_epoch f" "cur_sealed c" "ff_first_seq f = 1"
    | (restarted) "cur_epoch c < ff_epoch f" "\<not> (cur_sealed c \<and> ff_first_seq f = 1)"
    | (sealed) "ff_epoch f = cur_epoch c" "cur_sealed c"
    | (behind) "ff_epoch f = cur_epoch c" "\<not> cur_sealed c" "cur_next c < ff_first_seq f"
    | (along) "ff_epoch f = cur_epoch c" "\<not> cur_sealed c" "ff_first_seq f \<le> cur_next c"
    by fastforce
  then show ?thesis
  proof cases
    case renewed
    let ?ev = "Renewed node (WriteToken (cur_epoch c) (cur_next c - 1)) (ff_epoch f) :: 'a peer_write"
    obtain g where g: "lives (cur_epoch c) = Some (g, True)" "unat (cur_next c) = length g + 2"
      using ok renewed(2) by (auto simp: subscriber_ok_def cursor_ok_def split: option.splits)
    have "subscriber_ok lives node dec origin (?fresh, events @ [?ev])"
    proof (rule subscriber_ok_advance [OF ok fresh])
      show "accounts node dec (events @ [?ev]) t key"
        if "write_in lives t key" "position c \<le> t" "t < position ?fresh" for t key
      proof (cases "cur_epoch c < tok_epoch t \<and> tok_epoch t < ff_epoch f")
        case True
        then have "\<exists>sealed e. Renewed node sealed e \<in> set (events @ [?ev]) \<and>
            tok_epoch sealed < tok_epoch t \<and> tok_epoch t < e"
          by (intro exI [of _ "WriteToken (cur_epoch c) (cur_next c - 1)"] exI [of _ "ff_epoch f"]) simp
        then show ?thesis unfolding accounts_def by blast
      next
        case False
        with that g renewed show ?thesis
          by (cases t) (auto simp: position_def write_in_def word_less_nat_alt word_le_nat_alt
            split: option.splits)
      qed
    qed (use renewed in \<open>auto simp: position_def word_less_nat_alt\<close>)
    moreover have "\<not> ff_epoch f < cur_epoch c" using renewed(1) by simp
    ultimately show ?thesis
      using renewed by (simp add: reconcile_def Let_def deliver_rest_ok [OF fr])
  next
    case restarted
    have "subscriber_ok lives node dec origin (?fresh, events @ [?gap])"
      using gap_ok [OF fresh] restarted(1) by (simp add: position_def)
    moreover have "\<not> ff_epoch f < cur_epoch c" using restarted(1) by simp
    ultimately show ?thesis
      using restarted by (auto simp: reconcile_def Let_def intro!: deliver_rest_ok [OF fr])
  next
    case behind
    let ?c = "c\<lparr>cur_next := ff_first_seq f\<rparr>"
    have "subscriber_ok lives node dec origin (?c, events @ [?gap])"
      using behind h f miss
      by (intro gap_ok) (auto simp: position_def cursor_ok_def word_less_nat_alt word_le_nat_alt)
    with behind show ?thesis
      by (simp add: reconcile_def Let_def deliver_rest_ok [OF fr])
  next
    case along
    then show ?thesis using ok by (simp add: reconcile_def Let_def deliver_rest_ok [OF fr])
  qed (use ok in \<open>auto simp: reconcile_def Let_def\<close>)
qed

definition subscribe ::
    "node_id \<Rightarrow> (bytes \<Rightarrow> 'k option) \<Rightarrow> feed_frame list \<Rightarrow> cursor \<times> 'k peer_write list \<Rightarrow>
      cursor \<times> 'k peer_write list" where
  "subscribe node dec frames st = fold (\<lambda>f st. snd (reconcile node dec f st)) frames st"

lemma subscribe_ok:
  "\<forall>f \<in> set frames. frame_in lives f \<Longrightarrow> subscriber_ok lives node dec origin st \<Longrightarrow>
    subscriber_ok lives node dec origin (subscribe node dec frames st)"
proof (induction frames arbitrary: st)
  case (Cons f frames)
  then show ?case using reconcile_ok [of lives f node dec origin "fst st" "snd st"]
    by (simp add: subscribe_def)
qed (simp add: subscribe_def)

lemma attached_ok:
  assumes "frame_in lives f"
  shows "subscriber_ok lives node dec (position (attached f)) (attached f, [])"
proof -
  obtain h ended where h: "lives (ff_epoch f) = Some (h, ended)" and fo: "frame_of h ended f"
    using assms by (auto simp: frame_in_def split: option.splits)
  obtain i n where f: "i \<le> n" "n \<le> length h" "unat (feed_end f) = Suc n" "ff_sealed f \<longrightarrow> ended \<and> n = length h"
    "length h + 2 < 2 ^ 64"
    by (rule frame_of_end [OF fo])
  then have "cursor_ok lives (attached f)"
    using h by (auto simp: cursor_ok_def attached_def unat_word_ariths)
  then show ?thesis by (auto simp: subscriber_ok_def)
qed


section \<open>Properties\<close>

text \<open>
  C17. After any sequence of publishes, seals and retirements a feed advertises exactly one window onto
  the history of its life: the longest end of the history that fits the ring's capacity and, when it is
  more than one write, the frame budget, less the writes that were retired, in order, numbered by their
  positions in the history, and marked sealed exactly when the feed was sealed.  The newest write is
  always in it, and nothing published after a seal is in the history.
\<close>

theorem feed_frames_are_windows:
  assumes "21 + keys_bytes (feed_history False ops) < 2 ^ 64" "capacity \<noteq> 0"
    and "h = feed_history False ops"
    and "i = max (fitting_start capacity budget h) (retired_by epoch False 0 ops)"
  shows "ring_frame (fold feed_step ops (ring_new epoch capacity budget)) =
      \<lparr>ff_epoch = epoch, ff_first_seq = of_nat (Suc i), ff_keys = drop i h, ff_sealed = (SealFeed \<in> set ops)\<rparr> \<and>
    (h = [] \<or> i < length h)"
proof -
  have new: "ring_new epoch capacity budget = ring_from epoch capacity budget False [] 0"
    by (simp add: ring_new_def ring_from_def)
  have "fold feed_step ops (ring_new epoch capacity budget) =
      ring_from epoch capacity budget (SealFeed \<in> set ops) h i"
    using feed_fold_from [of capacity budget "[]" 0 False ops epoch] assms unfolding new by simp
  moreover have "h = [] \<or> i < length h"
    using fitting_start_less [OF assms(2), of h budget] retired_by_less [of epoch False 0 ops] assms(3,4) by auto
  ultimately show ?thesis by (simp add: ring_frame_def ring_from_def)
qed

theorem feed_frames_are_windows_witness:
  "ring_frame (fold feed_step [Publish [1], Publish [2, 2], Publish [3], Publish [4], Retire (WriteToken 5 3), SealFeed,
      Publish [9]] (ring_new 5 3 100)) =
    \<lparr>ff_epoch = 5, ff_first_seq = 4, ff_keys = [[4]], ff_sealed = True\<rparr> \<and>
   ring_frame (fold feed_step [Publish [1], Publish [2, 2], Publish [3]] (ring_new 5 3 31)) =
    \<lparr>ff_epoch = 5, ff_first_seq = 3, ff_keys = [[3]], ff_sealed = False\<rparr>"
  using feed_frames_are_windows [OF _ _ refl refl, of "[Publish [1], Publish [2, 2], Publish [3], Publish [4],
      Retire (WriteToken 5 3), SealFeed, Publish [9]]" 3 5 100]
    feed_frames_are_windows [OF _ _ refl refl, of "[Publish [1], Publish [2, 2], Publish [3]]" 3 5 31]
  by (simp add: window_fits_def del: fold_simps)

text \<open>
  C7. A subscriber attached to a writer's feed that is then shown any of the writer's frames, stale,
  repeated or reordered, emits events in strictly increasing token order, delivers no key the writer
  did not write at that token, and accounts for every write between where it attached and where its
  cursor stands: the write was delivered, or declared missed by a gap, or its key does not decode, or
  it belongs to a life that began and ended between the two lives of one renewal.
\<close>

theorem subscriber_accounts:
  assumes "frame_in lives f0" "\<forall>f \<in> set frames. frame_in lives f"
    and "subscribe node dec frames (attached f0, []) = (c, events)"
  shows "sorted_wrt (<) (map event_token events) \<and>
    (\<forall>t k. Wrote node t k \<in> set events \<longrightarrow> (\<exists>key. write_in lives t key \<and> dec key = Some k)) \<and>
    (\<forall>t key. write_in lives t key \<longrightarrow> position (attached f0) \<le> t \<longrightarrow> t < position c \<longrightarrow>
      accounts node dec events t key)"
  using subscribe_ok [OF assms(2) attached_ok [OF assms(1)], of node dec] assms(3)
  by (simp add: subscriber_ok_def)

definition sample_frame_at :: "bytes list \<Rightarrow> feed_frame" where
  "sample_frame_at keys = \<lparr>ff_epoch = 1, ff_first_seq = 1, ff_keys = keys, ff_sealed = False\<rparr>"

theorem subscriber_accounts_witness:
  "\<exists>events. subscribe (NodeId []) Some [sample_frame_at [[7]]] (attached (sample_frame_at []), []) =
      (\<lparr>cur_epoch = 1, cur_next = 2, cur_sealed = False\<rparr>, events) \<and>
    accounts (NodeId []) Some events (WriteToken 1 1) [7]"
proof -
  let ?lives = "[1 \<mapsto> ([[7]], False)] :: lives"
  have frames: "frame_in ?lives (sample_frame_at [])" "\<forall>f \<in> set [sample_frame_at [[7]]]. frame_in ?lives f"
    by (auto simp: frame_in_def frame_of_def sample_frame_at_def)
  have run: "subscribe (NodeId []) Some [sample_frame_at [[7]]] (attached (sample_frame_at []), []) =
      (\<lparr>cur_epoch = 1, cur_next = 2, cur_sealed = False\<rparr>, [Wrote (NodeId []) (WriteToken 1 1) [7]])"
    by (simp add: subscribe_def reconcile_def attached_def feed_end_def deliver_rest_def deliver.simps
        Let_def sample_frame_at_def)
  from subscriber_accounts [OF frames run] run show ?thesis
    by (auto simp: write_in_def position_def attached_def sample_frame_at_def feed_end_def)
qed

text \<open>
  The last exception is real.  A writer that seals life 1, writes in life 2 and starts life 3 shows the
  subscriber the frames of lives 1 and 3 only: the renewal it then emits passes over the write of life
  2, and the frontier advanced as the event asks reports that write as applied.
\<close>

lemma renewal_passes_over_a_life:
  fixes key :: bytes
  defines "lives \<equiv> [1 \<mapsto> ([], True), 2 \<mapsto> ([key], False), 3 \<mapsto> ([], False)]"
    and "one \<equiv> \<lparr>ff_epoch = 1, ff_first_seq = 1, ff_keys = [], ff_sealed = True\<rparr>"
    and "three \<equiv> \<lparr>ff_epoch = 3, ff_first_seq = 1, ff_keys = [], ff_sealed = False\<rparr>"
  shows "frame_in lives one" "frame_in lives three" "write_in lives (WriteToken 2 1) key"
    "subscribe node dec [three] (attached one, []) =
      (\<lparr>cur_epoch = 3, cur_next = 1, cur_sealed = False\<rparr>, [Renewed node (WriteToken 1 1) 3])"
    "frontier_reached (frontier_advance node (WriteToken 3 0) fmempty) node (WriteToken 2 1)"
  by (simp_all add: lives_def one_def three_def frame_in_def frame_of_def write_in_def subscribe_def
      reconcile_def attached_def feed_end_def deliver_rest_def deliver.simps Let_def frontier_reached_def
      frontier_advance_def watermark_def)

end
