(* ===== verification/Lease_Shell.thy ===== *)
theory Lease_Shell
  imports Lease_Safety Write_Feed
begin

text \<open>
  The shell of the coherence-lease tier (\<open>crates/groupnet-consistency/src/lease/shell.rs\<close>,
  \<open>shell/writes.rs\<close>, \<open>tasks.rs\<close>): the state its three tasks and its handles share, one definition per
  step, and the wait of a coherent write.  The clock is an argument, the group is the snapshot its reads
  see, and what a step publishes is returned as the entry writes it enqueues.
\<close>


section \<open>Shared state\<close>

definition CAP_LEASE :: str where
  "CAP_LEASE = ascii ''leases''"

record lease_shared =
  sh_me :: node_id
  sh_cfg :: lease_config
  sh_renewal_key :: str
  sh_grant_key :: str
  sh_warmed :: bool
  sh_core :: lease_core
  sh_ledger :: grant_ledger
  sh_serve :: "time option"
  sh_left :: bool

definition leases_start ::
    "node_id \<Rightarrow> str option \<Rightarrow> u64 \<Rightarrow> lease_config \<Rightarrow> lease_config_error + lease_shared" where
  "leases_start me set_name epoch cfg = (case lease_validate cfg of
      Some e \<Rightarrow> Inl e
    | None \<Rightarrow> Inr \<lparr>sh_me = me, sh_cfg = cfg, sh_renewal_key = renewal_entry_key set_name,
        sh_grant_key = grant_entry_key set_name, sh_warmed = False,
        sh_core = lease_core_from_validated me cfg epoch,
        sh_ledger = ledger_from_validated me cfg epoch 0, sh_serve = None, sh_left = False\<rparr>)"

definition publish_serve :: "time \<Rightarrow> lease_shared \<Rightarrow> lease_shared" where
  "publish_serve now s = s\<lparr>sh_serve :=
     (if sh_warmed s \<and> lease_peek (sh_core s) now = Serving then serve_until (sh_core s) else None)\<rparr>"

definition warmup_window :: "config \<Rightarrow> u64 \<Rightarrow> u64" where
  "warmup_window config members =
     sat_add (detection_window_ms config members) (sat_mul (gossip_interval_ms config) 2)"

definition warmed_up :: "config \<Rightarrow> group_view \<Rightarrow> time \<Rightarrow> lease_shared \<Rightarrow> bool \<times> lease_shared" where
  "warmed_up config view now s =
    (let warm = warmup_window config (of_nat (length (view_members view))) \<le> now in
     (warm, if warm then s\<lparr>sh_warmed := True\<rparr> else s))"


section \<open>Renewing and granting\<close>

definition shell_renew :: "time \<Rightarrow> lease_shared \<Rightarrow> entry_write \<times> lease_shared" where
  "shell_renew now s =
    (let (i, core) = on_renew now (sh_core s) in
     (SetEntry (sh_renewal_key s) (encode_renewal i) (Some (duration_ms (sh_cfg s))),
      s\<lparr>sh_core := core\<rparr>))"

definition visible_renewals :: "group_view \<Rightarrow> lease_shared \<Rightarrow> (node_id \<times> renewal_id) list" where
  "visible_renewals view s = List.map_filter (\<lambda>(node, entries).
     if node = sh_me s then None
     else map_option (Pair node) (Option.bind (fmlookup entries (sh_renewal_key s)) decode_renewal))
     (fentries (gv_entries view))"

definition shell_grant_map :: "group_view \<Rightarrow> time \<Rightarrow> lease_shared \<Rightarrow> grant_map \<times> lease_shared" where
  "shell_grant_map view now s =
    (let (grants, ledger) = ledger_fold now (visible_renewals view s) (applied_by (gv_entries view))
           (sh_ledger s);
         core = fold (\<lambda>(reader, renewal). pin reader (rn_epoch renewal)) (fentries grants) (sh_core s) in
     (grants, s\<lparr>sh_ledger := ledger, sh_core := core\<rparr>))"

definition publish_grants :: "bytes \<Rightarrow> lease_shared \<Rightarrow> entry_write" where
  "publish_grants encoded s = SetEntry (sh_grant_key s) encoded None"

text \<open>
  One turn of the renewal task and of the granter task.  Both stop once the set has been left.
  \<open>accepted\<close> is the inbox's answer to the map's publication, and \<open>published\<close> the bytes last accepted.
\<close>

definition renewal_turn :: "time \<Rightarrow> lease_shared \<Rightarrow> (entry_write \<times> lease_shared) option" where
  "renewal_turn now s = (if sh_left s then None else Some (shell_renew now s))"

definition granter_turn ::
    "group_view \<Rightarrow> time \<Rightarrow> bool \<Rightarrow> bytes option \<Rightarrow> lease_shared
      \<Rightarrow> (entry_write list \<times> bytes option \<times> lease_shared) option" where
  "granter_turn view now accepted published s = (
    if sh_left s then None
    else
      (let (grants, s) = shell_grant_map view now s;
           encoded = encode_grants grants in
       if published = Some encoded then Some ([], published, s)
       else Some ([publish_grants encoded s], if accepted then Some encoded else published, s)))"

datatype wake = WakeTick | WakeRefold | WakeEvent group_event

text \<open>What wakes the granter: \<open>Some True\<close> a turn is due, \<open>Some False\<close> the group is gone.\<close>

fun grant_trigger :: "lease_shared \<Rightarrow> wake \<Rightarrow> bool option" where
  "grant_trigger s WakeTick = Some True"
| "grant_trigger s WakeRefold = Some True"
| "grant_trigger s (WakeEvent (EdgeNodeState node key)) =
     (if key = sh_renewal_key s \<and> node \<noteq> sh_me s then Some True else None)"
| "grant_trigger s (WakeEvent EdgeMembership) = Some True"
| "grant_trigger s (WakeEvent Lagged) = Some True"
| "grant_trigger s (WakeEvent OtherEvent) = None"
| "grant_trigger s (WakeEvent Closed) = Some False"


section \<open>Ingesting\<close>

definition map_of_node :: "group_view \<Rightarrow> lease_shared \<Rightarrow> node_id \<Rightarrow> grant_map" where
  "map_of_node view s node = (case view_node_entry (gv_entries view) node (sh_grant_key s) of
      Some bs \<Rightarrow> decode_grants bs | None \<Rightarrow> fmempty)"

definition shell_holders :: "group_view \<Rightarrow> lease_shared \<Rightarrow> node_id list" where
  "shell_holders view s = sort (map fst (visible_renewals view s))"

definition ingest_grants :: "group_view \<Rightarrow> lease_shared \<Rightarrow> lease_shared" where
  "ingest_grants view s =
    (let advertised = filter (\<lambda>node. node \<noteq> sh_me s \<and> node_has_capability (gv_entries view) node CAP_LEASE)
           (map fst (view_statuses view));
         core = set_roster advertised (sh_core s);
         roster = fset_list (lc_roster core);
         core = fold (\<lambda>granter. observe_grant_map granter (map_of_node view s granter)) roster core;
         readers = remdups_adj (sort (shell_holders view s @ roster));
         ledger = fold (\<lambda>reader. observe_reader_map reader (map_of_node view s reader)) readers (sh_ledger s) in
     s\<lparr>sh_core := core, sh_ledger := ledger\<rparr>)"

definition refresh_view :: "config \<Rightarrow> group_view \<Rightarrow> time \<Rightarrow> lease_shared \<Rightarrow> lease_shared" where
  "refresh_view config view now s =
    (let s = snd (warmed_up config view now s);
         s = s\<lparr>sh_core := snd (lease_poll now (sh_core s))\<rparr>;
         s = ingest_grants view s in
     publish_serve now s)"

definition granted_by :: "group_view \<Rightarrow> node_id \<Rightarrow> lease_shared \<Rightarrow> renewal_id option" where
  "granted_by view granter s = do {
     bs \<leftarrow> view_node_entry (gv_entries view) granter (sh_grant_key s);
     fmlookup (decode_grants bs) (sh_me s)
   }"

definition leases_leave ::
    "group_view \<Rightarrow> time \<Rightarrow> lease_shared \<Rightarrow> entry_write list \<times> lease_shared" where
  "leases_leave view now s =
    (let s = s\<lparr>sh_left := True, sh_core := lease_depart (sh_core s)\<rparr>;
         s = publish_serve now s;
         s = s\<lparr>sh_ledger := ledger_depart (sh_ledger s)\<rparr>;
         (grants, s) = shell_grant_map view now s in
     ([publish_grants (encode_grants grants) s, DeleteEntry (sh_renewal_key s)], s))"


section \<open>The read handle\<close>

definition view_valid :: "time \<Rightarrow> lease_shared \<Rightarrow> bool" where
  "view_valid now s \<longleftrightarrow> (case sh_serve s of Some until \<Rightarrow> now < until | None \<Rightarrow> False)"

definition view_state :: "time \<Rightarrow> lease_shared \<Rightarrow> lease_state \<times> lease_shared" where
  "view_state now s =
    (let (state, core) = lease_poll now (sh_core s) in
     (state, publish_serve now (s\<lparr>sh_core := core\<rparr>)))"

definition view_mark_caught_up :: "time \<Rightarrow> lease_shared \<Rightarrow> bool \<times> lease_shared" where
  "view_mark_caught_up now s = (
    if sh_warmed s then
      (let (took, core) = mark_caught_up now (sh_core s) in
       (took, publish_serve now (s\<lparr>sh_core := core\<rparr>)))
    else (False, publish_serve now s))"

definition view_require_resync :: "time \<Rightarrow> lease_shared \<Rightarrow> lease_shared" where
  "view_require_resync now s = publish_serve now (s\<lparr>sh_core := require_resync (sh_core s)\<rparr>)"

definition view_remaining :: "time \<Rightarrow> lease_shared \<Rightarrow> u64 option" where
  "view_remaining now s = do {
     until \<leftarrow> sh_serve s;
     if now < until then Some (clock_since until now) else None
   }"


section \<open>Coherent writes\<close>

datatype coherence_outcome = OutAllApplied | OutLeaseLapsed "node_id list" | OutTimedOut "node_id list"

definition is_coherent :: "coherence_outcome \<Rightarrow> bool" where
  "is_coherent outcome \<longleftrightarrow> (case outcome of OutTimedOut _ \<Rightarrow> False | _ \<Rightarrow> True)"

definition wait_snapshot :: "group_view \<Rightarrow> node_id \<Rightarrow> time \<Rightarrow> lease_shared \<Rightarrow> wait_member list" where
  "wait_snapshot view writer now s =
    map (\<lambda>member. \<lparr>wm_member = member, wm_applied = applied_by (gv_entries view) member writer,
        wm_excusable_at = excusable_at (sh_ledger s) member\<rparr>)
      (filter (\<lambda>member. member \<noteq> sh_me s)
        (remdups_adj (sort (shell_holders view s @ open_grants (sh_ledger s) now))))"

definition warmup_hold ::
    "config \<Rightarrow> group_view \<Rightarrow> time \<Rightarrow> node_id \<Rightarrow> wait_member list \<Rightarrow> lease_shared
      \<Rightarrow> node_id list option \<times> lease_shared" where
  "warmup_hold config view now writer snapshot s =
    (let (warm, s) = warmed_up config view now s in
     if warm then (None, s)
     else
       (let unseen = filter (\<lambda>node. \<not> list_ex (\<lambda>held. wm_member held = node) snapshot)
              (filter (\<lambda>node. node \<noteq> sh_me s \<and> node \<noteq> writer) (members_with_capability view CAP_LEASE)) in
        if unseen = [] \<and> snapshot \<noteq> [] then (None, s) else (Some unseen, s)))"

definition shell_register :: "node_id \<Rightarrow> write_token \<Rightarrow> time \<Rightarrow> lease_shared \<Rightarrow> lease_shared" where
  "shell_register writer token now s = s\<lparr>sh_ledger := ledger_begin writer token now (sh_ledger s)\<rparr>"

definition shell_unregister :: "node_id \<Rightarrow> write_token \<Rightarrow> lease_shared \<Rightarrow> lease_shared" where
  "shell_unregister writer token s = s\<lparr>sh_ledger := ledger_end writer token (sh_ledger s)\<rparr>"

text \<open>
  One turn of the wait.  \<open>passed\<close> is whether the caller's deadline has passed when the turn asks;
  \<open>Inr\<close> is another turn.
\<close>

definition coherent_turn ::
    "config \<Rightarrow> group_view \<Rightarrow> time \<Rightarrow> bool \<Rightarrow> node_id \<Rightarrow> write_token \<Rightarrow> coherence_core \<times> lease_shared
      \<Rightarrow> coherence_outcome + (coherence_core \<times> lease_shared)" where
  "coherent_turn config view now passed writer token st = (case st of (core, s) \<Rightarrow>
    let snapshot = wait_snapshot view writer now s;
        (held, s) = warmup_hold config view now writer snapshot s;
        (verdict, core) = (if held = None then map_prod Some id (coherence_step token now snapshot core)
          else (None, core)) in
    case verdict of
      Some AllApplied \<Rightarrow> Inl OutAllApplied
    | Some (LeaseLapsed stragglers) \<Rightarrow> Inl (OutLeaseLapsed stragglers)
    | _ \<Rightarrow>
        if passed then
          (let waiting_on = (case fst (abandon token core) of Some on \<Rightarrow> on | None \<Rightarrow> []);
               unseen = (case held of Some u \<Rightarrow> u | None \<Rightarrow> []) in
           Inl (OutTimedOut (remdups_adj (sort (waiting_on @ unseen)))))
        else Inr (core, s))"


section \<open>The published deadline\<close>

text \<open>
  Each step that publishes leaves a deadline that agrees with the core: the handle then answers yes only
  while the core itself serves.  Granting is the exception: it may pin a granter that has confirmed
  nothing and leaves the old deadline standing until the next step that publishes.
\<close>

lemma publish_serve_core [simp]: "sh_core (publish_serve now s) = sh_core s"
  by (simp add: publish_serve_def)

lemma publish_serve_sound:
  assumes "view_valid later (publish_serve now s)"
  shows "sh_warmed s \<and> lease_peek (sh_core s) later = Serving"
proof -
  from assms obtain until where "sh_warmed s" "lease_peek (sh_core s) now = Serving"
      "serve_until (sh_core s) = Some until" "later < until"
    by (auto simp: view_valid_def publish_serve_def split: if_splits option.splits)
  then show ?thesis by (simp add: lease_peek_def live_at_def split: if_splits)
qed

lemma refresh_view_sound:
  assumes "view_valid later (refresh_view config view now s)"
  shows "lease_peek (sh_core (refresh_view config view now s)) later = Serving"
  using assms unfolding refresh_view_def Let_def
  by (simp only: publish_serve_core publish_serve_sound)

lemma left_never_valid:
  assumes "leases_leave view now s = (ws, s')"
  shows "\<not> view_valid later s'"
proof -
  have "sh_serve s' = None"
    using assms
    by (auto simp: leases_leave_def shell_grant_map_def publish_serve_def lease_depart_def lease_peek_def
        Let_def split: prod.splits)
  then show ?thesis by (simp add: view_valid_def)
qed


section \<open>Boundary behaviours\<close>

text \<open>
  Granting a node that has confirmed nothing counts it in the roster, so the core no longer serves; the
  read handle goes on answering yes on the deadline published before.
\<close>

lemma pin_fold:
  "lc_me (fold (\<lambda>(n, r). pin n (rn_epoch r)) rows c) = lc_me c"
  "lc_granters (fold (\<lambda>(n, r). pin n (rn_epoch r)) rows c) = lc_granters c"
  "lc_roster c |\<subseteq>| lc_roster (fold (\<lambda>(n, r). pin n (rn_epoch r)) rows c)"
proof (induction rows arbitrary: c)
  case (Cons row rows)
  { case 1 with Cons show ?case by (simp add: pin_def split: prod.split option.split) }
  { case 2 with Cons show ?case by (simp add: pin_def split: prod.split option.split) }
  { case 3
    obtain n r where row: "row = (n, r)" by force
    have "lc_roster c |\<subseteq>| lc_roster (pin n (rn_epoch r) c)"
      by (auto simp: pin_def split: option.split)
    with Cons(3) [of "pin n (rn_epoch r) c"] show ?case by (auto simp: row) }
qed simp_all

lemma pinned_in_roster:
  assumes "(n, r) \<in> set rows" "n \<noteq> lc_me c" "fmlookup (lc_lives c) n = None"
  shows "n |\<in>| lc_roster (fold (\<lambda>(n, r). pin n (rn_epoch r)) rows c)"
  using assms
proof (induction rows arbitrary: c)
  case (Cons row rows)
  obtain m q where row: "row = (m, q)" by force
  let ?c = "pin m (rn_epoch q) c"
  have keep: "lc_me ?c = lc_me c" "fmlookup (lc_lives ?c) n = None"
    using Cons.prems by (auto simp: pin_def split: option.split)
  show ?case
  proof (cases "m = n")
    case True
    then have "n |\<in>| lc_roster ?c" using Cons.prems by (simp add: pin_def)
    then show ?thesis using pin_fold(3) [of ?c rows] by (auto simp: row)
  next
    case False
    then show ?thesis using Cons.IH [of ?c] Cons.prems keep by (simp add: row)
  qed
qed simp

lemma unconfirmed_not_serving:
  assumes "g |\<in>| lc_roster c" "fmlookup (lc_granters c) g = None"
  shows "lease_peek c now \<noteq> Serving"
  using assms confirmed_seq_le [of c _ g] by (auto simp: serving_iff)

lemma pin_leaves_deadline:
  assumes "shell_grant_map view now s = (grants, s')" "view_valid t s"
    and "fmlookup grants g = Some i" "g \<noteq> lc_me (sh_core s)"
    and "fmlookup (lc_lives (sh_core s)) g = None" "fmlookup (lc_granters (sh_core s)) g = None"
  shows "view_valid t s' \<and> lease_peek (sh_core s') t \<noteq> Serving"
proof -
  have s': "sh_serve s' = sh_serve s"
      "sh_core s' = fold (\<lambda>(n, r). pin n (rn_epoch r)) (fentries grants) (sh_core s)"
    using assms(1) by (auto simp: shell_grant_map_def Let_def split: prod.splits)
  have "(g, i) \<in> set (fentries grants)" using assms(3) by (simp add: in_fentries_iff)
  then have "g |\<in>| lc_roster (sh_core s')"
    unfolding s' by (rule pinned_in_roster) (fact assms)+
  moreover have "fmlookup (lc_granters (sh_core s')) g = None"
    using assms(6) by (simp add: s' pin_fold)
  ultimately show ?thesis
    using assms(2) unconfirmed_not_serving by (simp add: view_valid_def s'(1))
qed

text \<open>
  A granter whose earlier life departed is counted again once its next life is granted; a late sight
  of the earlier life's map takes it out again.
\<close>

lemma set_roster_departed: "life_departed c g \<Longrightarrow> g |\<notin>| lc_roster (set_roster advertised c)"
  by (auto simp: set_roster_def Let_def)

lemma stale_departure_unpins:
  assumes "granter \<noteq> lc_me c" "old \<noteq> new"
    and "fmlookup (lc_lives c) granter = Some \<lparr>gl_epoch = old, gl_departed = True\<rparr>"
  shows "granter |\<in>| lc_roster (pin granter new c)"
    and "granter |\<notin>| lc_roster (set_roster advertised (observe_grant_map granter
      (life_stamp \<lparr>gl_epoch = old, gl_departed = True\<rparr> granter grants) (pin granter new c)))"
  subgoal using assms by (simp add: pin_def)
  subgoal by (rule set_roster_departed) (simp add: observe_grant_map_def life_departed_def)
  done

text \<open>
  A reader that a write in flight has excused is granted again before it has applied that write, when
  its newest renewal was first seen before the write began and only an older write held it back.
\<close>

definition regrant_ledger :: grant_ledger where
  "regrant_ledger =
    (let l = ledger_from_validated sample_writer lease_config_default 5 0;
         l = ledger_begin sample_writer (WriteToken 1 1) 5 l;
         l = snd (ledger_fold 1990 [(sample_reader, RenewalId 7 1)] (\<lambda>_ _. None) l);
         l = observe_reader_map sample_reader
           (life_stamp \<lparr>gl_epoch = 7, gl_departed = False\<rparr> sample_reader
             (fmupd sample_writer (RenewalId 5 1) fmempty)) l in
     ledger_begin sample_writer (WriteToken 1 2) 2000 l)"

lemma fentries_empty [simp]: "fentries (fmempty :: ('k :: linorder, 'v) fmap) = []"
  by (simp add: fentries_def keys_list_def)

lemma fentries_single [simp]: "fentries (fmupd k v fmempty) = [(k :: _ :: linorder, v)]"
  by (simp add: fentries_def keys_list_def fset_list_def)

lemma regrant_ledger_value:
  "regrant_ledger = (ledger_from_validated sample_writer lease_config_default 5 0)
    \<lparr>gd_readers := fmupd sample_reader
        \<lparr>rr_seen = Some (RenewalId 7 1, 1990), rr_granted = None, rr_counts_me = Some 7, rr_departed = None\<rparr>
        fmempty,
     gd_inflight := fmupd (sample_writer, WriteToken 1 2) 2000
       (fmupd (sample_writer, WriteToken 1 1) 5 fmempty)\<rparr>"
  by (simp add: regrant_ledger_def ledger_from_validated_def ledger_begin_def ledger_fold_def fold_reader_def
      first_seen_def reader_of_def reader_default_def reader_current_def grant_cap_def behind_def
      observe_reader_map_def life_of_def life_stamp_def LIFE_LIVE_def Let_def)

lemma regrant_inflight:
  "fmdrop (w, t) (fmupd (w, u) at (fmupd (w, t) began fmempty)) = (if t = u then fmempty else fmupd (w, u) at fmempty)"
  by (rule fmap_ext) auto

lemma excused_reader_regranted:
  fixes applied
  defines "applied \<equiv> \<lambda>(_ :: node_id) (_ :: node_id). Some (WriteToken 1 1)"
  shows "excusable_at regrant_ledger sample_reader = Some 2000"
    and "fmlookup (fst (ledger_fold 2003 [(sample_reader, RenewalId 7 1)] applied
        (ledger_end sample_writer (WriteToken 1 1) regrant_ledger))) sample_reader = Some (RenewalId 7 1)"
  subgoal
    by (simp add: regrant_ledger_value excusable_at_def ledger_from_validated_def sample_config_ms)
  subgoal
    by (simp add: regrant_ledger_value ledger_end_def ledger_from_validated_def ledger_fold_def fold_reader_def
        first_seen_def reader_of_def reader_current_def grant_cap_def behind_def applied_def
        regrant_inflight life_stamp_def Let_def)
  done

end
