(* ===== verification/Spec2Isabelle.thy ===== *)
theory Spec2Isabelle
  imports Epoch_Safety Anchor_Safety Actor_Views Actor_Durable Lease_Shell
begin

text \<open>
  A verification development of groupnet, a group-membership and coordination library in Rust.

  \<^bold>\<open>The program.\<close> A node joins groups.  Each group on each node is one sans-IO engine
  (\<open>crates/groupnet-core\<close>): it takes a frame, a tick or a command and returns effects.  Engines gossip
  their members, per-member entries and metadata by digests and deltas, detect failures by probes, and, in
  a hosted group, elect a host per epoch by settling, by a quorum of voters, or through an external
  register.  The runtime (\<open>crates/groupnet-runtime\<close>) gives each engine an actor that carries its effects
  out and publishes what readers see, and each anchored group a task that writes the register.  On top,
  \<open>crates/groupnet-consistency\<close> keeps write feeds, acknowledgements, floors and coherence leases in the
  entries of a group.

  \<^bold>\<open>Conventions.\<close> A Rust integer of fixed width is a word of that width, with the saturating operations of
  \<open>Prelude\<close> and plain wrap-around as the source has them; the engine's change clock, a counter of its own
  steps, is a natural number.  A string is its UTF-8 bytes; ordered maps and sets are finite maps and sets
  listed in key order.  A struct is a record, an enum a datatype, a method of the engine a \<open>step\<close>: the
  effects it returns and the state it leaves.  A panic is \<open>None\<close>, an error a value.

  \<^bold>\<open>The theories.\<close> From the bottom:

  \<^item> \<open>Prelude\<close>, \<open>Ids\<close>: machine integers, orders, ordered maps and sets, node and group names, time
    (\<open>id.rs\<close>, \<open>time.rs\<close>).
  \<^item> \<open>Wire\<close>: the frame codec (\<open>wire.rs\<close>).  The locale \<open>codec\<close> is the law of a field, one interpretation per
    field; \<open>decode\<close> accepts exactly what \<open>encode\<close> writes, and no cut frame decodes.
  \<^item> \<open>Placement\<close>, \<open>Group_Config\<close>, \<open>Anchor\<close>, \<open>Membership\<close>, \<open>Spread\<close>, \<open>Election_Order\<close>: rendezvous placement,
    configurations and rosters, the pure anchor rules, member records with their entry deadlines, load
    spreading, the fencing order and the grant verdict (\<open>placement.rs\<close>, \<open>config.rs\<close>, \<open>anchor.rs\<close>,
    \<open>membership.rs\<close>, \<open>engine/spread.rs\<close>, \<open>engine/election/order.rs\<close>).
  \<^item> \<open>Engine_State\<close>, \<open>Merge\<close>, \<open>Anti_Entropy\<close>, \<open>Liveness\<close>, \<open>Election\<close>, \<open>Engine\<close>: the engine, file by file
    (\<open>engine/state.rs\<close>, \<open>index.rs\<close>, \<open>merge.rs\<close>, \<open>anti_entropy.rs\<close>, \<open>liveness.rs\<close>, \<open>election.rs\<close> with its
    submodules, \<open>command.rs\<close>, \<open>discovery.rs\<close>), up to \<open>start\<close>, \<open>on_message\<close>, \<open>on_tick\<close> and \<open>apply_cmd\<close>.
  \<^item> \<open>Step_Frame\<close>, \<open>Election_Frame\<close>: the locales \<open>step_frame\<close> (a relation of a step that holds of nothing and
    of two steps in a row) and \<open>election_frame\<close>.  Every invariant of whole engines is an interpretation.
  \<^item> \<open>Quorum_Safety\<close>, \<open>Epoch_Safety\<close>: a network of real engines under quorum activation, with frames lost,
    repeated and reordered and nodes that crash in the middle of a batch: one host per epoch, and one grant
    per voter and epoch.  \<open>Lone_Run\<close> evaluates one engine for witnesses.
  \<^item> \<open>Anchor_Driver\<close>, \<open>Anchor_Safety\<close>: the anchor task (\<open>groupnet-runtime/src/anchor.rs\<close>), every await a
    state, and the same promise for external activation over a register that loses answers.
  \<^item> \<open>Convergence\<close>: entries and metadata do not depend on the order or the number of merges (locale
    \<open>convergent\<close>).
  \<^item> \<open>Index_Inv\<close>, \<open>Derived_State\<close>: the ordered index, its caches and the coordinator are what a scan gives,
    after any history of calls.
  \<^item> \<open>Change_Tracking\<close>: whatever changes about a member, the change clock, the forgotten list or an effect
    names it, so that a mirror can follow.
  \<^item> \<open>Persistent_Map\<close>, \<open>Group_View\<close>: the AVL map of \<open>pmap.rs\<close>, which refines a finite map, and the reads of a
    group handle (\<open>group/roster.rs\<close>, \<open>capability.rs\<close>).
  \<^item> \<open>Group_Actor\<close>: spawning, booting and turning the actor of a group (\<open>driver.rs\<close>, \<open>driver/durability.rs\<close>,
    \<open>driver/views.rs\<close>, \<open>node/profile.rs\<close>, \<open>spawn_group\<close> of \<open>node.rs\<close>).  \<open>Actor_Durable\<close>: a voter's actor sends
    no grant of its own that is not on disk.  \<open>Actor_Views\<close>: the published views are the engine's state after
    every turn.
  \<^item> \<open>Session_Wire\<close>, \<open>Write_Feed\<close>: keys, tokens and frames of the session tier, a writer's ring, a
    subscriber's cursors, the frontier, acknowledgements and floors (\<open>token.rs\<close>, \<open>entry.rs\<close>, \<open>wire.rs\<close>,
    \<open>feed.rs\<close>, \<open>peers.rs\<close>, \<open>publish.rs\<close>, \<open>frontier.rs\<close>, \<open>acks.rs\<close>, \<open>floor.rs\<close>).  The frame a ring shows is
    computed from the history of its writes, and a subscriber accounts for every write it passes.
  \<^item> \<open>Lease_Wire\<close>, \<open>Lease_Core\<close>, \<open>Grant_Ledger\<close>, \<open>Coherence_Core\<close>, \<open>Lease_Shell\<close>, \<open>Lease_Safety\<close>: coherence
    leases (\<open>lease.rs\<close>, \<open>lease/\<close>), the three cores, their shell, the verdict of a wait from the reports it
    was given, and the inequality between a reader's service and a writer's excuse over two drifting clocks
    while the writer restarts.

  \<^bold>\<open>Assumptions.\<close> The transport, the grant store, the register behind the anchor trait, the clocks and the
  answers of channels are arguments, and every theorem holds for all their behaviours that it does not
  exclude by a hypothesis.  Those are: a frame that names a node as its granter was sent by it
  (\<open>authentic\<close>, \<open>not_forged\<close>); names fit the 32-bit length prefix (\<open>node_ok\<close>, \<open>group_ok\<close>); the drift bound of
  the lease configuration; a restarted writer has not mistaken a departed earlier life of a reader for its
  current one (\<open>departure_current\<close>); the register answers as a compare-and-set register; a membership stays below
  the length counter of the map that mirrors it (\<open>room\<close>).

  \<^bold>\<open>Loops and bounds.\<close> No definition carries fuel.  A loop that is not structural is a function with a
  measure; draining a map's iterator is a partial function that is shown to return.  The answers that
  retries and polls get from outside are sequences.  Deadlines are 64-bit milliseconds that saturate.

  \<^bold>\<open>Where the code is at an edge.\<close> The section below, and the last lemmas of \<open>Write_Feed\<close>,
  \<open>Lease_Safety\<close>, \<open>Lease_Shell\<close> and \<open>Anchor_Safety\<close>, state behaviours the comments of the source do not mention:
  counters at their last value, a renewal that passes over a whole life, a departure seen late.

  \<^bold>\<open>Not modelled.\<close> The replicated log and the volatile bootstrap and recovery rounds
  (\<open>groupnet-core/src/replication\<close>, \<open>volatile_bootstrap\<close>, \<open>volatile_recovery\<close>) with the shells around them,
  and the hosted write path (\<open>groupnet-consistency/src/hosted\<close>): separate protocols that no modelled part
  calls.  Node assembly beyond spawning a group, the read-only entry inspections of the actor, file formats
  of the grant store, messaging, streams, rpc, the network overlay and the transports: tasks, sockets, files
  and timers.  The simulator, the test kit and the facade: harnesses and re-exports.  Text of errors and
  debug output, memory sharing and reference counts.
\<close>


section \<open>Boundary behaviours of the engine\<close>

text \<open>
  Behaviours at the edges of the 64-bit counters and of the last-writer-wins order, as the code has them.
\<close>

lemma refutation_wraps:
  assumes "\<not> ge_leaving s" "status \<noteq> Alive"
  shows "self_refute_target s status u64_max = Some 0"
  using assms by (simp add: self_refute_target_def)

lemma metadata_version_wraps:
  assumes "fmlookup (ge_metadata s) key = Some v" "vv_version v = u64_max" "mt_key d = key"
    and "mt_version d = u64_max" "mt_writer d = vv_writer v"
  shows "meta_wins d (the (fmlookup (ge_metadata (snd (update_metadata key value s))) key))"
proof -
  have "(0 :: u64) < u64_max" by (simp add: word_gt_0)
  with assms show ?thesis by (simp add: update_metadata_def nudge_anti_entropy_now_def meta_wins_def)
qed

lemma metadata_tie_keeps_first:
  assumes "fmlookup (ge_metadata s) (mt_key d) = Some v" "mt_version d = vv_version v" "mt_writer d = vv_writer v"
  shows "snd (merge_meta d s) = s"
  using assms by (simp add: merge_meta_def meta_wins_def)

lemma delta_requests_uncounted: "ge_stats (snd (send_delta_request to wants s)) = ge_stats s"
  by (simp add: send_delta_request_def Let_def)

end
